(* ===== verification/Prelude.thy ===== *)
theory Prelude
  imports Main "HOL-Library.Word"
begin

unbundle bit_operations_syntax

text \<open>
  Shared vocabulary of the development: Go's machine integers, Go's way to fail (an error
  value or a run-time panic) with the bind that chains fallible calls, the predicate
  \<open>okE\<close> that component proofs use to say "no panic, and on success this", and generic
  lemmas on lists and little-endian numbers.
\<close>

section \<open>Go integers\<close>

type_synonym u8 = "8 word"
type_synonym u16 = "16 word"
type_synonym u32 = "32 word"
type_synonym u64 = "64 word"
type_synonym bytes = "u8 list"

text \<open>
  A signed Go integer is an \<^typ>\<open>int\<close> and a conversion or an arithmetic step that can leave
  the range is wrapped by one of these two-complement truncations.
\<close>

definition to_int32 :: "int \<Rightarrow> int" where
  "to_int32 x = signed_take_bit 31 x"

definition to_int64 :: "int \<Rightarrow> int" where
  "to_int64 x = signed_take_bit 63 x"

lemma to_int32_id [simp]: "- (2 ^ 31) \<le> x \<Longrightarrow> x < 2 ^ 31 \<Longrightarrow> to_int32 x = x"
  by (simp add: to_int32_def signed_take_bit_int_eq_self)

lemma to_int64_id [simp]: "- (2 ^ 63) \<le> x \<Longrightarrow> x < 2 ^ 63 \<Longrightarrow> to_int64 x = x"
  by (simp add: to_int64_def signed_take_bit_int_eq_self)

lemma to_int32_range: "- (2 ^ 31) \<le> to_int32 x" "to_int32 x < 2 ^ 31"
  using signed_take_bit_int_greater_eq_minus_exp [of 31 x] signed_take_bit_int_less_exp [of 31 x]
  by (simp_all add: to_int32_def)

lemma to_int64_range: "- (2 ^ 63) \<le> to_int64 x" "to_int64 x < 2 ^ 63"
  using signed_take_bit_int_greater_eq_minus_exp [of 63 x] signed_take_bit_int_less_exp [of 63 x]
  by (simp_all add: to_int64_def)

section \<open>Errors and panics\<close>

text \<open>
  A Go call returns a value, returns an error of its package, or panics (an index out of
  range, a nil dereference). The last two are kept apart: most safety properties below say
  that the second never happens.
\<close>

datatype 'e failure = Err 'e | Panic

definition bindE :: "'x + 'a \<Rightarrow> ('a \<Rightarrow> 'x + 'b) \<Rightarrow> 'x + 'b" where
  "bindE m f = (case m of Inl e \<Rightarrow> Inl e | Inr a \<Rightarrow> f a)"

lemma bindE_simps [simp]: "bindE (Inl e) f = Inl e" "bindE (Inr a) f = f a"
  by (simp_all add: bindE_def)

lemma bindE_Inr_iff: "bindE m f = Inr b \<longleftrightarrow> (\<exists>a. m = Inr a \<and> f a = Inr b)"
  by (cases m) auto

lemma bindE_right [simp]: "bindE m Inr = m"
  by (cases m) simp_all

lemma bindE_pairE:
  assumes "bindE m (\<lambda>(x, r). f x r) = Inr y"
  obtains x r where "m = Inr (x, r)" "f x r = Inr y"
  using assms by (cases m) auto

lemma bindE_tripleE:
  assumes "bindE m (\<lambda>(x, y, r). f x y r) = Inr z"
  obtains x y r where "m = Inr (x, y, r)" "f x y r = Inr z"
  using assms by (cases m) auto

lemma if_InlE:
  assumes "(if c then Inl e else m) = Inr y"
  obtains "\<not> c" "m = Inr y"
  using assms by (cases c) auto

lemma bindE_pair_not_Panic:
  "m \<noteq> Inl Panic \<Longrightarrow> (\<And>x r. f x r \<noteq> Inl Panic) \<Longrightarrow> bindE m (\<lambda>(x, r). f x r) \<noteq> Inl Panic"
  by (cases m) auto

lemma bindE_assoc: "bindE (bindE m f) g = bindE m (\<lambda>x. bindE (f x) g)"
  by (cases m) auto

lemma bindE_if: "bindE (if c then x else y) f = (if c then bindE x f else bindE y f)"
  by simp

lemma bindE_cong [fundef_cong]:
  "m = m' \<Longrightarrow> (\<And>a. m' = Inr a \<Longrightarrow> f a = f' a) \<Longrightarrow> bindE m f = bindE m' f'"
  by (cases m') auto

text \<open>\<open>okE m Q\<close>: \<open>m\<close> does not panic, and if it succeeds its result satisfies \<open>Q\<close>.\<close>

definition okE :: "('e failure + 'a) \<Rightarrow> ('a \<Rightarrow> bool) \<Rightarrow> bool" where
  "okE m Q = (case m of Inl e \<Rightarrow> e \<noteq> Panic | Inr a \<Rightarrow> Q a)"

named_theorems okE_rules

lemma okE_simps [simp]:
  "okE (Inl (Err e)) Q" "\<not> okE (Inl Panic) Q" "okE (Inr a) Q = Q a"
  by (simp_all add: okE_def)

lemma okE_bind [simp]: "okE (bindE m f) Q = okE m (\<lambda>a. okE (f a) Q)"
  by (cases m) (auto simp: okE_def)

lemma okE_if [simp]: "okE (if c then x else y) Q = (if c then okE x Q else okE y Q)"
  by simp

lemma okE_weaken: "okE m Q \<Longrightarrow> (\<And>a. m = Inr a \<Longrightarrow> Q a \<Longrightarrow> R a) \<Longrightarrow> okE m R"
  by (cases m) (auto simp: okE_def)

lemma okE_conjI: "okE m Q \<Longrightarrow> okE m R \<Longrightarrow> okE m (\<lambda>a. Q a \<and> R a)"
  by (cases m) (auto simp: okE_def)

lemma okE_InrD: "okE m Q \<Longrightarrow> m = Inr a \<Longrightarrow> Q a"
  by simp

lemma okE_not_Panic: "okE m Q \<Longrightarrow> m \<noteq> Inl Panic"
  by auto

lemma okE_iff: "okE m Q \<longleftrightarrow> m \<noteq> Inl Panic \<and> (\<forall>a. m = Inr a \<longrightarrow> Q a)"
  by (auto simp: okE_def split: sum.splits)

text \<open>\<open>succE m Q\<close>: on success this; for facts that do not depend on what cannot panic.\<close>

definition succE :: "'x + 'a \<Rightarrow> ('a \<Rightarrow> bool) \<Rightarrow> bool" where
  "succE m Q \<longleftrightarrow> (\<forall>a. m = Inr a \<longrightarrow> Q a)"

lemma succE_simps [simp]: "succE (Inl e) Q" "succE (Inr a) Q = Q a"
  by (auto simp: succE_def)

lemma succE_bind [simp]: "succE (bindE m f) Q = succE m (\<lambda>a. succE (f a) Q)"
  by (cases m) (auto simp: succE_def)

lemma succE_if [simp]: "succE (if c then m else n) Q = (if c then succE m Q else succE n Q)"
  by simp

lemma succE_True [simp]: "succE m (\<lambda>_. True)"
  by (simp add: succE_def)

lemma succE_all: "(\<And>a. Q a) \<Longrightarrow> succE m Q"
  by (simp add: succE_def)

lemma succE_weaken: "succE m Q \<Longrightarrow> (\<And>a. Q a \<Longrightarrow> R a) \<Longrightarrow> succE m R"
  by (auto simp: succE_def)

lemma succE_D: "succE m Q \<Longrightarrow> m = Inr a \<Longrightarrow> Q a"
  by (auto simp: succE_def)

section \<open>Iterating a fallible step\<close>

text \<open>\<open>timesE n f s\<close>: the loop \<open>for i := n; i > 0; i--\<close> around a body that may fail.\<close>

fun timesE :: "nat \<Rightarrow> ('s \<Rightarrow> 'x + 's) \<Rightarrow> 's \<Rightarrow> 'x + 's" where
  "timesE 0 f s = Inr s"
| "timesE (Suc n) f s = bindE (f s) (timesE n f)"

lemma timesE_numeral [simp]:
  "timesE (numeral k) f s = bindE (f s) (timesE (pred_numeral k) f)"
  by (simp add: numeral_eq_Suc)

lemma okE_timesE:
  assumes "I s" and "\<And>s. I s \<Longrightarrow> okE (f s) I"
  shows "okE (timesE n f s) I"
  using assms(1)
proof (induction n arbitrary: s)
  case (Suc n)
  from assms(2)[OF Suc.prems] show ?case
    by (auto elim!: okE_weaken intro: Suc.IH)
qed simp

section \<open>Little-endian numbers\<close>

fun le_val :: "bytes \<Rightarrow> int" where
  "le_val [] = 0"
| "le_val (b # bs) = uint b + 256 * le_val bs"

lemma uint_u8_bounds: "0 \<le> uint (b :: u8)" "uint (b :: u8) < 256"
  using uint_lt2p [of b] by simp_all

lemma le_val_nonneg [simp]: "0 \<le> le_val bs"
  by (induction bs) (auto simp: uint_u8_bounds)

lemma le_val_less: "le_val bs < 256 ^ length bs"
proof (induction bs)
  case (Cons b bs)
  then have "le_val bs + 1 \<le> 256 ^ length bs" by simp
  with uint_u8_bounds(2) [of b] show ?case by simp
qed simp

lemma le_val_append: "le_val (xs @ ys) = le_val xs + 256 ^ length xs * le_val ys"
  by (induction xs) (auto simp: algebra_simps)

lemma le_val_inject:
  "length xs = length ys \<Longrightarrow> le_val xs = le_val ys \<Longrightarrow> xs = ys"
proof (induction xs ys rule: list_induct2)
  case (Cons x xs y ys)
  have "uint x = (uint x + 256 * le_val xs) mod 256"
    using uint_u8_bounds [of x] by simp
  also have "\<dots> = (uint y + 256 * le_val ys) mod 256"
    using Cons.prems by simp
  also have "\<dots> = uint y"
    using uint_u8_bounds [of y] by simp
  finally have "uint x = uint y" .
  with Cons show ?case by (simp add: word_uint_eq_iff)
qed simp

section \<open>Strings\<close>

text \<open>A Go string is its bytes; a literal of the source is written with \<open>str\<close>.\<close>

definition str :: "string \<Rightarrow> bytes" where
  "str s = map of_char s"

end
