(* ===== verification/ScriptNum.thy ===== *)
theory ScriptNum
  imports Prelude
begin

text \<open>
  Script errors (\<^verbatim>\<open>txscript/error.go\<close>) and script numbers (\<^verbatim>\<open>txscript/scriptnum.go\<close>):
  the sign-and-magnitude little-endian encoding of the integers on the script stacks. A
  \<^verbatim>\<open>scriptNum\<close> is a Go \<^verbatim>\<open>int64\<close>, here an \<^typ>\<open>int\<close> whose arithmetic is wrapped by
  \<^const>\<open>to_int64\<close>. The lemmas show that \<^verbatim>\<open>Bytes\<close> and \<^verbatim>\<open>makeScriptNum\<close> are inverse to
  each other on minimally encoded data, the range a decoded number has, and that \<^verbatim>\<open>Bytes\<close>
  panics on the smallest \<^verbatim>\<open>int64\<close> and nowhere else.
\<close>

section \<open>Script errors\<close>

datatype (plugins only: code size) ErrorCode =
    ErrInternal | ErrInvalidFlags | ErrInvalidIndex | ErrUnsupportedAddress
  | ErrNotMultisigScript | ErrTooManyRequiredSigs | ErrTooMuchNullData | ErrEarlyReturn
  | ErrEmptyStack | ErrEvalFalse | ErrScriptUnfinished | ErrInvalidProgramCounter
  | ErrScriptTooBig | ErrElementTooBig | ErrTooManyOperations | ErrStackOverflow
  | ErrInvalidPubKeyCount | ErrInvalidSignatureCount | ErrNumberTooBig | ErrVerify
  | ErrEqualVerify | ErrNumEqualVerify | ErrCheckSigVerify | ErrCheckMultiSigVerify
  | ErrDisabledOpcode | ErrReservedOpcode | ErrMalformedPush | ErrInvalidStackOperation
  | ErrUnbalancedConditional | ErrMinimalData | ErrInvalidSigHashType | ErrSigTooShort
  | ErrSigTooLong | ErrSigInvalidSeqID | ErrSigInvalidDataLen | ErrSigMissingSTypeID
  | ErrSigMissingSLen | ErrSigInvalidSLen | ErrSigInvalidRIntID | ErrSigZeroRLen
  | ErrSigNegativeR | ErrSigTooMuchRPadding | ErrSigInvalidSIntID | ErrSigZeroSLen
  | ErrSigNegativeS | ErrSigTooMuchSPadding | ErrSigHighS | ErrNotPushOnly
  | ErrSigNullDummy | ErrPubKeyType | ErrCleanStack | ErrNullFail | ErrWitnessMalleated
  | ErrWitnessMalleatedP2SH | ErrDiscourageUpgradableNOPs | ErrNegativeLockTime
  | ErrUnsatisfiedLockTime | ErrMinimalIf | ErrDiscourageUpgradableWitnessProgram
  | ErrWitnessProgramEmpty | ErrWitnessProgramMismatch | ErrWitnessProgramWrongLength
  | ErrWitnessUnexpected | ErrWitnessPubKeyType

text \<open>An error of the package: a script error with its code, or a plain \<^verbatim>\<open>fmt.Errorf\<close>.\<close>

datatype script_err = ScriptError ErrorCode | PlainError

type_synonym 'a sresult = "script_err failure + 'a"

abbreviation scriptError :: "ErrorCode \<Rightarrow> 'a sresult" where
  "scriptError c \<equiv> Inl (Err (ScriptError c))"

section \<open>Definitions\<close>

definition maxInt32 :: int where "maxInt32 = 2 ^ 31 - 1"
definition minInt32 :: int where "minInt32 = - (2 ^ 31)"
definition defaultScriptNumLen :: int where "defaultScriptNumLen = 4"

definition checkMinimalDataEncoding :: "bytes \<Rightarrow> unit sresult" where
  "checkMinimalDataEncoding v =
     (if length v = 0 then Inr ()
      else if v ! (length v - 1) AND 0x7f = 0 then
        if length v = 1 \<or> v ! (length v - 2) AND 0x80 = 0 then scriptError ErrMinimalData
        else Inr ()
      else Inr ())"

text \<open>The loop \<^verbatim>\<open>for n > 0 { append(byte(n&0xff)); n >>= 8 }\<close> of \<^verbatim>\<open>Bytes\<close>.\<close>

function le_loop :: "int \<Rightarrow> bytes" where
  "le_loop n = (if n > 0 then word_of_int (n AND 0xff) # le_loop (drop_bit 8 n) else [])"
  by pat_completeness auto
termination
  by (relation "measure nat") (auto simp: drop_bit_eq_div)

declare le_loop.simps [simp del]

definition Bytes :: "int \<Rightarrow> bytes sresult" where
  "Bytes n =
     (if n = 0 then Inr []
      else
        let isNegative = n < 0;
            n = (if isNegative then to_int64 (- n) else n);
            result = le_loop n
        in if result = [] then Inl Panic
           else if result ! (length result - 1) AND 0x80 \<noteq> 0 then
             Inr (result @ [if isNegative then 0x80 else 0x00])
           else if isNegative then
             Inr (result[length result - 1 := result ! (length result - 1) OR 0x80])
           else Inr result)"

definition Int32 :: "int \<Rightarrow> int" where
  "Int32 n = (if n > maxInt32 then maxInt32 else if n < minInt32 then minInt32 else to_int32 n)"

text \<open>The loop \<^verbatim>\<open>for i, val := range v { result |= int64(val) << uint8(8*i) }\<close>.\<close>

fun decode_loop :: "nat \<Rightarrow> bytes \<Rightarrow> int \<Rightarrow> int" where
  "decode_loop i [] result = result"
| "decode_loop i (val # v) result =
     decode_loop (Suc i) v (result OR to_int64 (push_bit ((8 * i) mod 256) (uint val)))"

definition makeScriptNum :: "bytes \<Rightarrow> bool \<Rightarrow> int \<Rightarrow> int sresult" where
  "makeScriptNum v requireMinimal scriptNumLen =
     (if int (length v) > scriptNumLen then scriptError ErrNumberTooBig
      else bindE (if requireMinimal then checkMinimalDataEncoding v else Inr ()) (\<lambda>_.
        if length v = 0 then Inr 0
        else
          let result = decode_loop 0 v 0
          in if v ! (length v - 1) AND 0x80 \<noteq> 0 then
               let result = result AND
                 NOT (to_int64 (push_bit ((8 * (length v - 1)) mod 256) 0x80))
               in Inr (to_int64 (- result))
             else Inr result))"

text \<open>The number a byte string stands for: magnitude in little endian, sign in the top bit.\<close>

definition snum_val :: "bytes \<Rightarrow> int" where
  "snum_val v =
     (if v = [] then 0
      else if uint (last v) < 128 then le_val v
      else - (le_val v - 128 * 256 ^ (length v - 1)))"

section \<open>Bits of bytes\<close>

lemma u8_div_128: "uint (b::u8) div 128 = (if uint b < 128 then 0 else 1)"
  using uint_u8_bounds [of b] by (auto intro!: int_div_pos_eq [where r = "uint b - 128"])

lemma u8_mod_128: "uint (b::u8) mod 128 = (if uint b < 128 then uint b else uint b - 128)"
  using uint_u8_bounds [of b] u8_div_128 [of b] by (simp add: mod_div_trivial minus_div_mult_eq_mod [symmetric])


lemma and_80_iff: "b AND 0x80 = 0 \<longleftrightarrow> uint (b::u8) < 128"
proof -
  have "b AND 2 ^ 7 = 0 \<longleftrightarrow> \<not> bit b 7"
    by (rule and_exp_eq_0_iff_not_bit)
  also have "bit b 7 \<longleftrightarrow> odd (uint b div 128)"
  proof -
    have "bit b 7 \<longleftrightarrow> bit (uint b) 7" by (simp add: bit_uint_iff)
    then show ?thesis by (simp add: bit_iff_odd [of "uint b"])
  qed
  also have "odd (uint b div 128) \<longleftrightarrow> 128 \<le> uint b"
    by (simp add: u8_div_128)
  finally show ?thesis by (simp add: not_le)
qed

lemma and_7f_iff: "b AND 0x7f = 0 \<longleftrightarrow> uint (b::u8) = 0 \<or> uint b = 128"
proof -
  have "b AND mask 7 = take_bit 7 b"
    by (simp add: take_bit_eq_mask)
  moreover have "uint (take_bit 7 b) = uint b mod 128"
  proof -
    have "uint (take_bit 7 b) = take_bit 7 (uint b)" by (rule unsigned_take_bit_eq)
    then show ?thesis by (simp add: take_bit_eq_mod [of 7 "uint b"])
  qed
  moreover have "uint b mod 128 = 0 \<longleftrightarrow> uint b = 0 \<or> uint b = 128"
    by (auto simp: u8_mod_128)
  ultimately show ?thesis
    by (simp add: mask_eq_exp_minus_1 word_uint_eq_iff)
qed

lemma uint_or_80: "uint (b::u8) < 128 \<Longrightarrow> uint (b OR 0x80) = uint b + 128"
proof -
  assume a: "uint b < 128"
  have "uint b AND 2 ^ 7 = 0" 
    using a uint_u8_bounds [of b] by (subst and_exp_eq_0_iff_not_bit) (simp add: bit_iff_odd)
  then have "uint b + 128 = uint b OR 128"
    by (simp add: disjunctive_add_eq_or)
  then show ?thesis by (simp add: unsigned_or_eq)
qed

lemma to_int64_push:
  assumes "n + 8 \<le> 63" shows "to_int64 (push_bit n (uint (b::u8))) = 2 ^ n * uint b"
proof -
  have "2 ^ n * uint b < 2 ^ n * (256::int)"
    using uint_u8_bounds(2) [of b] by simp
  also have "\<dots> = 2 ^ (n + 8)" by (simp add: power_add)
  also have "\<dots> \<le> 2 ^ 63" using assms by (intro power_increasing) auto
  finally have "2 ^ n * uint b < 2 ^ 63" .
  moreover have "- (2 ^ 63) \<le> 2 ^ n * uint b"
    using uint_u8_bounds(1) [of b] by (simp add: order_trans [of _ 0])
  ultimately show ?thesis
    by (simp add: push_bit_eq_mult mult.commute)
qed

lemma or_push_eq_add:
  assumes "0 \<le> r" "r < 2 ^ n" shows "r OR (2 ^ n * k) = r + 2 ^ n * (k::int)"
proof (rule disjunctive_add [symmetric])
  fix m
  have "\<not> bit r m" if "n \<le> m"
  proof -
    have "r < 2 ^ m" using assms(2) that by (meson less_le_trans one_le_numeral power_increasing)
    with assms(1) show ?thesis by (simp add: bit_iff_odd)
  qed
  moreover have "\<not> bit (push_bit n k) m" if "m < n"
    using that by (simp add: bit_push_bit_iff)
  ultimately show "\<not> bit r m \<or> \<not> bit (2 ^ n * k) m"
    by (metis mult.commute not_le push_bit_eq_mult)
qed

section \<open>Decoding and encoding as arithmetic\<close>

lemma decode_loop_eq:
  "i + length v \<le> 7 \<Longrightarrow> 0 \<le> r \<Longrightarrow> r < 256 ^ i \<Longrightarrow>
     decode_loop i v r = r + 256 ^ i * le_val v"
proof (induction i v r rule: decode_loop.induct)
  case (2 i val v r)
  have p: "(256::int) ^ i = 2 ^ (8 * i)" by (simp add: power_mult)
  have step: "r OR to_int64 (push_bit ((8 * i) mod 256) (uint val)) = r + 256 ^ i * uint val"
    using 2 by (simp add: to_int64_push or_push_eq_add p)
  have "r + 256 ^ i * uint val < 256 ^ Suc i"
  proof -
    have "256 ^ i * uint val \<le> 256 ^ i * 255" 
      using uint_u8_bounds(2) [of val] by simp
    with "2.prems"(3) show ?thesis unfolding power_Suc by linarith
  qed
  moreover have "0 \<le> r + 256 ^ i * uint val"
    using "2.prems"(2) uint_u8_bounds(1) [of val] by simp
  ultimately have "decode_loop (Suc i) v (r + 256 ^ i * uint val) =
      r + 256 ^ i * uint val + 256 ^ Suc i * le_val v"
    using "2.IH" "2.prems"(1) unfolding step by simp
  then show ?case using step by (simp add: algebra_simps)
qed simp

lemma le_val_butlast_last:
  "v \<noteq> [] \<Longrightarrow> le_val v = le_val (butlast v) + 256 ^ (length v - 1) * uint (last v)"
  by (metis append_butlast_last_id le_val.simps le_val_append length_butlast add.right_neutral
      mult_zero_right)

lemma and_not_top_bit:
  assumes "2 ^ m \<le> a" "a < 2 * 2 ^ m"
  shows "a AND NOT (2 ^ m) = a - (2 ^ m :: int)"
proof (rule disjunctive_diff [symmetric])
  fix n
  assume "bit (2 ^ m :: int) n"
  then have "n = m" by (simp add: bit_exp_iff)
  moreover have "a div 2 ^ m = 1"
    using assms by (intro int_div_pos_eq [where r = "a - 2 ^ m"]) auto
  ultimately show "bit a n" by (simp add: bit_iff_odd)
qed

lemma makeScriptNum_eq:
  assumes "length v \<le> 7"
  shows "makeScriptNum v m l =
    (if int (length v) > l then scriptError ErrNumberTooBig
     else bindE (if m then checkMinimalDataEncoding v else Inr ()) (\<lambda>_. Inr (snum_val v)))"
proof (cases "v = []")
  case True
  then show ?thesis by (simp add: makeScriptNum_def snum_val_def)
next
  case False
  define k where "k = length v - 1"
  have len: "length v = Suc k" using False by (simp add: k_def)
  have dec: "decode_loop 0 v 0 = le_val v"
    using decode_loop_eq [of 0 v 0] assms by simp
  have lst: "v ! (length v - Suc 0) = last v" using False by (simp add: last_conv_nth)
  have val: "le_val v = le_val (butlast v) + 256 ^ k * uint (last v)"
    using le_val_butlast_last [OF False] by (simp add: k_def)
  have low: "0 \<le> le_val (butlast v)" "le_val (butlast v) < 256 ^ k"
    using le_val_less [of "butlast v"] by (simp_all add: k_def)
  have p: "(2::int) ^ (8 * k + 7) = 128 * 256 ^ k" by (simp add: power_add power_mult)
  have neg: "to_int64 (- (le_val v AND NOT (to_int64 (push_bit ((8 * k) mod 256) 0x80)))) =
      - (le_val v - 128 * 256 ^ k)" if s: "128 \<le> uint (last v)"
  proof -
    have k: "k \<le> 6" using assms len by simp
    have "128 * (256::int) ^ k \<le> 128 * 256 ^ 6"
      using k by (intro mult_left_mono power_increasing) auto
    moreover have "0 \<le> (256::int) ^ k" by simp
    ultimately have "to_int64 (128 * 256 ^ k) = 128 * 256 ^ k"
      by (intro to_int64_id) (simp_all add: order_trans [of _ 0])
    then have pw: "to_int64 (push_bit ((8 * k) mod 256) 0x80) = 2 ^ (8 * k + 7)"
      using k by (simp add: push_bit_eq_mult p power_mult)
    have b1: "2 ^ (8 * k + 7) \<le> le_val v"
      unfolding val p using s low(1) by (intro add_increasing) (auto simp: mult.commute)
    have "le_val v < 256 ^ Suc k" using le_val_less [of v] len by simp
    then have b2: "le_val v < 2 * 2 ^ (8 * k + 7)" unfolding p by simp
    have "(256::int) ^ Suc k \<le> 256 ^ 7" using k by (intro power_increasing) auto
    with \<open>le_val v < 256 ^ Suc k\<close> have "le_val v < 256 ^ 7" by linarith
    then have "le_val v - 128 * 256 ^ k < 2 ^ 63" by (simp add: add.commute) (smt (verit) zero_le_power)
    moreover have "0 \<le> le_val v - 128 * 256 ^ k" using b1 p by simp
    ultimately have "to_int64 (- (le_val v - 128 * 256 ^ k)) = - (le_val v - 128 * 256 ^ k)"
      by simp
    then show ?thesis unfolding pw using and_not_top_bit [OF b1 b2] by (simp add: p)
  qed
  show ?thesis
    using False neg by (auto simp: makeScriptNum_def dec lst and_80_iff snum_val_def k_def Let_def)
qed

lemma le_loop_props:
  "0 < n \<Longrightarrow> le_loop n \<noteq> [] \<and> le_val (le_loop n) = n \<and> uint (last (le_loop n)) \<noteq> 0"
proof (induction n rule: le_loop.induct)
  case (1 n)
  have u: "uint (word_of_int (n AND 0xff) :: u8) = n mod 256"
    using take_bit_eq_mask [of 8 n] by (simp add: mask_eq_exp_minus_1 take_bit_eq_mod uint_word_of_int)
  have n: "n = n mod 256 + 256 * (n div 256)" by simp
  show ?case
  proof (cases "n div 256 > 0")
    case True
    with 1 show ?thesis using u n
      by (subst (1 2 3) le_loop.simps) (simp add: drop_bit_eq_div)
  next
    case False
    with "1.prems" have "n div 256 = 0" by (simp add: pos_imp_zdiv_pos_iff)
    then have "le_loop (drop_bit 8 n) = []" by (simp add: drop_bit_eq_div le_loop.simps)
    with "1.prems" u n \<open>n div 256 = 0\<close> show ?thesis
      by (simp add: le_loop.simps [of n])
  qed
qed

section \<open>Minimal encodings\<close>

lemma checkMinimal_iff:
  "checkMinimalDataEncoding v = Inr () \<longleftrightarrow>
     v = [] \<or> (uint (last v) \<noteq> 0 \<and> uint (last v) \<noteq> 128) \<or>
     (2 \<le> length v \<and> 128 \<le> uint (v ! (length v - 2)))"
proof (cases v rule: rev_cases)
  case (snoc us b)
  then have "v ! (length v - 1) = last v" "length v = 1 \<longleftrightarrow> \<not> 2 \<le> length v" "v \<noteq> []"
    by (cases us; simp)+
  then show ?thesis
    unfolding checkMinimalDataEncoding_def and_7f_iff and_80_iff by (auto simp: not_less)
qed (simp add: checkMinimalDataEncoding_def)

lemma snum_abs: "v \<noteq> [] \<Longrightarrow> \<bar>snum_val v\<bar> =
    le_val (butlast v) + 256 ^ (length v - 1) * (uint (last v) mod 128)"
proof -
  assume v: "v \<noteq> []"
  note u8_mod_128 [of "last v"]
  moreover have "128 * 256 ^ (length v - 1) \<le> le_val v" if "128 \<le> uint (last v)"
    using that le_val_butlast_last [OF v] by (simp add: add_increasing mult.commute)
  ultimately show ?thesis
    using v le_val_butlast_last [OF v] by (auto simp: snum_val_def algebra_simps)
qed

lemma snum_upper: "v \<noteq> [] \<Longrightarrow> \<bar>snum_val v\<bar> < 128 * 256 ^ (length v - 1)"
proof -
  assume v: "v \<noteq> []"
  have "256 ^ (length v - 1) * (uint (last v) mod 128) \<le> 256 ^ (length v - 1) * 127"
    by (intro mult_left_mono) auto
  moreover have "le_val (butlast v) < 256 ^ (length v - 1)"
    using le_val_less [of "butlast v"] by simp
  ultimately show ?thesis unfolding snum_abs [OF v] by linarith
qed

lemma snum_lower:
  assumes "checkMinimalDataEncoding v = Inr ()" "length v = Suc (Suc j)"
  shows "128 * 256 ^ j \<le> \<bar>snum_val v\<bar>"
proof -
  from assms(2) obtain us a b where v: "v = us @ [a, b]" "length us = j"
    by (metis (no_types, lifting) append_Cons append_Nil append_assoc length_Suc_conv_rev)
  then have abs: "\<bar>snum_val v\<bar> = le_val us + 256 ^ j * uint a + 256 ^ Suc j * (uint b mod 128)"
    using snum_abs [of v] by (simp add: butlast_append le_val_append)
  from assms(1) v have "(uint b \<noteq> 0 \<and> uint b \<noteq> 128) \<or> 128 \<le> uint a"
    by (auto simp: checkMinimal_iff nth_append)
  then show ?thesis
  proof
    assume "uint b \<noteq> 0 \<and> uint b \<noteq> 128"
    then have "1 \<le> uint b mod 128" using uint_u8_bounds(1) [of b]
      by (cases "uint b < 128"; simp only: u8_mod_128 if_True if_False) linarith+
    then have "256 ^ Suc j * 1 \<le> 256 ^ Suc j * (uint b mod 128)" by (intro mult_left_mono) auto
    moreover have "0 \<le> 256 ^ j * uint a" using uint_u8_bounds [of a] by simp
    moreover have "(0::int) \<le> 256 ^ j" by simp
    ultimately show ?thesis unfolding abs power_Suc using le_val_nonneg [of us] by linarith
  next
    assume "128 \<le> uint a"
    then have "256 ^ j * 128 \<le> 256 ^ j * uint a" by (intro mult_left_mono) auto
    moreover have "0 \<le> 256 ^ Suc j * (uint b mod 128)" by simp
    ultimately show ?thesis unfolding abs using le_val_nonneg [of us] by linarith
  qed
qed

lemma snum_nonzero:
  assumes "checkMinimalDataEncoding v = Inr ()" "v \<noteq> []"
  shows "snum_val v \<noteq> 0"
proof (cases "length v = 1")
  case True
  then obtain b where "v = [b]" by (auto simp: length_Suc_conv)
  with assms uint_u8_bounds [of b] show ?thesis
    by (auto simp: checkMinimal_iff snum_val_def)
next
  case False
  with assms(2) obtain j where "length v = Suc (Suc j)"
    by (cases v rule: remdups_adj.cases) auto
  from snum_lower [OF assms(1) this] have "(0::int) < \<bar>snum_val v\<bar>"
    by (rule less_le_trans [rotated]) simp
  then show ?thesis by simp
qed

lemma minimal_length_le:
  assumes mx: "checkMinimalDataEncoding x = Inr ()" and e: "snum_val x = snum_val y"
  shows "length x \<le> length y"
proof (rule ccontr)
  assume lt: "\<not> length x \<le> length y"
  then have "x \<noteq> []" by auto
  then have "y \<noteq> []" using snum_nonzero [OF mx] e by (auto simp: snum_val_def)
  then obtain i where i: "length y = Suc i" by (cases y) auto
  with lt have "2 + i \<le> length x" by simp
  then obtain j where j: "length x = Suc (Suc j)" "i \<le> j"
    by (metis Suc_le_D Suc_le_mono add_2_eq_Suc)
  have "\<bar>snum_val y\<bar> < 128 * 256 ^ i" using snum_upper [OF \<open>y \<noteq> []\<close>] i by simp
  also have "\<dots> \<le> 128 * 256 ^ j" using j(2) by simp
  also have "\<dots> \<le> \<bar>snum_val x\<bar>" by (rule snum_lower [OF mx j(1)])
  finally show False using e by simp
qed

lemma snum_sign: "v \<noteq> [] \<Longrightarrow> snum_val v \<noteq> 0 \<Longrightarrow> 0 < snum_val v \<longleftrightarrow> uint (last v) < 128"
proof -
  assume v: "v \<noteq> []" "snum_val v \<noteq> 0"
  have "128 * 256 ^ (length v - 1) \<le> le_val v" if "128 \<le> uint (last v)"
    using that le_val_butlast_last [OF v(1)] by (simp add: add_increasing mult.commute)
  with v le_val_nonneg [of v] show ?thesis by (auto simp: snum_val_def not_less less_le)
qed

lemma minimal_inject:
  assumes mv: "checkMinimalDataEncoding v = Inr ()" and mw: "checkMinimalDataEncoding w = Inr ()"
    and eq: "snum_val v = snum_val w"
  shows "v = w"
proof -
  have l: "length v = length w"
    using minimal_length_le [OF mv eq] minimal_length_le [OF mw eq [symmetric]] by simp
  show ?thesis
  proof (cases "v = []")
    case False
    then have w: "w \<noteq> []" using l by auto
    from snum_sign [OF False] snum_sign [OF w] snum_nonzero [OF mv False] eq
    have "uint (last v) < 128 \<longleftrightarrow> uint (last w) < 128" by simp
    with eq False w l have "le_val v = le_val w" by (auto simp: snum_val_def split: if_splits)
    then show ?thesis using le_val_inject l by blast
  qed (use l in auto)
qed

lemma Bytes_spec:
  assumes "- (2 ^ 63) < n" "n < 2 ^ 63"
  shows "\<exists>b. Bytes n = Inr b \<and> snum_val b = n \<and> checkMinimalDataEncoding b = Inr ()"
proof (cases "n = 0")
  case True
  then show ?thesis by (simp add: Bytes_def snum_val_def checkMinimalDataEncoding_def)
next
  case False
  define m where "m = \<bar>n\<bar>"
  have m: "(if n < 0 then to_int64 (- n) else n) = m" "0 < m" using assms False by (auto simp: m_def)
  obtain us b where r1: "le_loop m = us @ [b]"
    using le_loop_props [OF m(2)] by (meson rev_exhaust)
  have r: "le_loop m = us @ [b]" "le_val us + 256 ^ length us * uint b = m" "uint b \<noteq> 0"
    using le_loop_props [OF m(2)] unfolding r1 by (simp_all add: le_val_append)
  have ev: "Bytes n = Inr (if 128 \<le> uint b then us @ [b, if n < 0 then 0x80 else 0]
       else if n < 0 then us @ [b OR 0x80] else us @ [b])"
  proof -
    have "n < 0 \<Longrightarrow> le_loop (to_int64 (- n)) = us @ [b]" "\<not> n < 0 \<Longrightarrow> le_loop n = us @ [b]"
      using m(1) r(1) by simp_all
    with False show ?thesis
      by (cases "n < 0") (simp_all add: Bytes_def Let_def and_80_iff not_less)
  qed
  show ?thesis
  proof (cases "128 \<le> uint b")
    case True
    define e :: u8 where "e = (if n < 0 then 0x80 else 0)"
    from ev True have "Bytes n = Inr (us @ [b, e])" by (simp add: e_def)
    moreover have "snum_val (us @ [b, e]) = n"
      using r(2) by (auto simp: snum_val_def le_val_append e_def m_def distrib_left)
    moreover have "checkMinimalDataEncoding (us @ [b, e]) = Inr ()"
      using True unfolding checkMinimal_iff by (simp add: nth_append)
    ultimately show ?thesis by blast
  next
    case small: False
    then have o: "uint (b OR 0x80) = uint b + 128" by (simp add: uint_or_80)
    show ?thesis
    proof (cases "n < 0")
      case True
      with ev small have "Bytes n = Inr (us @ [b OR 0x80])" by simp
      moreover have "snum_val (us @ [b OR 0x80]) = - m"
        using o r(2) small uint_u8_bounds(1) [of b]
        by (simp add: snum_val_def le_val_append distrib_left)
      moreover have "checkMinimalDataEncoding (us @ [b OR 0x80]) = Inr ()"
      proof -
        have "uint (b OR 0x80) \<noteq> 0 \<and> uint (b OR 0x80) \<noteq> 128"
          unfolding o using r(3) uint_u8_bounds(1) [of b] by linarith
        then show ?thesis unfolding checkMinimal_iff by simp
      qed
      ultimately show ?thesis using True unfolding m_def by auto
    next
      case nonneg: False
      with ev small have "Bytes n = Inr (us @ [b])" by simp
      moreover have "snum_val (us @ [b]) = m"
        using r(2) small by (simp add: snum_val_def le_val_append)
      moreover have "checkMinimalDataEncoding (us @ [b]) = Inr ()"
        using small r(3) unfolding checkMinimal_iff by simp
      ultimately show ?thesis using nonneg unfolding m_def by auto
    qed
  qed
qed

lemma Bytes_length:
  assumes "1 \<le> k" "\<bar>n\<bar> < 2 ^ (8 * k - 1)" "Bytes n = Inr b" "snum_val b = n"
    and "checkMinimalDataEncoding b = Inr ()"
  shows "length b \<le> k"
proof (rule ccontr)
  assume "\<not> length b \<le> k"
  with assms(1) obtain j where j: "length b = Suc (Suc j)" "k - 1 \<le> j"
    by (cases "length b"; cases "length b - 1") auto
  from assms(1) have "(2::int) ^ (8 * k - 1) = 2 ^ (8 * (k - 1) + 7)"
    by (cases k) auto
  also have "\<dots> = 128 * 256 ^ (k - 1)" by (simp add: power_add power_mult)
  also have "\<dots> \<le> 128 * 256 ^ j" using j(2) by simp
  also have "\<dots> \<le> \<bar>n\<bar>" using snum_lower [OF assms(5) j(1)] assms(4) by simp
  finally show False using assms(2) by simp
qed

section \<open>The number codec as an interface\<close>

text \<open>
  What the stacks rely on when they store and read numbers: numbers that fit \<open>k\<close> bytes
  survive a round trip, a strictly decoded byte string is the only encoding of its number,
  and a decoded number fits the width asked for.
\<close>

locale number_codec =
  fixes encode :: "int \<Rightarrow> bytes sresult"
    and decode :: "bytes \<Rightarrow> bool \<Rightarrow> int \<Rightarrow> int sresult"
  assumes encode_decode:
      "1 \<le> k \<Longrightarrow> k \<le> 7 \<Longrightarrow> \<bar>n\<bar> < 2 ^ (8 * k - 1) \<Longrightarrow>
        \<exists>b. encode n = Inr b \<and> length b \<le> k \<and> decode b m (int k) = Inr n"
    and decode_encode:
      "k \<le> 7 \<Longrightarrow> decode v True (int k) = Inr n \<Longrightarrow> encode n = Inr v"
    and decode_range:
      "1 \<le> k \<Longrightarrow> k \<le> 7 \<Longrightarrow> decode v m (int k) = Inr n \<Longrightarrow> \<bar>n\<bar> < 2 ^ (8 * k - 1)"
begin

lemma strict_decode_inject:
  "k \<le> 7 \<Longrightarrow> decode v True (int k) = Inr n \<Longrightarrow> decode w True (int k) = Inr n \<Longrightarrow> v = w"
  using decode_encode by (metis sum.inject(2))

lemma encode_inject:
  assumes "1 \<le> k" "k \<le> 7" "\<bar>n\<bar> < 2 ^ (8 * k - 1)" "\<bar>n'\<bar> < 2 ^ (8 * k - 1)"
    and "encode n = encode n'"
  shows "n = n'"
  using encode_decode [OF assms(1,2,3)] encode_decode [OF assms(1,2,4)] assms(5)
  by (metis sum.inject(2))

lemma decoded_reencodes:
  assumes "1 \<le> k" "k \<le> 7" "decode v m (int k) = Inr n"
  shows "\<exists>b. encode n = Inr b \<and> length b \<le> k \<and> decode b True (int k) = Inr n"
  using encode_decode [OF assms(1,2)] decode_range [OF assms] by blast

end

lemma makeScriptNum_InrD:
  assumes "k \<le> 7" "makeScriptNum v m (int k) = Inr n"
  shows "n = snum_val v" "length v \<le> k" "m \<Longrightarrow> checkMinimalDataEncoding v = Inr ()"
proof -
  have l: "length v \<le> k"
    using assms by (auto simp: makeScriptNum_def split: if_splits)
  then show "n = snum_val v" "length v \<le> k" "m \<Longrightarrow> checkMinimalDataEncoding v = Inr ()"
    using assms by (auto simp: makeScriptNum_eq bindE_Inr_iff split: if_splits)
qed

lemma snum_range:
  assumes "length v \<le> k" "1 \<le> k" shows "\<bar>snum_val v\<bar> < 2 ^ (8 * k - 1)"
proof (cases "v = []")
  case False
  have "\<bar>snum_val v\<bar> < 128 * 256 ^ (length v - 1)" by (rule snum_upper [OF False])
  also have "\<dots> \<le> 128 * 256 ^ (k - 1)" using assms by simp
  also have "\<dots> = 2 ^ (8 * (k - 1) + 7)" by (simp add: power_add power_mult)
  also have "8 * (k - 1) + 7 = 8 * k - 1" using assms(2) by simp
  finally show ?thesis .
qed (simp add: snum_val_def)

lemma int64_fits: "k \<le> 7 \<Longrightarrow> \<bar>n\<bar> < 2 ^ (8 * k - 1) \<Longrightarrow> - (2 ^ 63) < n \<and> n < (2 ^ 63 :: int)"
proof -
  assume a: "k \<le> 7" "\<bar>n\<bar> < 2 ^ (8 * k - 1)"
  have "(2::int) ^ (8 * k - 1) \<le> 2 ^ 63" using a(1) by (intro power_increasing) auto
  with a(2) show ?thesis by linarith
qed

interpretation snum: number_codec Bytes makeScriptNum
proof
  fix k :: nat and n m
  assume k: "1 \<le> k" "k \<le> 7" and n: "\<bar>n\<bar> < (2::int) ^ (8 * k - 1)"
  obtain b where b: "Bytes n = Inr b" "snum_val b = n" "checkMinimalDataEncoding b = Inr ()"
    using Bytes_spec int64_fits [OF k(2) n] by blast
  with Bytes_length [OF k(1) n b] k
  show "\<exists>b. Bytes n = Inr b \<and> length b \<le> k \<and> makeScriptNum b m (int k) = Inr n"
    by (auto simp: makeScriptNum_eq)
next
  fix k :: nat and v n
  assume k: "k \<le> 7" and dec: "makeScriptNum v True (int k) = Inr n"
  note v = makeScriptNum_InrD [OF k dec]
  have "\<bar>n\<bar> < 2 ^ (8 * 7 - 1)"
    using snum_range [of v 7] v(1,2) k by simp
  then obtain b where "Bytes n = Inr b" "snum_val b = n" "checkMinimalDataEncoding b = Inr ()"
    using Bytes_spec int64_fits [of 7 n] by blast
  with v show "Bytes n = Inr v" using minimal_inject by blast
next
  fix k :: nat and v m n
  assume "1 \<le> k" "k \<le> 7" "makeScriptNum v m (int k) = Inr n"
  then show "\<bar>n\<bar> < 2 ^ (8 * k - 1)"
    using makeScriptNum_InrD(1,2) snum_range by blast
qed

section \<open>Properties\<close>

text \<open>
  C33. Every number that fits \<open>k\<close> bytes (\<open>k\<close> at most 7, the engine uses 4 and 5) is encoded by
  \<^verbatim>\<open>Bytes\<close> into at most \<open>k\<close> bytes, minimally, and \<^verbatim>\<open>makeScriptNum\<close> reads it back, with or
  without the minimal-encoding check.
\<close>

theorem scriptnum_roundtrip:
  assumes "1 \<le> k" "k \<le> 7" "\<bar>n\<bar> < 2 ^ (8 * k - 1)"
  shows "\<exists>b. Bytes n = Inr b \<and> length b \<le> k \<and> checkMinimalDataEncoding b = Inr () \<and>
    (\<forall>m. makeScriptNum b m (int k) = Inr n)"
proof -
  obtain b where b: "Bytes n = Inr b" "length b \<le> k" "makeScriptNum b True (int k) = Inr n"
    using snum.encode_decode [OF assms, of True] by blast
  with makeScriptNum_InrD(3) [OF assms(2) b(3)] snum.encode_decode [OF assms] show ?thesis
    by (metis sum.inject(2))
qed

theorem scriptnum_roundtrip_witness:
  "\<exists>b. Bytes (- 32768) = Inr b \<and> length b \<le> 4 \<and> checkMinimalDataEncoding b = Inr () \<and>
    (\<forall>m. makeScriptNum b m 4 = Inr (- 32768))"
  using scriptnum_roundtrip [of 4 "- 32768"] by simp

text \<open>
  Strict decoding admits one encoding per number: what \<^verbatim>\<open>makeScriptNum\<close> accepts with the
  minimal-encoding check on is exactly what \<^verbatim>\<open>Bytes\<close> produces for the number it returns. This
  is what makes numbers on the stack non-malleable.
\<close>

theorem scriptnum_canonical:
  assumes "k \<le> 7" "makeScriptNum v True (int k) = Inr n"
  shows "Bytes n = Inr v"
  by (rule snum.decode_encode [OF assms])

theorem scriptnum_canonical_witness: "Bytes (- 255) = Inr [0xff, 0x80]"
proof -
  have "makeScriptNum [0xff, 0x80] True (int 4) = Inr (- 255)" by code_simp
  then show ?thesis by (rule scriptnum_canonical [rotated]) simp
qed

text \<open>
  Among all \<^verbatim>\<open>int64\<close> values \<^verbatim>\<open>Bytes\<close> panics on the smallest one only: its negation is
  itself, the encoding loop does not run and the index of the last byte is out of range.
\<close>

theorem Bytes_panics_iff:
  assumes "- (2 ^ 63) \<le> n" "n < 2 ^ 63"
  shows "Bytes n = Inl Panic \<longleftrightarrow> n = - (2 ^ 63)"
proof
  assume "Bytes n = Inl Panic"
  with Bytes_spec [of n] assms show "n = - (2 ^ 63)" by (cases "n = - (2 ^ 63)") auto
next
  assume "n = - (2 ^ 63)"
  moreover have "to_int64 (2 ^ 63) = - (2 ^ 63)" by (simp add: to_int64_def)
  ultimately show "Bytes n = Inl Panic" by (simp add: Bytes_def le_loop.simps)
qed

theorem Bytes_panics_iff_witness: "Bytes (- (2 ^ 63)) = Inl Panic \<and> Bytes (2 ^ 63 - 1) \<noteq> Inl Panic"
  using Bytes_panics_iff [of "- (2 ^ 63)"] Bytes_panics_iff [of "2 ^ 63 - 1"] by simp

end
