(* ===== verification/ScriptStack.thy ===== *)
theory ScriptStack
  imports ScriptNum
begin

text \<open>
  The script stacks (\<^verbatim>\<open>txscript/stack.go\<close>, and \<^verbatim>\<open>getStack\<close>/\<^verbatim>\<open>setStack\<close> of
  \<^verbatim>\<open>txscript/engine.go\<close>). The slice \<^verbatim>\<open>stk\<close> is a list with the top of the stack last, as in the
  code. Every operation is a function from the stack to an error or the new stack. The
  lemmas prove the stack transformations that the source documents in its comments, for
  every count, and the operations' errors.
\<close>

section \<open>Definitions\<close>

fun asBool :: "bytes \<Rightarrow> bool" where
  "asBool [] = False"
| "asBool (b # t) = (if b \<noteq> 0 then \<not> (t = [] \<and> b = 0x80) else asBool t)"

definition fromBool :: "bool \<Rightarrow> bytes" where
  "fromBool v = (if v then [1] else [])"

record stack =
  stk :: "bytes list"
  verifyMinimalData :: bool

definition Depth :: "stack \<Rightarrow> int" where
  "Depth s = to_int32 (int (length (stk s)))"

definition PushByteArray :: "stack \<Rightarrow> bytes \<Rightarrow> stack" where
  "PushByteArray s so = s\<lparr>stk := stk s @ [so]\<rparr>"

definition PushInt :: "stack \<Rightarrow> int \<Rightarrow> stack sresult" where
  "PushInt s val = bindE (Bytes val) (\<lambda>b. Inr (PushByteArray s b))"

definition PushBool :: "stack \<Rightarrow> bool \<Rightarrow> stack" where
  "PushBool s val = PushByteArray s (fromBool val)"

definition nipN :: "stack \<Rightarrow> int \<Rightarrow> (bytes \<times> stack) sresult" where
  "nipN s idx =
     (let sz = to_int32 (int (length (stk s)))
      in if idx < 0 \<or> idx > sz - 1 then scriptError ErrInvalidStackOperation
         else
           let so = stk s ! nat (sz - idx - 1)
           in if idx = 0 then Inr (so, s\<lparr>stk := take (nat (sz - 1)) (stk s)\<rparr>)
              else if idx = sz - 1 then
                Inr (so, s\<lparr>stk := take (nat (sz - 1)) (drop 1 (stk s))\<rparr>)
              else
                let s1 = take (nat idx) (drop (nat (sz - idx)) (stk s))
                in Inr (so, s\<lparr>stk := take (nat (sz - idx - 1)) (stk s) @ s1\<rparr>))"

definition PopByteArray :: "stack \<Rightarrow> (bytes \<times> stack) sresult" where
  "PopByteArray s = nipN s 0"

definition PopInt :: "stack \<Rightarrow> (int \<times> stack) sresult" where
  "PopInt s = bindE (PopByteArray s) (\<lambda>(so, s').
     bindE (makeScriptNum so (verifyMinimalData s') defaultScriptNumLen) (\<lambda>n. Inr (n, s')))"

definition PopBool :: "stack \<Rightarrow> (bool \<times> stack) sresult" where
  "PopBool s = bindE (PopByteArray s) (\<lambda>(so, s'). Inr (asBool so, s'))"

definition PeekByteArray :: "stack \<Rightarrow> int \<Rightarrow> bytes sresult" where
  "PeekByteArray s idx =
     (let sz = to_int32 (int (length (stk s)))
      in if idx < 0 \<or> idx \<ge> sz then scriptError ErrInvalidStackOperation
         else Inr (stk s ! nat (sz - idx - 1)))"

definition PeekInt :: "stack \<Rightarrow> int \<Rightarrow> int sresult" where
  "PeekInt s idx = bindE (PeekByteArray s idx) (\<lambda>so.
     makeScriptNum so (verifyMinimalData s) defaultScriptNumLen)"

definition PeekBool :: "stack \<Rightarrow> int \<Rightarrow> bool sresult" where
  "PeekBool s idx = bindE (PeekByteArray s idx) (\<lambda>so. Inr (asBool so))"

definition NipN :: "stack \<Rightarrow> int \<Rightarrow> stack sresult" where
  "NipN s idx = bindE (nipN s idx) (\<lambda>(_, s'). Inr s')"

definition Tuck :: "stack \<Rightarrow> stack sresult" where
  "Tuck s = bindE (PopByteArray s) (\<lambda>(so2, s).
     bindE (PopByteArray s) (\<lambda>(so1, s).
       Inr (PushByteArray (PushByteArray (PushByteArray s so2) so1) so2)))"

definition DropN :: "stack \<Rightarrow> int \<Rightarrow> stack sresult" where
  "DropN s n =
     (if n < 1 then scriptError ErrInvalidStackOperation
      else timesE (nat n) (\<lambda>s. bindE (PopByteArray s) (\<lambda>(_, s'). Inr s')) s)"

text \<open>The loop bodies \<open>so := Peek(entry); Push(so)\<close> and \<open>so := nipN(entry); Push(so)\<close>.\<close>

definition peekPush :: "int \<Rightarrow> stack \<Rightarrow> stack sresult" where
  "peekPush entry s = bindE (PeekByteArray s entry) (\<lambda>so. Inr (PushByteArray s so))"

definition nipPush :: "int \<Rightarrow> stack \<Rightarrow> stack sresult" where
  "nipPush entry s = bindE (nipN s entry) (\<lambda>(so, s'). Inr (PushByteArray s' so))"

definition DupN :: "stack \<Rightarrow> int \<Rightarrow> stack sresult" where
  "DupN s n =
     (if n < 1 then scriptError ErrInvalidStackOperation
      else timesE (nat n) (peekPush (n - 1)) s)"

definition RotN :: "stack \<Rightarrow> int \<Rightarrow> stack sresult" where
  "RotN s n =
     (if n < 1 then scriptError ErrInvalidStackOperation
      else timesE (nat n) (nipPush (to_int32 (3 * n - 1))) s)"

definition SwapN :: "stack \<Rightarrow> int \<Rightarrow> stack sresult" where
  "SwapN s n =
     (if n < 1 then scriptError ErrInvalidStackOperation
      else timesE (nat n) (nipPush (to_int32 (2 * n - 1))) s)"

definition OverN :: "stack \<Rightarrow> int \<Rightarrow> stack sresult" where
  "OverN s n =
     (if n < 1 then scriptError ErrInvalidStackOperation
      else timesE (nat n) (peekPush (to_int32 (2 * n - 1))) s)"

definition PickN :: "stack \<Rightarrow> int \<Rightarrow> stack sresult" where
  "PickN s n = bindE (PeekByteArray s n) (\<lambda>so. Inr (PushByteArray s so))"

definition RollN :: "stack \<Rightarrow> int \<Rightarrow> stack sresult" where
  "RollN s n = bindE (nipN s n) (\<lambda>(so, s'). Inr (PushByteArray s' so))"

text \<open>
  \<^verbatim>\<open>getStack\<close> copies the stack into a fresh slice; \<^verbatim>\<open>setStack\<close> drops everything and pushes the
  elements of the argument. The ignored error of its \<^verbatim>\<open>DropN\<close> leaves the stack unchanged: it
  occurs on the empty stack only.
\<close>

definition getStack :: "stack \<Rightarrow> bytes list" where
  "getStack s =
     (let n = nat (Depth s)
      in map (\<lambda>j. case PeekByteArray s (int (n - j - 1)) of Inl _ \<Rightarrow> [] | Inr so \<Rightarrow> so) [0..<n])"

definition setStack :: "stack \<Rightarrow> bytes list \<Rightarrow> stack" where
  "setStack s data =
     foldl PushByteArray (case DropN s (Depth s) of Inl _ \<Rightarrow> s | Inr s' \<Rightarrow> s') data"

section \<open>Access from the top of the stack\<close>

text \<open>Every stack the engine builds is far below this bound, at which \<^verbatim>\<open>int32(len)\<close> wraps.\<close>

definition stack_fits :: "stack \<Rightarrow> bool" where
  "stack_fits s \<longleftrightarrow> length (stk s) < 2 ^ 31"

lemma Depth_eq [simp]: "stack_fits s \<Longrightarrow> Depth s = int (length (stk s))"
  by (simp add: Depth_def stack_fits_def)

lemma sz_eq: "stack_fits s \<Longrightarrow> to_int32 (int (length (stk s))) = int (length (stk s))"
  by (simp add: stack_fits_def)

lemma nipN_split:
  assumes "stack_fits s" "stk s = xs @ x # ys"
  shows "nipN s (int (length ys)) = Inr (x, s\<lparr>stk := xs @ ys\<rparr>)"
proof -
  define n where "n = int (length (stk s))"
  have n: "n = int (length xs) + int (length ys) + 1" using assms(2) by (simp add: n_def)
  have top: "nat (n - int (length ys) - 1) = length xs" "nat (n - int (length ys)) = Suc (length xs)"
    "nat (n - 1) = length xs + length ys" using n by auto
  have get: "stk s ! nat (n - int (length ys) - 1) = x" using assms(2) top(1) by simp
  have sz: "to_int32 (int (length (stk s))) = n" using sz_eq [OF assms(1)] by (simp add: n_def)
  consider "ys = []" | "ys \<noteq> []" "xs = []" | "ys \<noteq> []" "xs \<noteq> []" by blast
  then show ?thesis
  proof cases
    case 1
    with get top assms(2) n show ?thesis
      unfolding nipN_def sz Let_def by simp
  next
    case 2
    with get top assms(2) n show ?thesis
      unfolding nipN_def sz Let_def by simp
  next
    case 3
    then have "int (length ys) \<noteq> 0" "int (length ys) \<noteq> n - 1" "\<not> int (length ys) > n - 1"
      using n by auto
    with get top assms(2) show ?thesis
      unfolding nipN_def sz Let_def by simp
  qed
qed

lemma nipN_error:
  assumes "stack_fits s" "i < 0 \<or> int (length (stk s)) \<le> i"
  shows "nipN s i = scriptError ErrInvalidStackOperation"
  using assms(2) unfolding nipN_def sz_eq [OF assms(1)] by (auto simp: Let_def)

lemma split_at_depth:
  assumes "0 \<le> i" "i < int (length l)"
  obtains xs x ys where "l = xs @ x # ys" "i = int (length ys)"
proof
  define k where "k = length l - nat i - 1"
  show "l = take k l @ l ! k # drop (Suc k) l"
    using assms by (intro id_take_nth_drop) (auto simp: k_def)
  show "i = int (length (drop (Suc k) l))" using assms by (auto simp: k_def)
qed

lemma nipN_cases:
  assumes "stack_fits s"
  obtains (err) "nipN s i = scriptError ErrInvalidStackOperation" "i < 0 \<or> int (length (stk s)) \<le> i"
  | (ok) xs x ys where "stk s = xs @ x # ys" "i = int (length ys)"
      "nipN s i = Inr (x, s\<lparr>stk := xs @ ys\<rparr>)"
  by (metis assms linorder_not_le nipN_error nipN_split split_at_depth)

lemma Peek_split:
  "stack_fits s \<Longrightarrow> stk s = xs @ x # ys \<Longrightarrow> PeekByteArray s (int (length ys)) = Inr x"
  unfolding PeekByteArray_def using sz_eq [of s] by (simp add: nat_add_distrib)

lemma Peek_error:
  assumes "stack_fits s" "i < 0 \<or> int (length (stk s)) \<le> i"
  shows "PeekByteArray s i = scriptError ErrInvalidStackOperation"
  using assms(2) unfolding PeekByteArray_def sz_eq [OF assms(1)] by (auto simp: Let_def)

lemma Peek_cases:
  assumes "stack_fits s"
  obtains (err) "PeekByteArray s i = scriptError ErrInvalidStackOperation"
      "i < 0 \<or> int (length (stk s)) \<le> i"
  | (ok) xs x ys where "stk s = xs @ x # ys" "i = int (length ys)" "PeekByteArray s i = Inr x"
  by (metis assms linorder_not_le Peek_error Peek_split split_at_depth)

lemma Pop_snoc [simp]: "stack_fits s \<Longrightarrow> stk s = xs @ [x] \<Longrightarrow>
    PopByteArray s = Inr (x, s\<lparr>stk := xs\<rparr>)"
  using nipN_split [of s xs x "[]"] by (simp add: PopByteArray_def)

lemma Pop_Nil [simp]: "stk s = [] \<Longrightarrow> PopByteArray s = scriptError ErrInvalidStackOperation"
  using nipN_error [of s 0] by (simp add: PopByteArray_def stack_fits_def)

lemma stack_fits_update [simp]:
  "stack_fits (s\<lparr>stk := l\<rparr>) \<longleftrightarrow> length l < 2 ^ 31"
  by (simp add: stack_fits_def)

lemma Push_simps [simp]:
  "stk (PushByteArray s b) = stk s @ [b]"
  "verifyMinimalData (PushByteArray s b) = verifyMinimalData s"
  by (simp_all add: PushByteArray_def)

section \<open>The documented stack transformations\<close>

lemma nipPush_loop:
  assumes "stk s = base @ a @ m" "stack_fits s" "entry = int (length (a @ m)) - 1"
  shows "timesE (length a) (nipPush entry) s = Inr (s\<lparr>stk := base @ m @ a\<rparr>)"
  using assms
proof (induction a arbitrary: m s)
  case (Cons x a)
  have "entry = int (length (a @ m))" using Cons.prems(3) by simp
  then have "nipN s entry = Inr (x, s\<lparr>stk := base @ a @ m\<rparr>)"
    using nipN_split [of s base x "a @ m"] Cons.prems by simp
  then have step: "nipPush entry s = Inr (s\<lparr>stk := base @ a @ (m @ [x])\<rparr>)"
    by (simp add: nipPush_def PushByteArray_def)
  show ?case
    using Cons.IH [of "s\<lparr>stk := base @ a @ (m @ [x])\<rparr>" "m @ [x]"] Cons.prems step
    by (simp add: stack_fits_def)
qed simp

lemma peekPush_loop:
  assumes "stk s = base @ a @ m" "length base + 2 * length a + length m < 2 ^ 31"
    "entry = int (length (a @ m)) - 1"
  shows "timesE (length a) (peekPush entry) s = Inr (s\<lparr>stk := base @ a @ m @ a\<rparr>)"
  using assms
proof (induction a arbitrary: base m s)
  case (Cons x a)
  have f: "stack_fits s" using Cons.prems by (simp add: stack_fits_def)
  have "entry = int (length (a @ m))" using Cons.prems(3) by simp
  then have "PeekByteArray s entry = Inr x"
    using Peek_split [OF f, of base x "a @ m"] Cons.prems by simp
  then have step: "peekPush entry s = Inr (s\<lparr>stk := (base @ [x]) @ a @ (m @ [x])\<rparr>)"
    using Cons.prems by (simp add: peekPush_def PushByteArray_def)
  show ?case
    using Cons.IH [of "s\<lparr>stk := (base @ [x]) @ a @ (m @ [x])\<rparr>" "base @ [x]" "m @ [x]"]
      Cons.prems step by simp
qed simp

lemma Pop_eq:
  "stack_fits s \<Longrightarrow> PopByteArray s =
     (if stk s = [] then scriptError ErrInvalidStackOperation
      else Inr (last (stk s), s\<lparr>stk := butlast (stk s)\<rparr>))"
  by (cases "stk s" rule: rev_cases) auto

lemma DropN_append:
  assumes "stack_fits s" "stk s = base @ a" "a \<noteq> []"
  shows "DropN s (int (length a)) = Inr (s\<lparr>stk := base\<rparr>)"
proof -
  let ?f = "\<lambda>s. bindE (PopByteArray s) (\<lambda>(_, s'). Inr s')"
  have "timesE (length a) ?f s = Inr (s\<lparr>stk := base\<rparr>)"
    using assms(1,2)
  proof (induction a arbitrary: s rule: rev_induct)
    case (snoc x a)
    have "?f s = Inr (s\<lparr>stk := base @ a\<rparr>)"
      using Pop_snoc [of s "base @ a" x] snoc.prems by simp
    moreover have "timesE (length a) ?f (s\<lparr>stk := base @ a\<rparr>) = Inr (s\<lparr>stk := base\<rparr>)"
      using snoc.IH [of "s\<lparr>stk := base @ a\<rparr>"] snoc.prems by (simp add: stack_fits_def)
    ultimately show ?case by simp
  qed simp
  with assms(3) show ?thesis by (simp add: DropN_def Suc_le_eq)
qed

lemma DropN_all: "stack_fits s \<Longrightarrow>
    (case DropN s (Depth s) of Inl _ \<Rightarrow> s | Inr s' \<Rightarrow> s') = s\<lparr>stk := []\<rparr>"
  using DropN_append [of s "[]" "stk s"] by (cases "stk s = []") (simp_all add: DropN_def)

lemma foldl_Push: "foldl PushByteArray s data = s\<lparr>stk := stk s @ data\<rparr>"
  by (induction data arbitrary: s) (simp_all add: PushByteArray_def)

lemma setStack_eq: "stack_fits s \<Longrightarrow> setStack s data = s\<lparr>stk := data\<rparr>"
  unfolding setStack_def by (simp only: DropN_all) (simp add: foldl_Push)

lemma getStack_eq:
  assumes "stack_fits s" shows "getStack s = stk s"
proof (rule nth_equalityI)
  show "length (getStack s) = length (stk s)" using assms by (simp add: getStack_def Let_def)
next
  fix j
  assume "j < length (getStack s)"
  then have j: "j < length (stk s)" using assms by (simp add: getStack_def Let_def)
  then have "PeekByteArray s (int (length (drop (Suc j) (stk s)))) = Inr (stk s ! j)"
    using Peek_split [OF assms] id_take_nth_drop [OF j] by blast
  moreover have "length (drop (Suc j) (stk s)) = length (stk s) - j - 1" by simp
  ultimately show "getStack s ! j = stk s ! j" using assms j by (simp add: getStack_def Let_def)
qed

section \<open>Booleans and numbers on the stack\<close>

lemma asBool_fromBool [simp]: "asBool (fromBool b) = b"
  by (simp add: fromBool_def)

lemma asBool_iff: "asBool v \<longleftrightarrow> (\<exists>b \<in> set v. b \<noteq> 0) \<and> \<not> (last v = 0x80 \<and> (\<forall>b \<in> set (butlast v). b = 0))"
  by (induction v rule: asBool.induct) auto

lemma le_val_0_iff: "le_val v = 0 \<longleftrightarrow> (\<forall>b \<in> set v. b = 0)"
proof (induction v)
  case (Cons b v)
  then show ?case
    using uint_u8_bounds(1) [of b] le_val_nonneg [of v] by (simp add: add_nonneg_eq_0_iff uint_0_iff)
qed simp

lemma asBool_snum: "asBool v \<longleftrightarrow> snum_val v \<noteq> 0"
proof (cases v rule: rev_cases)
  case (snoc us b)
  have "snum_val v = 0 \<longleftrightarrow> le_val us = 0 \<and> (uint b = 0 \<or> uint b = 128)"
  proof -
    have "snum_val v = 0 \<longleftrightarrow> \<bar>snum_val v\<bar> = 0" by simp
    also have "\<dots> \<longleftrightarrow> le_val us = 0 \<and> 256 ^ length us * (uint b mod 128) = 0"
      using snum_abs [of v] snoc by (simp add: add_nonneg_eq_0_iff)
    also have "\<dots> \<longleftrightarrow> le_val us = 0 \<and> (uint b = 0 \<or> uint b = 128)"
      by (auto simp: u8_mod_128)
    finally show ?thesis .
  qed
  moreover have "uint b = 0 \<longleftrightarrow> b = 0" "uint b = 128 \<longleftrightarrow> b = 0x80"
    by (simp_all add: word_uint_eq_iff)
  ultimately show ?thesis unfolding asBool_iff using snoc by (auto simp: le_val_0_iff)
qed (simp add: snum_val_def)

lemma timesE_Pop_underflow:
  assumes "stack_fits s" "length (stk s) < k"
  shows "timesE k (\<lambda>s. bindE (PopByteArray s) (\<lambda>(_, s'). Inr s')) s =
    scriptError ErrInvalidStackOperation"
  using assms
proof (induction k arbitrary: s)
  case (Suc k)
  show ?case
  proof (cases "stk s = []")
    case False
    then have "length (butlast (stk s)) < k" using Suc.prems by (cases "stk s" rule: rev_cases) auto
    with Suc False show ?thesis by (simp add: Pop_eq stack_fits_def)
  qed simp
qed simp

lemma nipPush_loop_underflow:
  assumes "stack_fits s" "int (length (stk s)) \<le> entry" "0 < k"
  shows "timesE k (nipPush entry) s = scriptError ErrInvalidStackOperation"
  using assms nipN_error by (cases k) (simp_all add: nipPush_def)

lemma peekPush_underflow:
  assumes "stack_fits s" "int (length (stk s)) \<le> entry" "0 < k"
  shows "timesE k (peekPush entry) s = scriptError ErrInvalidStackOperation"
  using assms Peek_error by (cases k) (simp_all add: peekPush_def)

lemma PushInt_wide:
  assumes "2 ^ 31 \<le> \<bar>n\<bar>" "\<bar>n\<bar> < 2 ^ 55"
  shows "\<exists>b. Bytes n = Inr b \<and> 4 < length b"
proof -
  from assms(2) snum.encode_decode [of 7 n False] obtain b where
    b: "Bytes n = Inr b" "length b \<le> 7" "makeScriptNum b False (int 7) = Inr n"
    by auto
  have "n = snum_val b" using makeScriptNum_InrD(1) [OF _ b(3)] by simp
  then have "\<not> length b \<le> 4" using snum_range [of b 4] assms(1) by auto
  with b(1) show ?thesis by auto
qed

section \<open>The last-in-first-out interface\<close>

text \<open>
  What the opcode handlers rely on: a push appends an item, a pop returns the last item, and
  popping from an empty stack is an error and never a panic.
\<close>

locale lifo =
  fixes push :: "'s \<Rightarrow> 'a \<Rightarrow> 's" and pop :: "'s \<Rightarrow> ('a \<times> 's) sresult"
    and items :: "'s \<Rightarrow> 'a list" and fits :: "'s \<Rightarrow> bool"
  assumes items_push: "items (push s x) = items s @ [x]"
    and pop_last: "fits s \<Longrightarrow> items s = xs @ [x] \<Longrightarrow>
      \<exists>s'. pop s = Inr (x, s') \<and> items s' = xs \<and> fits s'"
    and pop_empty: "items s = [] \<Longrightarrow> pop s = scriptError ErrInvalidStackOperation"
begin

lemma pop_push: "fits (push s x) \<Longrightarrow> \<exists>s'. pop (push s x) = Inr (x, s') \<and> items s' = items s"
  using pop_last [of "push s x" "items s" x] by (auto simp: items_push)

lemma okE_pop:
  assumes "fits s"
  shows "okE (pop s) (\<lambda>(x, s'). fits s' \<and> items s = items s' @ [x])"
proof (cases "items s" rule: rev_cases)
  case Nil
  then show ?thesis by (simp add: pop_empty)
next
  case (snoc xs x)
  with pop_last [OF assms snoc] show ?thesis by auto
qed

lemma okE_pop2:
  assumes "fits s"
  shows "okE (bindE (pop s) (\<lambda>(x, s'). bindE (pop s') (\<lambda>(y, s''). Inr (x, y, s''))))
    (\<lambda>(x, y, s''). fits s'' \<and> items s = items s'' @ [y, x])"
proof -
  have "okE (pop s') (\<lambda>(y, s''). fits s'' \<and> items s = items s'' @ [y, x])"
    if "fits s' \<and> items s = items s' @ [x]" for x s'
    by (rule okE_weaken [OF okE_pop [of s']]) (use that in auto)
  then show ?thesis
    by (auto intro!: okE_weaken [OF okE_pop [OF assms]] elim!: okE_weaken)
qed

end

interpretation byte_stack: lifo PushByteArray PopByteArray stk stack_fits
  by unfold_locales (auto simp: stack_fits_def)

section \<open>Properties\<close>

text \<open>
  C36. With the top of the stack in three blocks of \<open>n\<close> items, the operations perform the
  transformations their comments document: \<^verbatim>\<open>RotN\<close> moves the lowest block to the top, \<^verbatim>\<open>SwapN\<close>
  exchanges the two top blocks, \<^verbatim>\<open>OverN\<close> copies the second block to the top, \<^verbatim>\<open>DupN\<close>
  duplicates the top block and \<^verbatim>\<open>DropN\<close> removes it.
\<close>

theorem stack_transformations:
  assumes "stk s = base @ a @ b @ c" "length a = n" "length b = n" "length c = n" "1 \<le> n"
    and "length (stk s) + n < 2 ^ 31"
  shows "RotN s (int n) = Inr (s\<lparr>stk := base @ b @ c @ a\<rparr>) \<and>
    SwapN s (int n) = Inr (s\<lparr>stk := base @ a @ c @ b\<rparr>) \<and>
    OverN s (int n) = Inr (s\<lparr>stk := base @ a @ b @ c @ b\<rparr>) \<and>
    DupN s (int n) = Inr (s\<lparr>stk := base @ a @ b @ c @ c\<rparr>) \<and>
    DropN s (int n) = Inr (s\<lparr>stk := base @ a @ b\<rparr>)"
proof -
  have f: "stack_fits s" using assms by (simp add: stack_fits_def)
  have e: "to_int32 (3 * int n - 1) = 3 * int n - 1" "to_int32 (2 * int n - 1) = 2 * int n - 1"
    using assms by simp_all
  have "RotN s (int n) = Inr (s\<lparr>stk := base @ b @ c @ a\<rparr>)"
    using nipPush_loop [of s base a "b @ c" "3 * int n - 1"] assms f e by (simp add: RotN_def)
  moreover have "SwapN s (int n) = Inr (s\<lparr>stk := base @ a @ c @ b\<rparr>)"
    using nipPush_loop [of s "base @ a" b c "2 * int n - 1"] assms f e by (simp add: SwapN_def)
  moreover have "OverN s (int n) = Inr (s\<lparr>stk := base @ a @ b @ c @ b\<rparr>)"
    using peekPush_loop [of s "base @ a" b c "2 * int n - 1"] assms e by (simp add: OverN_def)
  moreover have "DupN s (int n) = Inr (s\<lparr>stk := base @ a @ b @ c @ c\<rparr>)"
    using peekPush_loop [of s "base @ a @ b" c "[]" "int n - 1"] assms by (simp add: DupN_def)
  moreover have "DropN s (int n) = Inr (s\<lparr>stk := base @ a @ b\<rparr>)"
    using DropN_append [OF f, of "base @ a @ b" c] assms(1,4,5) by (cases "c = []") simp_all
  ultimately show ?thesis by blast
qed

theorem stack_transformations_witness:
  "RotN \<lparr>stk = [[9], [1], [2], [3]], verifyMinimalData = True\<rparr> 1 =
     Inr \<lparr>stk = [[9], [2], [3], [1]], verifyMinimalData = True\<rparr>"
  using stack_transformations [of "\<lparr>stk = [[9], [1], [2], [3]], verifyMinimalData = True\<rparr>"
      "[[9]]" "[[1]]" "[[2]]" "[[3]]" 1] by simp

text \<open>
  When the count is not positive or the stack is too short the operations fail,
  always with \<^verbatim>\<open>ErrInvalidStackOperation\<close> and never with a panic.
\<close>

theorem stack_underflow:
  assumes "length (stk s) < 2 ^ 30" "n < 2 ^ 29"
  shows "(n < 1 \<or> int (length (stk s)) < 3 * n \<longrightarrow> RotN s n = scriptError ErrInvalidStackOperation) \<and>
    (n < 1 \<or> int (length (stk s)) < 2 * n \<longrightarrow> SwapN s n = scriptError ErrInvalidStackOperation) \<and>
    (n < 1 \<or> int (length (stk s)) < 2 * n \<longrightarrow> OverN s n = scriptError ErrInvalidStackOperation) \<and>
    (n < 1 \<or> int (length (stk s)) < n \<longrightarrow> DupN s n = scriptError ErrInvalidStackOperation) \<and>
    (n < 1 \<or> int (length (stk s)) < n \<longrightarrow> DropN s n = scriptError ErrInvalidStackOperation)"
proof -
  have f: "stack_fits s" using assms by (simp add: stack_fits_def)
  have e: "to_int32 (3 * n - 1) = 3 * n - 1" "to_int32 (2 * n - 1) = 2 * n - 1" if "1 \<le> n"
    using assms that by simp_all
  show ?thesis
    using nipPush_loop_underflow [OF f] peekPush_underflow [OF f] timesE_Pop_underflow [OF f] e
    by (auto simp: RotN_def SwapN_def OverN_def DupN_def DropN_def)
qed

theorem stack_underflow_witness:
  "RotN \<lparr>stk = [[1], [2]], verifyMinimalData = True\<rparr> 1 = scriptError ErrInvalidStackOperation"
  using stack_underflow [of "\<lparr>stk = [[1], [2]], verifyMinimalData = True\<rparr>" 1] by simp

text \<open>
  Numbers on the stack: a number of at most 31 bits of magnitude is popped as it was
  pushed; a larger one (the result of an overflowing addition, say) can be pushed but is
  refused with \<^verbatim>\<open>ErrNumberTooBig\<close> when it is popped as a number, while it still reads as true.
\<close>

theorem PushInt_then_Pop:
  assumes "length (stk s) < 2 ^ 30" "\<bar>n\<bar> < 2 ^ 55"
  shows "\<exists>s'. PushInt s n = Inr s' \<and> PopBool s' = Inr (n \<noteq> 0, s) \<and>
    PopInt s' = (if \<bar>n\<bar> < 2 ^ 31 then Inr (n, s) else scriptError ErrNumberTooBig)"
proof -
  from assms(2) snum.encode_decode [of 7 n False] obtain b where
    b: "Bytes n = Inr b" "length b \<le> 7" "makeScriptNum b False (int 7) = Inr n" by auto
  have n: "n = snum_val b" using makeScriptNum_InrD(1) [OF _ b(3)] by simp
  have pop: "PopByteArray (PushByteArray s b) = Inr (b, s)"
    using assms(1) by (subst Pop_snoc [of _ "stk s"]) (auto simp: stack_fits_def PushByteArray_def)
  have "makeScriptNum b m defaultScriptNumLen =
      (if \<bar>n\<bar> < 2 ^ 31 then Inr n else scriptError ErrNumberTooBig)" for m
  proof (cases "\<bar>n\<bar> < 2 ^ 31")
    case True
    with snum.encode_decode [of 4 n m] b(1) show ?thesis by (auto simp: defaultScriptNumLen_def)
  next
    case False
    with PushInt_wide [of n] assms(2) b(1) show ?thesis
      by (auto simp: makeScriptNum_def defaultScriptNumLen_def)
  qed
  moreover have "asBool b = (n \<noteq> 0)" using asBool_snum n by simp
  ultimately show ?thesis
    by (intro exI [of _ "PushByteArray s b"]) (simp add: PushInt_def b(1) pop PopInt_def PopBool_def)
qed

theorem PushInt_then_Pop_witness:
  "\<exists>s'. PushInt \<lparr>stk = [], verifyMinimalData = True\<rparr> 4294967294 = Inr s' \<and>
     PopBool s' = Inr (True, \<lparr>stk = [], verifyMinimalData = True\<rparr>) \<and>
     PopInt s' = scriptError ErrNumberTooBig"
  using PushInt_then_Pop [of "\<lparr>stk = [], verifyMinimalData = True\<rparr>" 4294967294] by simp

end
