(* ===== verification/ScriptParse.thy ===== *)
theory ScriptParse
  imports ScriptStack
begin

text \<open>
  Opcodes and parsed scripts: the opcode values and the length column of \<^verbatim>\<open>opcodeArray\<close>
  (\<^verbatim>\<open>txscript/opcode.go\<close>), \<^verbatim>\<open>parseScript\<close>, \<^verbatim>\<open>unparseScript\<close> and the predicates on parsed
  scripts (\<^verbatim>\<open>txscript/script.go\<close>, \<^verbatim>\<open>txscript/lock_script.go\<close>), and the script builder
  (\<^verbatim>\<open>txscript/scriptbuilder.go\<close>). The parser works on the part of the script from the current
  index on. The lemmas show that parsing and unparsing are inverse to each other and what
  the script that the builder makes for a data push does when it is parsed.
\<close>

section \<open>Opcode values\<close>

abbreviation (input) OP_0 :: u8 where "OP_0 \<equiv> 0x00"
abbreviation (input) OP_FALSE :: u8 where "OP_FALSE \<equiv> 0x00"
abbreviation (input) OP_DATA_1 :: u8 where "OP_DATA_1 \<equiv> 0x01"
abbreviation (input) OP_DATA_4 :: u8 where "OP_DATA_4 \<equiv> 0x04"
abbreviation (input) OP_DATA_20 :: u8 where "OP_DATA_20 \<equiv> 0x14"
abbreviation (input) OP_DATA_32 :: u8 where "OP_DATA_32 \<equiv> 0x20"
abbreviation (input) OP_DATA_75 :: u8 where "OP_DATA_75 \<equiv> 0x4b"
abbreviation (input) OP_PUSHDATA1 :: u8 where "OP_PUSHDATA1 \<equiv> 0x4c"
abbreviation (input) OP_PUSHDATA2 :: u8 where "OP_PUSHDATA2 \<equiv> 0x4d"
abbreviation (input) OP_PUSHDATA4 :: u8 where "OP_PUSHDATA4 \<equiv> 0x4e"
abbreviation (input) OP_1NEGATE :: u8 where "OP_1NEGATE \<equiv> 0x4f"
abbreviation (input) OP_RESERVED :: u8 where "OP_RESERVED \<equiv> 0x50"
abbreviation (input) OP_1 :: u8 where "OP_1 \<equiv> 0x51"
abbreviation (input) OP_TRUE :: u8 where "OP_TRUE \<equiv> 0x51"
abbreviation (input) OP_2 :: u8 where "OP_2 \<equiv> 0x52"
abbreviation (input) OP_3 :: u8 where "OP_3 \<equiv> 0x53"
abbreviation (input) OP_4 :: u8 where "OP_4 \<equiv> 0x54"
abbreviation (input) OP_5 :: u8 where "OP_5 \<equiv> 0x55"
abbreviation (input) OP_6 :: u8 where "OP_6 \<equiv> 0x56"
abbreviation (input) OP_7 :: u8 where "OP_7 \<equiv> 0x57"
abbreviation (input) OP_8 :: u8 where "OP_8 \<equiv> 0x58"
abbreviation (input) OP_9 :: u8 where "OP_9 \<equiv> 0x59"
abbreviation (input) OP_10 :: u8 where "OP_10 \<equiv> 0x5a"
abbreviation (input) OP_11 :: u8 where "OP_11 \<equiv> 0x5b"
abbreviation (input) OP_12 :: u8 where "OP_12 \<equiv> 0x5c"
abbreviation (input) OP_13 :: u8 where "OP_13 \<equiv> 0x5d"
abbreviation (input) OP_14 :: u8 where "OP_14 \<equiv> 0x5e"
abbreviation (input) OP_15 :: u8 where "OP_15 \<equiv> 0x5f"
abbreviation (input) OP_16 :: u8 where "OP_16 \<equiv> 0x60"
abbreviation (input) OP_NOP :: u8 where "OP_NOP \<equiv> 0x61"
abbreviation (input) OP_VER :: u8 where "OP_VER \<equiv> 0x62"
abbreviation (input) OP_IF :: u8 where "OP_IF \<equiv> 0x63"
abbreviation (input) OP_NOTIF :: u8 where "OP_NOTIF \<equiv> 0x64"
abbreviation (input) OP_VERIF :: u8 where "OP_VERIF \<equiv> 0x65"
abbreviation (input) OP_VERNOTIF :: u8 where "OP_VERNOTIF \<equiv> 0x66"
abbreviation (input) OP_ELSE :: u8 where "OP_ELSE \<equiv> 0x67"
abbreviation (input) OP_ENDIF :: u8 where "OP_ENDIF \<equiv> 0x68"
abbreviation (input) OP_VERIFY :: u8 where "OP_VERIFY \<equiv> 0x69"
abbreviation (input) OP_RETURN :: u8 where "OP_RETURN \<equiv> 0x6a"
abbreviation (input) OP_TOALTSTACK :: u8 where "OP_TOALTSTACK \<equiv> 0x6b"
abbreviation (input) OP_FROMALTSTACK :: u8 where "OP_FROMALTSTACK \<equiv> 0x6c"
abbreviation (input) OP_2DROP :: u8 where "OP_2DROP \<equiv> 0x6d"
abbreviation (input) OP_2DUP :: u8 where "OP_2DUP \<equiv> 0x6e"
abbreviation (input) OP_3DUP :: u8 where "OP_3DUP \<equiv> 0x6f"
abbreviation (input) OP_2OVER :: u8 where "OP_2OVER \<equiv> 0x70"
abbreviation (input) OP_2ROT :: u8 where "OP_2ROT \<equiv> 0x71"
abbreviation (input) OP_2SWAP :: u8 where "OP_2SWAP \<equiv> 0x72"
abbreviation (input) OP_IFDUP :: u8 where "OP_IFDUP \<equiv> 0x73"
abbreviation (input) OP_DEPTH :: u8 where "OP_DEPTH \<equiv> 0x74"
abbreviation (input) OP_DROP :: u8 where "OP_DROP \<equiv> 0x75"
abbreviation (input) OP_DUP :: u8 where "OP_DUP \<equiv> 0x76"
abbreviation (input) OP_NIP :: u8 where "OP_NIP \<equiv> 0x77"
abbreviation (input) OP_OVER :: u8 where "OP_OVER \<equiv> 0x78"
abbreviation (input) OP_PICK :: u8 where "OP_PICK \<equiv> 0x79"
abbreviation (input) OP_ROLL :: u8 where "OP_ROLL \<equiv> 0x7a"
abbreviation (input) OP_ROT :: u8 where "OP_ROT \<equiv> 0x7b"
abbreviation (input) OP_SWAP :: u8 where "OP_SWAP \<equiv> 0x7c"
abbreviation (input) OP_TUCK :: u8 where "OP_TUCK \<equiv> 0x7d"
abbreviation (input) OP_CAT :: u8 where "OP_CAT \<equiv> 0x7e"
abbreviation (input) OP_SUBSTR :: u8 where "OP_SUBSTR \<equiv> 0x7f"
abbreviation (input) OP_LEFT :: u8 where "OP_LEFT \<equiv> 0x80"
abbreviation (input) OP_RIGHT :: u8 where "OP_RIGHT \<equiv> 0x81"
abbreviation (input) OP_SIZE :: u8 where "OP_SIZE \<equiv> 0x82"
abbreviation (input) OP_INVERT :: u8 where "OP_INVERT \<equiv> 0x83"
abbreviation (input) OP_AND :: u8 where "OP_AND \<equiv> 0x84"
abbreviation (input) OP_OR :: u8 where "OP_OR \<equiv> 0x85"
abbreviation (input) OP_XOR :: u8 where "OP_XOR \<equiv> 0x86"
abbreviation (input) OP_EQUAL :: u8 where "OP_EQUAL \<equiv> 0x87"
abbreviation (input) OP_EQUALVERIFY :: u8 where "OP_EQUALVERIFY \<equiv> 0x88"
abbreviation (input) OP_RESERVED1 :: u8 where "OP_RESERVED1 \<equiv> 0x89"
abbreviation (input) OP_RESERVED2 :: u8 where "OP_RESERVED2 \<equiv> 0x8a"
abbreviation (input) OP_1ADD :: u8 where "OP_1ADD \<equiv> 0x8b"
abbreviation (input) OP_1SUB :: u8 where "OP_1SUB \<equiv> 0x8c"
abbreviation (input) OP_2MUL :: u8 where "OP_2MUL \<equiv> 0x8d"
abbreviation (input) OP_2DIV :: u8 where "OP_2DIV \<equiv> 0x8e"
abbreviation (input) OP_NEGATE :: u8 where "OP_NEGATE \<equiv> 0x8f"
abbreviation (input) OP_ABS :: u8 where "OP_ABS \<equiv> 0x90"
abbreviation (input) OP_NOT :: u8 where "OP_NOT \<equiv> 0x91"
abbreviation (input) OP_0NOTEQUAL :: u8 where "OP_0NOTEQUAL \<equiv> 0x92"
abbreviation (input) OP_ADD :: u8 where "OP_ADD \<equiv> 0x93"
abbreviation (input) OP_SUB :: u8 where "OP_SUB \<equiv> 0x94"
abbreviation (input) OP_MUL :: u8 where "OP_MUL \<equiv> 0x95"
abbreviation (input) OP_DIV :: u8 where "OP_DIV \<equiv> 0x96"
abbreviation (input) OP_MOD :: u8 where "OP_MOD \<equiv> 0x97"
abbreviation (input) OP_LSHIFT :: u8 where "OP_LSHIFT \<equiv> 0x98"
abbreviation (input) OP_RSHIFT :: u8 where "OP_RSHIFT \<equiv> 0x99"
abbreviation (input) OP_BOOLAND :: u8 where "OP_BOOLAND \<equiv> 0x9a"
abbreviation (input) OP_BOOLOR :: u8 where "OP_BOOLOR \<equiv> 0x9b"
abbreviation (input) OP_NUMEQUAL :: u8 where "OP_NUMEQUAL \<equiv> 0x9c"
abbreviation (input) OP_NUMEQUALVERIFY :: u8 where "OP_NUMEQUALVERIFY \<equiv> 0x9d"
abbreviation (input) OP_NUMNOTEQUAL :: u8 where "OP_NUMNOTEQUAL \<equiv> 0x9e"
abbreviation (input) OP_LESSTHAN :: u8 where "OP_LESSTHAN \<equiv> 0x9f"
abbreviation (input) OP_GREATERTHAN :: u8 where "OP_GREATERTHAN \<equiv> 0xa0"
abbreviation (input) OP_LESSTHANOREQUAL :: u8 where "OP_LESSTHANOREQUAL \<equiv> 0xa1"
abbreviation (input) OP_GREATERTHANOREQUAL :: u8 where "OP_GREATERTHANOREQUAL \<equiv> 0xa2"
abbreviation (input) OP_MIN :: u8 where "OP_MIN \<equiv> 0xa3"
abbreviation (input) OP_MAX :: u8 where "OP_MAX \<equiv> 0xa4"
abbreviation (input) OP_WITHIN :: u8 where "OP_WITHIN \<equiv> 0xa5"
abbreviation (input) OP_RIPEMD160 :: u8 where "OP_RIPEMD160 \<equiv> 0xa6"
abbreviation (input) OP_SHA1 :: u8 where "OP_SHA1 \<equiv> 0xa7"
abbreviation (input) OP_SHA256 :: u8 where "OP_SHA256 \<equiv> 0xa8"
abbreviation (input) OP_HASH160 :: u8 where "OP_HASH160 \<equiv> 0xa9"
abbreviation (input) OP_HASH256 :: u8 where "OP_HASH256 \<equiv> 0xaa"
abbreviation (input) OP_CODESEPARATOR :: u8 where "OP_CODESEPARATOR \<equiv> 0xab"
abbreviation (input) OP_CHECKSIG :: u8 where "OP_CHECKSIG \<equiv> 0xac"
abbreviation (input) OP_CHECKSIGVERIFY :: u8 where "OP_CHECKSIGVERIFY \<equiv> 0xad"
abbreviation (input) OP_CHECKMULTISIG :: u8 where "OP_CHECKMULTISIG \<equiv> 0xae"
abbreviation (input) OP_CHECKMULTISIGVERIFY :: u8 where "OP_CHECKMULTISIGVERIFY \<equiv> 0xaf"
abbreviation (input) OP_NOP1 :: u8 where "OP_NOP1 \<equiv> 0xb0"
abbreviation (input) OP_NOP2 :: u8 where "OP_NOP2 \<equiv> 0xb1"
abbreviation (input) OP_CHECKLOCKTIMEVERIFY :: u8 where "OP_CHECKLOCKTIMEVERIFY \<equiv> 0xb1"
abbreviation (input) OP_NOP3 :: u8 where "OP_NOP3 \<equiv> 0xb2"
abbreviation (input) OP_CHECKSEQUENCEVERIFY :: u8 where "OP_CHECKSEQUENCEVERIFY \<equiv> 0xb2"
abbreviation (input) OP_NOP4 :: u8 where "OP_NOP4 \<equiv> 0xb3"
abbreviation (input) OP_INPUTAGE :: u8 where "OP_INPUTAGE \<equiv> 0xb3"
abbreviation (input) OP_NOP5 :: u8 where "OP_NOP5 \<equiv> 0xb4"
abbreviation (input) OP_NOP6 :: u8 where "OP_NOP6 \<equiv> 0xb5"
abbreviation (input) OP_NOP7 :: u8 where "OP_NOP7 \<equiv> 0xb6"
abbreviation (input) OP_NOP8 :: u8 where "OP_NOP8 \<equiv> 0xb7"
abbreviation (input) OP_NOP9 :: u8 where "OP_NOP9 \<equiv> 0xb8"
abbreviation (input) OP_NOP10 :: u8 where "OP_NOP10 \<equiv> 0xb9"
abbreviation (input) OP_SMALLINTEGER :: u8 where "OP_SMALLINTEGER \<equiv> 0xfa"
abbreviation (input) OP_PUBKEYS :: u8 where "OP_PUBKEYS \<equiv> 0xfb"
abbreviation (input) OP_PUBKEYHASH :: u8 where "OP_PUBKEYHASH \<equiv> 0xfd"
abbreviation (input) OP_PUBKEY :: u8 where "OP_PUBKEY \<equiv> 0xfe"
abbreviation (input) OP_INVALIDOPCODE :: u8 where "OP_INVALIDOPCODE \<equiv> 0xff"

section \<open>Opcodes\<close>

text \<open>
  The length column of \<^verbatim>\<open>opcodeArray\<close>: the bytes an opcode takes with its data, or minus the
  number of length bytes that follow it.
\<close>

definition opcode_length :: "u8 \<Rightarrow> int" where
  "opcode_length v =
     (if v = OP_0 then 1
      else if v \<le> OP_DATA_75 then uint v + 1
      else if v = OP_PUSHDATA1 then -1
      else if v = OP_PUSHDATA2 then -2
      else if v = OP_PUSHDATA4 then -4
      else 1)"

record parsedOpcode =
  op_value :: u8
  op_data :: bytes

definition isDisabled :: "parsedOpcode \<Rightarrow> bool" where
  "isDisabled pop \<longleftrightarrow> op_value pop \<in>
     {OP_CAT, OP_SUBSTR, OP_LEFT, OP_RIGHT, OP_INVERT, OP_AND, OP_OR, OP_XOR, OP_2MUL, OP_2DIV,
      OP_MUL, OP_DIV, OP_MOD, OP_LSHIFT, OP_RSHIFT}"

definition alwaysIllegal :: "parsedOpcode \<Rightarrow> bool" where
  "alwaysIllegal pop \<longleftrightarrow> op_value pop \<in> {OP_VERIF, OP_VERNOTIF}"

definition isConditional :: "parsedOpcode \<Rightarrow> bool" where
  "isConditional pop \<longleftrightarrow> op_value pop \<in> {OP_IF, OP_NOTIF, OP_ELSE, OP_ENDIF}"

definition checkMinimalDataPush :: "parsedOpcode \<Rightarrow> unit sresult" where
  "checkMinimalDataPush pop =
     (let d = op_data pop; dataLen = length d; opcode = op_value pop
      in if dataLen = 0 \<and> opcode \<noteq> OP_0 then scriptError ErrMinimalData
         else if dataLen = 1 \<and> d ! 0 \<ge> 1 \<and> d ! 0 \<le> 16 then
           (if opcode \<noteq> OP_1 + d ! 0 - 1 then scriptError ErrMinimalData else Inr ())
         else if dataLen = 1 \<and> d ! 0 = 0x81 then
           (if opcode \<noteq> OP_1NEGATE then scriptError ErrMinimalData else Inr ())
         else if dataLen \<le> 75 then
           (if unat opcode \<noteq> dataLen then scriptError ErrMinimalData else Inr ())
         else if dataLen \<le> 255 then
           (if opcode \<noteq> OP_PUSHDATA1 then scriptError ErrMinimalData else Inr ())
         else if dataLen \<le> 65535 then
           (if opcode \<noteq> OP_PUSHDATA2 then scriptError ErrMinimalData else Inr ())
         else Inr ())"

text \<open>\<^verbatim>\<open>parsedOpcode.bytes\<close>: the opcode, its length bytes and its data.\<close>

definition popBytes :: "parsedOpcode \<Rightarrow> bytes sresult" where
  "popBytes pop =
     (let v = op_value pop; len = opcode_length v; l = length (op_data pop)
      in if len = 1 then
           (if l \<noteq> 0 then scriptError ErrInternal else Inr [v])
         else
           let (hdr, nbytes) =
             (if len = -1 then
                let h = [v, of_nat l] in (h, unat (h ! 1) + length h)
              else if len = -2 then
                let h = [v, of_nat (take_bit 8 l), of_nat (take_bit 8 (drop_bit 8 l))]
                in (h, unat (h ! 1) + 256 * unat (h ! 2) + length h)
              else if len = -4 then
                let h = [v, of_nat (take_bit 8 l), of_nat (take_bit 8 (drop_bit 8 l)),
                         of_nat (take_bit 8 (drop_bit 16 l)), of_nat (take_bit 8 (drop_bit 24 l))]
                in (h, unat (h ! 1) + 256 * unat (h ! 2) + 65536 * unat (h ! 3) +
                       16777216 * unat (h ! 4) + length h)
              else ([v], nat len))
           in if length (hdr @ op_data pop) \<noteq> nbytes then scriptError ErrInternal
              else Inr (hdr @ op_data pop))"

section \<open>Parsing and unparsing\<close>

text \<open>
  \<^verbatim>\<open>parseScript\<close> returns the opcodes parsed so far together with the error, if any: the
  signature-operation counters use the opcodes even then. The argument is the part of the
  script from index \<^verbatim>\<open>i\<close> on.
\<close>

definition pushLen :: "int \<Rightarrow> bytes \<Rightarrow> nat" where
  "pushLen len rest =
     (if len = -1 then unat (rest ! 0)
      else if len = -2 then 256 * unat (rest ! 1) + unat (rest ! 0)
      else 16777216 * unat (rest ! 3) + 65536 * unat (rest ! 2) + 256 * unat (rest ! 1)
           + unat (rest ! 0))"

function parseScript :: "bytes \<Rightarrow> parsedOpcode list \<times> script_err option" where
  "parseScript [] = ([], None)"
| "parseScript (instr # rest) =
     (let len = opcode_length instr
      in if len = 1 then
           apfst (Cons \<lparr>op_value = instr, op_data = []\<rparr>) (parseScript rest)
         else if len > 1 then
           (if int (length (instr # rest)) < len then ([], Some (ScriptError ErrMalformedPush))
            else apfst (Cons \<lparr>op_value = instr, op_data = take (nat len - 1) rest\<rparr>)
                   (parseScript (drop (nat len - 1) rest)))
         else
           (if int (length rest) < - len then ([], Some (ScriptError ErrMalformedPush))
            else
              let l = pushLen len rest; rest' = drop (nat (- len)) rest
              in if l > length rest' then ([], Some (ScriptError ErrMalformedPush))
                 else apfst (Cons \<lparr>op_value = instr, op_data = take l rest'\<rparr>)
                        (parseScript (drop l rest'))))"
  by pat_completeness auto
termination
  by (relation "measure length") (auto simp: less_Suc_eq_le)

declare parseScript.simps(2) [simp del]

text \<open>The view of callers that give up on a parse error.\<close>

definition parseE :: "bytes \<Rightarrow> parsedOpcode list sresult" where
  "parseE script = (case parseScript script of (pops, None) \<Rightarrow> Inr pops | (_, Some e) \<Rightarrow> Inl (Err e))"

fun unparseScript :: "parsedOpcode list \<Rightarrow> bytes sresult" where
  "unparseScript [] = Inr []"
| "unparseScript (pop # pops) =
     bindE (popBytes pop) (\<lambda>b. bindE (unparseScript pops) (\<lambda>bs. Inr (b @ bs)))"

section \<open>Predicates on parsed scripts\<close>

definition isSmallInt :: "u8 \<Rightarrow> bool" where
  "isSmallInt v \<longleftrightarrow> v = OP_0 \<or> (v \<ge> OP_1 \<and> v \<le> OP_16)"

definition isNumber :: "u8 \<Rightarrow> bool" where
  "isNumber v \<longleftrightarrow> isSmallInt v \<or> (v \<ge> OP_DATA_1 \<and> v \<le> OP_DATA_4)"

definition isOpCode :: "parsedOpcode \<Rightarrow> u8 \<Rightarrow> bool" where
  "isOpCode pCode expected \<longleftrightarrow> op_value pCode = expected"

definition asSmallInt :: "u8 \<Rightarrow> int" where
  "asSmallInt v = (if v = OP_0 then 0 else uint (v - (OP_1 - 1)))"

definition isScriptHash :: "parsedOpcode list \<Rightarrow> bool" where
  "isScriptHash pops \<longleftrightarrow> length pops = 3 \<and> op_value (pops ! 0) = OP_HASH160 \<and>
     op_value (pops ! 1) = OP_DATA_20 \<and> op_value (pops ! 2) = OP_EQUAL"

definition IsPayToScriptHash :: "bytes \<Rightarrow> bool" where
  "IsPayToScriptHash script = (case parseE script of Inl _ \<Rightarrow> False | Inr pops \<Rightarrow> isScriptHash pops)"

definition isWitnessScriptHash :: "parsedOpcode list \<Rightarrow> bool" where
  "isWitnessScriptHash pops \<longleftrightarrow> length pops = 2 \<and> op_value (pops ! 0) = OP_0 \<and>
     op_value (pops ! 1) = OP_DATA_32"

definition IsPayToWitnessScriptHash :: "bytes \<Rightarrow> bool" where
  "IsPayToWitnessScriptHash script =
     (case parseE script of Inl _ \<Rightarrow> False | Inr pops \<Rightarrow> isWitnessScriptHash pops)"

definition isWitnessPubKeyHash :: "parsedOpcode list \<Rightarrow> bool" where
  "isWitnessPubKeyHash pops \<longleftrightarrow> length pops = 2 \<and> op_value (pops ! 0) = OP_0 \<and>
     op_value (pops ! 1) = OP_DATA_20"

definition IsPayToWitnessPubKeyHash :: "bytes \<Rightarrow> bool" where
  "IsPayToWitnessPubKeyHash script =
     (case parseE script of Inl _ \<Rightarrow> False | Inr pops \<Rightarrow> isWitnessPubKeyHash pops)"

definition canonicalPush :: "parsedOpcode \<Rightarrow> bool" where
  "canonicalPush pop =
     (let opcode = op_value pop; d = op_data pop; dataLen = length d
      in if opcode > OP_16 then True
         else if opcode < OP_PUSHDATA1 \<and> opcode > OP_0 \<and> (dataLen = 1 \<and> d ! 0 \<le> 16) then False
         else if opcode = OP_PUSHDATA1 \<and> dataLen < 76 then False
         else if opcode = OP_PUSHDATA2 \<and> dataLen \<le> 0xff then False
         else if opcode = OP_PUSHDATA4 \<and> dataLen \<le> 0xffff then False
         else True)"

definition isWitnessProgram :: "parsedOpcode list \<Rightarrow> bool" where
  "isWitnessProgram pops \<longleftrightarrow> length pops = 2 \<and> isSmallInt (op_value (pops ! 0)) \<and>
     canonicalPush (pops ! 1) \<and> length (op_data (pops ! 1)) \<ge> 2 \<and> length (op_data (pops ! 1)) \<le> 40"

definition isPushOnly :: "parsedOpcode list \<Rightarrow> bool" where
  "isPushOnly pops = list_all (\<lambda>pop. \<not> op_value pop > OP_16) pops"

definition IsPushOnlyScript :: "bytes \<Rightarrow> bool" where
  "IsPushOnlyScript script = (case parseE script of Inl _ \<Rightarrow> False | Inr pops \<Rightarrow> isPushOnly pops)"

definition removeOpcode :: "parsedOpcode list \<Rightarrow> u8 \<Rightarrow> parsedOpcode list" where
  "removeOpcode pkscript opcode = filter (\<lambda>pop. op_value pop \<noteq> opcode) pkscript"

text \<open>\<^verbatim>\<open>bytes.Contains\<close> of the standard library.\<close>

fun bytesContains :: "bytes \<Rightarrow> bytes \<Rightarrow> bool" where
  "bytesContains [] sub = (sub = [])"
| "bytesContains (b # bs) sub = (take (length sub) (b # bs) = sub \<or> bytesContains bs sub)"

definition removeOpcodeByData :: "parsedOpcode list \<Rightarrow> bytes \<Rightarrow> parsedOpcode list" where
  "removeOpcodeByData pkscript data =
     filter (\<lambda>pop. \<not> canonicalPush pop \<or> \<not> bytesContains (op_data pop) data) pkscript"

definition IsUnspendable :: "bytes \<Rightarrow> bool" where
  "IsUnspendable pkScript =
     (case parseE pkScript of Inl _ \<Rightarrow> True
      | Inr pops \<Rightarrow> length pops > 0 \<and> op_value (pops ! 0) = OP_RETURN)"

subsection \<open>Time-locked scripts (HTLC)\<close>

datatype ScriptClass = NonStandardTy | PubKeyTy | PubKeyHashTy | WitnessV0PubKeyHashTy
  | ScriptHashTy | WitnessV0ScriptHashTy | MultiSigTy | MultiSigLockTy | EADAddressTy
  | HTLCScriptTy | NullDataTy

definition isHTLC :: "parsedOpcode list \<Rightarrow> bool \<times> ScriptClass" where
  "isHTLC pops =
     (let l = length pops
      in if l \<noteq> 9 \<and> l \<noteq> 10 \<and> l \<noteq> 12 then (False, NonStandardTy)
         else if \<not> (isOpCode (pops ! 0) OP_INPUTAGE \<and> isNumber (op_value (pops ! 1)) \<and>
                isOpCode (pops ! 2) OP_GREATERTHAN \<and> isOpCode (pops ! 3) OP_IF \<and>
                isOpCode (pops ! (l - 3)) OP_ELSE \<and> isOpCode (pops ! (l - 2)) OP_RETURN \<and>
                isOpCode (pops ! (l - 1)) OP_ENDIF) then (False, NonStandardTy)
         else if l = 9 then
           (if (length (op_data (pops ! 4)) = 33 \<or> length (op_data (pops ! 4)) = 65) \<and>
               op_value (pops ! 5) = OP_CHECKSIG then (True, PubKeyTy)
            else if op_value (pops ! 4) = OP_0 \<and> length (op_data (pops ! 5)) = 20
              then (True, WitnessV0PubKeyHashTy)
            else if op_value (pops ! 4) = OP_0 \<and> length (op_data (pops ! 5)) = 32
              then (True, WitnessV0ScriptHashTy)
            else (False, NonStandardTy))
         else if l = 10 then
           (if op_value (pops ! 4) = OP_HASH160 \<and> op_value (pops ! 5) = OP_DATA_20 \<and>
               op_value (pops ! 6) = OP_EQUAL then (True, ScriptHashTy)
            else (False, NonStandardTy))
         else
           (if op_value (pops ! 4) = OP_DUP \<and> op_value (pops ! 5) = OP_HASH160 \<and>
               op_value (pops ! 6) = OP_DATA_20 \<and> op_value (pops ! 7) = OP_EQUALVERIFY \<and>
               op_value (pops ! 8) = OP_CHECKSIG then (True, PubKeyHashTy)
            else (False, NonStandardTy)))"

definition HTLCSubClass :: "bytes \<Rightarrow> ScriptClass" where
  "HTLCSubClass script =
     (case parseE script of Inl _ \<Rightarrow> NonStandardTy | Inr pops \<Rightarrow> snd (isHTLC pops))"

definition isHTLCWithScriptHash :: "parsedOpcode list \<Rightarrow> bool" where
  "isHTLCWithScriptHash pops \<longleftrightarrow> snd (isHTLC pops) = ScriptHashTy"

definition isHTLCWitnessScript :: "parsedOpcode list \<Rightarrow> bool" where
  "isHTLCWitnessScript pops \<longleftrightarrow>
     snd (isHTLC pops) = WitnessV0PubKeyHashTy \<or> snd (isHTLC pops) = WitnessV0ScriptHashTy"

definition IsWitnessProgram :: "bytes \<Rightarrow> bool" where
  "IsWitnessProgram script =
     (if length script < 4 \<or> length script > 42 then False
      else case parseE script of Inl _ \<Rightarrow> False
           | Inr pops \<Rightarrow> isWitnessProgram pops \<or> isHTLCWitnessScript pops)"

definition extractWitnessProgram :: "parsedOpcode list \<Rightarrow> parsedOpcode list" where
  "extractWitnessProgram script =
     (if length script = 9 then [script ! 4, script ! 5] else script)"

definition ExtractWitnessProgramInfo :: "bytes \<Rightarrow> (int \<times> bytes) sresult" where
  "ExtractWitnessProgramInfo script =
     bindE (parseE script) (\<lambda>pops.
       if \<not> isWitnessProgram pops \<and> \<not> isHTLCWitnessScript pops then Inl (Err PlainError)
       else let pg = extractWitnessProgram pops
            in Inr (asSmallInt (op_value (pg ! 0)), op_data (pg ! 1)))"

text \<open>\<^verbatim>\<open>ExtractHTLCLockTime\<close> indexes the second opcode without a length check.\<close>

definition ExtractHTLCLockTime :: "bytes \<Rightarrow> int sresult" where
  "ExtractHTLCLockTime pkScript =
     bindE (parseE pkScript) (\<lambda>pops.
       if length pops \<le> 1 then Inl Panic
       else if isSmallInt (op_value (pops ! 1)) then Inr (to_int32 (asSmallInt (op_value (pops ! 1))))
       else bindE (makeScriptNum (op_data (pops ! 1)) True 5) (\<lambda>n. Inr (to_int32 n)))"

section \<open>The script builder\<close>

text \<open>The only error a builder records is \<^verbatim>\<open>ErrScriptNotCanonical\<close>, so a flag stands for it.\<close>

record ScriptBuilder =
  sb_script :: bytes
  sb_err :: bool

definition MaxScriptSize :: nat where "MaxScriptSize = 10000"
definition MaxScriptElementSize :: nat where "MaxScriptElementSize = 520"
definition MaxOpsPerScript :: int where "MaxOpsPerScript = 201"
definition MaxPubKeysPerMultiSig :: int where "MaxPubKeysPerMultiSig = 20"

definition NewScriptBuilder :: ScriptBuilder where
  "NewScriptBuilder = \<lparr>sb_script = [], sb_err = False\<rparr>"

definition AddOp :: "ScriptBuilder \<Rightarrow> u8 \<Rightarrow> ScriptBuilder" where
  "AddOp b opcode =
     (if sb_err b then b
      else if length (sb_script b) + 1 > MaxScriptSize then b\<lparr>sb_err := True\<rparr>
      else b\<lparr>sb_script := sb_script b @ [opcode]\<rparr>)"

definition AddOps :: "ScriptBuilder \<Rightarrow> bytes \<Rightarrow> ScriptBuilder" where
  "AddOps b opcodes =
     (if sb_err b then b
      else if length (sb_script b) + length opcodes > MaxScriptSize then b\<lparr>sb_err := True\<rparr>
      else b\<lparr>sb_script := sb_script b @ opcodes\<rparr>)"

definition canonicalDataSize :: "bytes \<Rightarrow> nat" where
  "canonicalDataSize data =
     (let dataLen = length data
      in if dataLen = 0 then 1
         else if dataLen = 1 \<and> data ! 0 \<le> 16 then 1
         else if dataLen = 1 \<and> data ! 0 = 0x81 then 1
         else if dataLen < 76 then 1 + dataLen
         else if dataLen \<le> 0xff then 2 + dataLen
         else if dataLen \<le> 0xffff then 3 + dataLen
         else 5 + dataLen)"

definition addData :: "ScriptBuilder \<Rightarrow> bytes \<Rightarrow> ScriptBuilder" where
  "addData b data =
     (let dataLen = length data; put = (\<lambda>bs. b\<lparr>sb_script := sb_script b @ bs\<rparr>)
      in if dataLen = 0 \<or> dataLen = 1 \<and> data ! 0 = 0 then put [OP_0]
         else if dataLen = 1 \<and> data ! 0 \<le> 16 then put [(OP_1 - 1) + data ! 0]
         else if dataLen = 1 \<and> data ! 0 = 0x81 then put [OP_1NEGATE]
         else if dataLen < 76 then put (of_nat ((1 - 1) + dataLen) # data)
         else if dataLen \<le> 0xff then put (OP_PUSHDATA1 # of_nat dataLen # data)
         else if dataLen \<le> 0xffff then
           put (OP_PUSHDATA2 # of_nat (take_bit 8 dataLen) # of_nat (take_bit 8 (drop_bit 8 dataLen)) # data)
         else
           put (OP_PUSHDATA4 # of_nat (take_bit 8 dataLen) # of_nat (take_bit 8 (drop_bit 8 dataLen)) #
             of_nat (take_bit 8 (drop_bit 16 dataLen)) # of_nat (take_bit 8 (drop_bit 24 dataLen)) # data))"

definition AddFullData :: "ScriptBuilder \<Rightarrow> bytes \<Rightarrow> ScriptBuilder" where
  "AddFullData b data = (if sb_err b then b else addData b data)"

definition AddData :: "ScriptBuilder \<Rightarrow> bytes \<Rightarrow> ScriptBuilder" where
  "AddData b data =
     (if sb_err b then b
      else if length (sb_script b) + canonicalDataSize data > MaxScriptSize then b\<lparr>sb_err := True\<rparr>
      else if length data > MaxScriptElementSize then b\<lparr>sb_err := True\<rparr>
      else addData b data)"

text \<open>\<^verbatim>\<open>AddInt64\<close> inherits the panic of \<^verbatim>\<open>Bytes\<close> on the smallest \<^verbatim>\<open>int64\<close>.\<close>

definition AddInt64 :: "ScriptBuilder \<Rightarrow> int \<Rightarrow> ScriptBuilder sresult" where
  "AddInt64 b val =
     (if sb_err b then Inr b
      else if length (sb_script b) + 1 > MaxScriptSize then Inr (b\<lparr>sb_err := True\<rparr>)
      else if val = 0 then Inr (b\<lparr>sb_script := sb_script b @ [OP_0]\<rparr>)
      else if val = -1 \<or> (val \<ge> 1 \<and> val \<le> 16) then
        Inr (b\<lparr>sb_script := sb_script b @ [word_of_int (80 + val)]\<rparr>)
      else bindE (Bytes val) (\<lambda>bs. Inr (AddData b bs)))"

definition builtScript :: "ScriptBuilder \<Rightarrow> bytes sresult" where
  "builtScript b = (if sb_err b then Inl (Err PlainError) else Inr (sb_script b))"

definition payToPubKeyHashScript :: "bytes \<Rightarrow> bytes sresult" where
  "payToPubKeyHashScript pubKeyHash =
     builtScript (AddOp (AddOp (AddData (AddOp (AddOp NewScriptBuilder OP_DUP) OP_HASH160)
       pubKeyHash) OP_EQUALVERIFY) OP_CHECKSIG)"

section \<open>Parsing and unparsing are inverse\<close>

lemma opcode_length_cases:
  obtains (one) "opcode_length v = 1" | (many) "1 < opcode_length v" "opcode_length v \<noteq> 1"
  | (l1) "opcode_length v = -1" | (l2) "opcode_length v = -2" | (l4) "opcode_length v = -4"
proof -
  have "1 < uint v + 1" if "v \<noteq> 0"
    using that uint_u8_bounds(1) [of v] by (auto simp: less_le word_uint_eq_iff)
  then have "opcode_length v = 1 \<or> 1 < opcode_length v \<or> opcode_length v = -1 \<or>
      opcode_length v = -2 \<or> opcode_length v = -4"
    unfolding opcode_length_def by auto
  then show thesis using that by fastforce
qed

lemma unat_u8_less: "unat (b :: u8) < 256"
  by (rule order_less_le_trans [OF unsigned_less]) simp

lemma unat_of_nat_u8: "unat (of_nat x :: u8) = x mod 256"
  by (simp add: unat_of_nat)

lemma le2_val: "unat (of_nat (take_bit 8 l) :: u8) + 256 * unat (of_nat (take_bit 8 (drop_bit 8 l)) :: u8)
    = l mod 65536"
proof -
  have "l mod 65536 = l mod 256 + 256 * (l div 256 mod 256)"
    using mod_mult2_eq [of l 256 256] by simp
  then show ?thesis by (simp add: unat_of_nat_u8 take_bit_eq_mod drop_bit_eq_div)
qed

lemma le4_val: "unat (of_nat (take_bit 8 l) :: u8) + 256 * unat (of_nat (take_bit 8 (drop_bit 8 l)) :: u8)
    + 65536 * unat (of_nat (take_bit 8 (drop_bit 16 l)) :: u8)
    + 16777216 * unat (of_nat (take_bit 8 (drop_bit 24 l)) :: u8) = l mod 4294967296"
proof -
  have "l mod 4294967296 = l mod 65536 + 65536 * (l div 65536 mod 65536)"
    using mod_mult2_eq [of l 65536 65536] by simp
  moreover have "l div 65536 mod 65536 = l div 65536 mod 256 + 256 * (l div 16777216 mod 256)"
    using mod_mult2_eq [of "l div 65536" 256 256] by (simp flip: div_mult2_eq)
  ultimately show ?thesis
    using le2_val [of l] by (simp add: unat_of_nat_u8 take_bit_eq_mod drop_bit_eq_div)
qed

lemma popBytes_parse:
  assumes "popBytes pop = Inr b"
  shows "parseScript (b @ rest) = apfst (Cons pop) (parseScript rest)"
proof -
  define v d where "v = op_value pop" and "d = op_data pop"
  have pop: "pop = \<lparr>op_value = v, op_data = d\<rparr>" by (simp add: v_def d_def)
  show ?thesis
  proof (cases v rule: opcode_length_cases)
    case one
    then have "b = [v]" "d = []" using assms by (auto simp: popBytes_def pop split: if_splits)
    with one pop show ?thesis by (simp add: parseScript.simps(2))
  next
    case many
    then have "b = v # d" "opcode_length v = int (length d) + 1"
      using assms by (auto simp: popBytes_def pop Let_def split: if_splits)
    with many(1) pop show ?thesis by (simp add: parseScript.simps(2) Let_def)
  next
    case l1
    then have "b = v # of_nat (length d) # d" "length d = length d mod 256"
      using assms by (auto simp: popBytes_def pop Let_def unat_of_nat_u8 split: if_splits)
    with l1 pop show ?thesis
      by (simp add: parseScript.simps(2) Let_def pushLen_def unat_of_nat_u8)
  next
    case l2
    define h1 h2 :: u8 where h: "h1 = of_nat (take_bit 8 (length d))"
      "h2 = of_nat (take_bit 8 (drop_bit 8 (length d)))"
    have "b = v # h1 # h2 # d" "length d = unat h1 + 256 * unat h2"
      using assms l2 le2_val [of "length d"]
      by (auto simp: popBytes_def pop Let_def h split: if_splits)
    then have "b = v # h1 # h2 # d" "pushLen (-2) (h1 # h2 # d @ rest) = length d"
      by (simp_all add: pushLen_def)
    with l2 pop show ?thesis
      by (simp add: parseScript.simps(2) Let_def)
  next
    case l4
    define h1 h2 h3 h4 :: u8 where h: "h1 = of_nat (take_bit 8 (length d))"
      "h2 = of_nat (take_bit 8 (drop_bit 8 (length d)))"
      "h3 = of_nat (take_bit 8 (drop_bit 16 (length d)))"
      "h4 = of_nat (take_bit 8 (drop_bit 24 (length d)))"
    have "b = v # h1 # h2 # h3 # h4 # d"
      "length d = unat h1 + 256 * unat h2 + 65536 * unat h3 + 16777216 * unat h4"
      using assms l4 le4_val [of "length d"]
      by (auto simp: popBytes_def pop Let_def h split: if_splits)
    then have "b = v # h1 # h2 # h3 # h4 # d" "pushLen (-4) (h1 # h2 # h3 # h4 # d @ rest) = length d"
      by (simp_all add: pushLen_def numeral_3_eq_3)
    with l4 pop show ?thesis
      by (simp add: parseScript.simps(2) Let_def)
  qed
qed

lemma unparse_parse: "unparseScript pops = Inr s \<Longrightarrow> parseScript s = (pops, None)"
proof (induction pops arbitrary: s)
  case (Cons pop pops)
  then show ?case by (auto simp: bindE_Inr_iff popBytes_parse)
qed simp

lemma of_nat_unat_u8 [simp]: "of_nat (unat (b :: u8)) = b"
  by simp

lemma le2_bytes:
  assumes "l = 256 * unat (b :: u8) + unat (a :: u8)"
  shows "of_nat (take_bit 8 l) = a" "of_nat (take_bit 8 (drop_bit 8 l)) = b"
proof -
  have "unat a < 256" "unat b < 256" by (simp_all add: unat_u8_less)
  then have "take_bit 8 l = unat a" "take_bit 8 (drop_bit 8 l) = unat b"
    using assms by (simp_all add: take_bit_eq_mod drop_bit_eq_div)
  then show "of_nat (take_bit 8 l) = a" "of_nat (take_bit 8 (drop_bit 8 l)) = b" by simp_all
qed

lemma le4_bytes:
  assumes "l = 16777216 * unat (d :: u8) + 65536 * unat (c :: u8) + 256 * unat (b :: u8) + unat (a :: u8)"
  shows "of_nat (take_bit 8 l) = a" "of_nat (take_bit 8 (drop_bit 8 l)) = b"
    "of_nat (take_bit 8 (drop_bit 16 l)) = c" "of_nat (take_bit 8 (drop_bit 24 l)) = d"
proof -
  have b: "unat a < 256" "unat b < 256" "unat c < 256" "unat d < 256"
    by (simp_all add: unat_u8_less)
  have "l = 65536 * (256 * unat d + unat c) + (256 * unat b + unat a)"
    and "256 * unat b + unat a < 65536" using assms b by simp_all
  then have "l div 65536 = 256 * unat d + unat c" "l div 256 = 65536 * unat d + 256 * unat c + unat b"
    "l div 16777216 = unat d"
    using b by (simp_all add: assms)
  moreover have "l mod 256 = unat a"
  proof -
    have "l = 256 * (65536 * unat d + 256 * unat c + unat b) + unat a" using assms by simp
    then show ?thesis using b(1) by (simp only: mod_mult_self4 mod_less)
  qed
  moreover have "(65536 * unat d + 256 * unat c + unat b) mod 256 = unat b"
  proof -
    have "65536 * unat d + 256 * unat c + unat b = 256 * (256 * unat d + unat c) + unat b" by simp
    then show ?thesis using b(2) by (simp only: mod_mult_self4 mod_less)
  qed
  ultimately have "take_bit 8 l = unat a" "take_bit 8 (drop_bit 8 l) = unat b"
    "take_bit 8 (drop_bit 16 l) = unat c" "take_bit 8 (drop_bit 24 l) = unat d"
    using b by (simp_all add: take_bit_eq_mod drop_bit_eq_div)
  then show "of_nat (take_bit 8 l) = a" "of_nat (take_bit 8 (drop_bit 8 l)) = b"
    "of_nat (take_bit 8 (drop_bit 16 l)) = c" "of_nat (take_bit 8 (drop_bit 24 l)) = d" by simp_all
qed

lemma parse_popBytes:
  assumes "parseScript (instr # rest) = (pops, None)"
  obtains pop b s' where "pops = pop # fst (parseScript s')" "parseScript s' = (tl pops, None)"
    "instr # rest = b @ s'" "popBytes pop = Inr b" "length s' < length (instr # rest)"
proof (cases instr rule: opcode_length_cases)
  case one
  with assms show thesis
    by (intro that [of "\<lparr>op_value = instr, op_data = []\<rparr>" rest "[instr]"])
       (auto simp: parseScript.simps(2) popBytes_def apfst_def map_prod_def split: prod.splits)
next
  case many
  define n where "n = nat (opcode_length instr) - 1"
  have n: "opcode_length instr = int n + 1" using many by (simp add: n_def)
  with assms many have "n \<le> length rest"
    by (auto simp: parseScript.simps(2) Let_def split: if_splits)
  moreover have "nat (int n + 1) - Suc 0 = n" by (simp add: nat_add_distrib)
  ultimately show thesis using assms many n
    by (intro that [of "\<lparr>op_value = instr, op_data = take n rest\<rparr>" "drop n rest" "instr # take n rest"])
       (auto simp: parseScript.simps(2) popBytes_def Let_def apfst_def map_prod_def min_def split: prod.splits)
next
  case l1
  with assms obtain a r where r: "rest = a # r" "unat a \<le> length r"
    by (cases rest) (auto simp: parseScript.simps(2) Let_def pushLen_def split: if_splits)
  with assms l1 show thesis
    by (intro that [of "\<lparr>op_value = instr, op_data = take (unat a) r\<rparr>" "drop (unat a) r" "instr # a # take (unat a) r"])
       (auto simp: parseScript.simps(2) popBytes_def Let_def pushLen_def apfst_def map_prod_def min_def split: prod.splits)
next
  case l2
  with assms have "2 \<le> length rest" by (auto simp: parseScript.simps(2) Let_def split: if_splits)
  then obtain a b r where r: "rest = a # b # r" by (cases rest rule: remdups_adj.cases) auto
  define l where "l = 256 * unat b + unat a"
  have "l \<le> length r"
    using assms l2 r by (auto simp: parseScript.simps(2) Let_def pushLen_def l_def split: if_splits)
  moreover have "pushLen (-2) rest = l" using r by (simp add: pushLen_def l_def)
  ultimately show thesis using assms l2 r le2_bytes [OF l_def]
    by (intro that [of "\<lparr>op_value = instr, op_data = take l r\<rparr>" "drop l r" "instr # a # b # take l r"])
       (auto simp: parseScript.simps(2) popBytes_def Let_def apfst_def map_prod_def min_def l_def split: prod.splits)
next
  case l4
  with assms have "4 \<le> length rest" by (auto simp: parseScript.simps(2) Let_def split: if_splits)
  then obtain a b c d r where r: "rest = a # b # c # d # r"
    by (auto simp: numeral_eq_Suc Suc_le_length_iff)
  define l where "l = 16777216 * unat d + 65536 * unat c + 256 * unat b + unat a"
  have "l \<le> length r"
    using assms l4 r by (auto simp: parseScript.simps(2) Let_def pushLen_def l_def numeral_3_eq_3 split: if_splits)
  moreover have "pushLen (-4) rest = l" using r by (simp add: pushLen_def l_def numeral_3_eq_3)
  ultimately show thesis using assms l4 r le4_bytes [OF l_def]
    by (intro that [of "\<lparr>op_value = instr, op_data = take l r\<rparr>" "drop l r" "instr # a # b # c # d # take l r"])
       (auto simp: parseScript.simps(2) popBytes_def Let_def apfst_def map_prod_def min_def l_def split: prod.splits)
qed

lemma parse_unparse: "parseScript s = (pops, None) \<Longrightarrow> unparseScript pops = Inr s"
proof (induction s arbitrary: pops rule: length_induct)
  case (1 s)
  show ?case
  proof (cases s)
    case (Cons instr rest)
    with "1.prems" obtain pop b s' where *: "pops = pop # fst (parseScript s')"
        "parseScript s' = (tl pops, None)" "s = b @ s'" "popBytes pop = Inr b" "length s' < length s"
      by (metis parse_popBytes)
    then have "unparseScript (tl pops) = Inr s'" using "1.IH" by blast
    with * show ?thesis by (cases pops) auto
  qed (use "1.prems" in simp)
qed

lemma parse_append:
  "parseScript a = (p, None) \<Longrightarrow> parseScript (a @ b) = apfst ((@) p) (parseScript b)"
proof -
  assume "parseScript a = (p, None)"
  then have "unparseScript p = Inr a" by (rule parse_unparse)
  then show ?thesis
  proof (induction p arbitrary: a)
    case (Cons pop pops)
    then show ?case
      by (auto simp: bindE_Inr_iff popBytes_parse apfst_def map_prod_def split: prod.splits)
  qed (simp add: apfst_def map_prod_def)
qed

lemma unparse_append:
  "unparseScript (p @ q) = bindE (unparseScript p) (\<lambda>a. bindE (unparseScript q) (\<lambda>b. Inr (a @ b)))"
  by (induction p) (simp_all add: bindE_assoc)

lemma popBytes_single:
  "popBytes pop = Inr b \<Longrightarrow> parseScript b = ([pop], None)"
  using popBytes_parse [of pop b "[]"] by simp

text \<open>C34. Parsing and serialising scripts are mutually inverse: a byte string parses without error to
  a list of opcodes exactly when that list serialises, without error, to the byte string.  In
  particular the parser accepts no two spellings of one opcode list and the serialiser never writes
  a push whose length prefix disagrees with its data.\<close>

theorem script_parse_unparse:
  "parseScript s = (pops, None) \<longleftrightarrow> unparseScript pops = Inr s"
  using parse_unparse unparse_parse by blast

end
