(* ===== verification/Wire.thy ===== *)
theory Wire
  imports Prelude
begin

text \<open>
  The primitive codecs of the wire protocol (\<^verbatim>\<open>types/wire/encoder.go\<close>,
  \<^verbatim>\<open>types/wire/encoder.list.go\<close>): fixed-width little-endian integers, variable-length
  integers, byte strings and scripts. A writer is the byte list it writes; a reader takes the
  unread input and returns a value with the input that is left, or an error. \<^verbatim>\<open>io.EOF\<close> and
  \<^verbatim>\<open>io.ErrUnexpectedEOF\<close> are one error, \<open>IOError\<close>. The free lists of buffers are an
  optimisation of the allocator and are not part of the model.

  The locale \<open>codec\<close> is the contract every pair of a writer and a reader below fulfils: reading
  back what was written, and the converse, that a reader accepts nothing but what the writer
  writes. Its lemmas lift both to counted sequences.
\<close>

section \<open>Readers and writers\<close>

datatype wire_err = IOError | MessageError

type_synonym 'a read_result = "wire_err failure + 'a \<times> bytes"

text \<open>\<^verbatim>\<open>io.ReadFull\<close> of the standard library.\<close>

definition readFull :: "nat \<Rightarrow> bytes \<Rightarrow> bytes read_result" where
  "readFull n r = (if length r < n then Inl (Err IOError) else Inr (take n r, drop n r))"

fun putLE :: "nat \<Rightarrow> int \<Rightarrow> bytes" where
  "putLE 0 x = []"
| "putLE (Suc n) x = word_of_int x # putLE n (x div 256)"

definition PutUint8 :: "u8 \<Rightarrow> bytes" where
  "PutUint8 val = [val]"

definition PutUint16 :: "u16 \<Rightarrow> bytes" where
  "PutUint16 val = putLE 2 (uint val)"

definition PutUint32 :: "u32 \<Rightarrow> bytes" where
  "PutUint32 val = putLE 4 (uint val)"

definition PutUint64 :: "u64 \<Rightarrow> bytes" where
  "PutUint64 val = putLE 8 (uint val)"

definition Uint8 :: "bytes \<Rightarrow> u8 read_result" where
  "Uint8 r = bindE (readFull 1 r) (\<lambda>(buf, r). Inr (buf ! 0, r))"

definition Uint16 :: "bytes \<Rightarrow> u16 read_result" where
  "Uint16 r = bindE (readFull 2 r) (\<lambda>(buf, r). Inr (word_of_int (le_val buf), r))"

definition Uint32 :: "bytes \<Rightarrow> u32 read_result" where
  "Uint32 r = bindE (readFull 4 r) (\<lambda>(buf, r). Inr (word_of_int (le_val buf), r))"

definition Uint64 :: "bytes \<Rightarrow> u64 read_result" where
  "Uint64 r = bindE (readFull 8 r) (\<lambda>(buf, r). Inr (word_of_int (le_val buf), r))"

section \<open>Variable-length integers and byte strings\<close>

definition ReadVarInt :: "bytes \<Rightarrow> u64 read_result" where
  "ReadVarInt r =
     bindE (Uint8 r) (\<lambda>(discriminant, r).
       if discriminant = 0xff then
         bindE (Uint64 r) (\<lambda>(rv, r). if rv < 0x100000000 then Inl (Err MessageError) else Inr (rv, r))
       else if discriminant = 0xfe then
         bindE (Uint32 r) (\<lambda>(sv, r). let rv = ucast sv in
           if rv < 0x10000 then Inl (Err MessageError) else Inr (rv, r))
       else if discriminant = 0xfd then
         bindE (Uint16 r) (\<lambda>(sv, r). let rv = ucast sv in
           if rv < 0xfd then Inl (Err MessageError) else Inr (rv, r))
       else Inr (ucast discriminant, r))"

definition WriteVarInt :: "u64 \<Rightarrow> bytes" where
  "WriteVarInt val =
     (if val < 0xfd then PutUint8 (ucast val)
      else if val \<le> 0xffff then PutUint8 0xfd @ PutUint16 (ucast val)
      else if val \<le> 0xffffffff then PutUint8 0xfe @ PutUint32 (ucast val)
      else PutUint8 0xff @ PutUint64 val)"

definition VarIntSerializeSize :: "u64 \<Rightarrow> nat" where
  "VarIntSerializeSize val =
     (if val < 0xfd then 1 else if val \<le> 0xffff then 3 else if val \<le> 0xffffffff then 5 else 9)"

definition MaxMessagePayload :: nat where
  "MaxMessagePayload = 2 ^ 31 - 1"

definition WriteVarBytes :: "bytes \<Rightarrow> bytes" where
  "WriteVarBytes bs = WriteVarInt (of_nat (length bs)) @ bs"

definition ReadVarBytes :: "nat \<Rightarrow> bytes \<Rightarrow> bytes read_result" where
  "ReadVarBytes maxAllowed r =
     bindE (ReadVarInt r) (\<lambda>(count, r).
       if unat count > maxAllowed then Inl (Err MessageError) else readFull (unat count) r)"

definition readScript :: "nat \<Rightarrow> bytes \<Rightarrow> bytes read_result" where
  "readScript maxAllowed r =
     bindE (ReadVarInt r) (\<lambda>(count, r).
       if unat count > maxAllowed then Inl (Err MessageError) else readFull (unat count) r)"

text \<open>A loop that reads \<open>n\<close> elements one after the other.\<close>

fun readN :: "(bytes \<Rightarrow> 'a read_result) \<Rightarrow> nat \<Rightarrow> bytes \<Rightarrow> 'a list read_result" where
  "readN dec 0 r = Inr ([], r)"
| "readN dec (Suc n) r =
     bindE (dec r) (\<lambda>(x, r). bindE (readN dec n r) (\<lambda>(xs, r). Inr (x # xs, r)))"

section \<open>The contract of a codec\<close>

locale codec =
  fixes enc :: "'a \<Rightarrow> bytes" and dec :: "bytes \<Rightarrow> 'a read_result" and ok :: "'a \<Rightarrow> bool"
  assumes dec_enc: "ok x \<Longrightarrow> dec (enc x @ rest) = Inr (x, rest)"
    and dec_InrD: "dec r = Inr (x, rest) \<Longrightarrow> ok x \<and> r = enc x @ rest"
    and dec_total: "dec r \<noteq> Inl Panic"
begin

lemma dec_iff: "dec r = Inr (x, rest) \<longleftrightarrow> ok x \<and> r = enc x @ rest"
  using dec_enc [of x rest] dec_InrD [of r x rest] by auto

lemma enc_inject: "ok x \<Longrightarrow> ok y \<Longrightarrow> enc x = enc y \<Longrightarrow> x = y"
  using dec_enc [of x "[]"] dec_enc [of y "[]"] by simp

text \<open>No encoding is a proper prefix of another.\<close>

lemma enc_prefix_free:
  assumes "ok x" "ok y" "enc x @ r = enc y @ s"
  shows "x = y \<and> r = s"
proof -
  have "Inr (x, r) = (Inr (y, s) :: wire_err failure + 'a \<times> bytes)"
    using dec_enc [OF assms(1), of r] dec_enc [OF assms(2), of s] assms(3) by (simp only:)
  then show ?thesis by simp
qed

lemma readN_enc:
  "list_all ok xs \<Longrightarrow> readN dec (length xs) (concat (map enc xs) @ rest) = Inr (xs, rest)"
  by (induction xs) (simp_all add: dec_enc)

lemma readN_InrD: "readN dec n r = Inr (xs, rest) \<Longrightarrow>
    length xs = n \<and> list_all ok xs \<and> r = concat (map enc xs) @ rest"
proof (induction n arbitrary: r xs)
  case (Suc n)
  then obtain x r' xs' where "dec r = Inr (x, r')" "readN dec n r' = Inr (xs', rest)" "xs = x # xs'"
    by (auto simp: bindE_Inr_iff)
  with Suc.IH [of r' xs'] dec_InrD [of r x r'] show ?case by simp
qed simp

lemma readN_total: "readN dec n r \<noteq> Inl Panic"
proof (induction n arbitrary: r)
  case (Suc n)
  show ?case
  proof (cases "dec r")
    case (Inr a)
    then show ?thesis using Suc.IH [of "snd a"]
      by (cases "readN dec n (snd a)") (simp_all add: split_beta)
  qed (use dec_total [of r] in simp)
qed simp

end

section \<open>The primitive codecs fulfil it\<close>

lemma length_putLE [simp]: "length (putLE n x) = n"
  by (induction n arbitrary: x) simp_all

lemma le_val_putLE: "0 \<le> x \<Longrightarrow> le_val (putLE n x) = x mod 256 ^ n"
proof (induction n arbitrary: x)
  case (Suc n)
  have "x mod 256 ^ Suc n = 256 * (x div 256 mod 256 ^ n) + x mod 256"
    using Suc.prems by (simp add: zmod_zmult2_eq)
  then show ?case using Suc by (simp add: uint_word_of_int)
qed simp

lemma putLE_le_val: "putLE (length bs) (le_val bs) = bs"
proof -
  have "le_val (putLE (length bs) (le_val bs)) = le_val bs"
    using le_val_less [of bs] by (simp add: le_val_putLE)
  then show ?thesis by (intro le_val_inject) simp_all
qed

lemma readFull_append [simp]: "length a = n \<Longrightarrow> readFull n (a @ r) = Inr (a, r)"
  by (simp add: readFull_def)

lemma readFull_Inr_iff: "readFull n r = Inr (a, rest) \<longleftrightarrow> length a = n \<and> r = a @ rest"
  by (auto simp: readFull_def)

lemma readFull_total: "readFull n r \<noteq> Inl Panic"
  by (simp add: readFull_def)

lemma fixed_width_codec:
  fixes put :: "'a::len word \<Rightarrow> bytes"
  assumes "\<And>v. put v = putLE n (uint v)" and "LENGTH('a) = 8 * n"
    and "\<And>r. get r = bindE (readFull n r) (\<lambda>(buf, r). Inr (word_of_int (le_val buf), r))"
  shows "codec put get (\<lambda>_. True)"
proof
  have w: "(256 :: int) ^ n = 2 ^ LENGTH('a)" by (simp add: assms(2) power_mult)
  fix v :: "'a word" and r rest :: bytes
  have "uint v mod 256 ^ n = uint v" unfolding w by simp
  then show "get (put v @ rest) = Inr (v, rest)"
    by (simp add: assms(1,3) le_val_putLE)
  show "get r \<noteq> Inl Panic"
    using readFull_total [of n r] by (auto simp: assms(3) bindE_def split: sum.splits)
  assume "get r = Inr (v, rest)"
  then obtain buf where b: "length buf = n" "r = buf @ rest" "v = word_of_int (le_val buf)"
    by (auto simp: assms(3) bindE_Inr_iff readFull_Inr_iff)
  then have "uint v = le_val buf"
    using le_val_less [of buf] w by (simp add: uint_word_of_int)
  with b putLE_le_val [of buf] show "True \<and> r = put v @ rest" by (simp add: assms(1))
qed

interpretation uint16: codec PutUint16 Uint16 "\<lambda>_. True"
  by (rule fixed_width_codec [of _ 2]) (simp_all add: PutUint16_def Uint16_def)

interpretation uint32: codec PutUint32 Uint32 "\<lambda>_. True"
  by (rule fixed_width_codec [of _ 4]) (simp_all add: PutUint32_def Uint32_def)

interpretation uint64: codec PutUint64 Uint64 "\<lambda>_. True"
  by (rule fixed_width_codec [of _ 8]) (simp_all add: PutUint64_def Uint64_def)

lemma Uint8_Cons [simp]: "Uint8 (b # r) = Inr (b, r)"
  by (simp add: Uint8_def readFull_def)

lemma Uint8_Nil [simp]: "Uint8 [] = Inl (Err IOError)"
  by (simp add: Uint8_def readFull_def)

interpretation uint8: codec PutUint8 Uint8 "\<lambda>_. True"
proof
  show "True \<and> r = PutUint8 x @ rest" if "Uint8 r = Inr (x, rest)" for r x rest
    using that by (cases r) (simp_all add: PutUint8_def)
qed (simp_all add: PutUint8_def Uint8_def readFull_def)

lemma uint_ucast_small:
  "uint (v :: 'a::len word) < 2 ^ LENGTH('b) \<Longrightarrow> uint (ucast v :: 'b::len word) = uint v"
  by (simp add: unsigned_ucast_eq take_bit_int_eq_self)

lemma ucast_ucast_small:
  "uint (v :: 'a::len word) < 2 ^ LENGTH('b) \<Longrightarrow> ucast (ucast v :: 'b::len word) = v"
  by (simp add: word_uint_eq_iff unsigned_ucast_eq unsigned_take_bit_eq take_bit_int_eq_self)

lemma ucast_wider:
  "LENGTH('a) \<le> LENGTH('b) \<Longrightarrow> uint (ucast (v :: 'a::len word) :: 'b::len word) = uint v"
proof -
  assume "LENGTH('a) \<le> LENGTH('b)"
  then have "(2 :: int) ^ LENGTH('a) \<le> 2 ^ LENGTH('b)" by simp
  then have "uint v < 2 ^ LENGTH('b)" using uint_lt2p [of v] by linarith
  then show ?thesis by (rule uint_ucast_small)
qed

lemma ReadVarInt_WriteVarInt: "ReadVarInt (WriteVarInt v @ rest) = Inr (v, rest)"
proof -
  consider (a) "uint v < 253" | (b) "253 \<le> uint v" "uint v < 65536"
    | (c) "65536 \<le> uint v" "uint v < 4294967296" | (d) "4294967296 \<le> uint v"
    by linarith
  then show ?thesis
  proof cases
    case a
    then have "uint (ucast v :: u8) = uint v" "ucast (ucast v :: u8) = v"
      by (simp_all add: uint_ucast_small ucast_ucast_small)
    with a show ?thesis
      by (auto simp: ReadVarInt_def WriteVarInt_def PutUint8_def word_less_def word_uint_eq_iff)
  next
    case b
    then have "ucast (ucast v :: u16) = v" by (simp add: ucast_ucast_small)
    with b show ?thesis
      by (simp add: ReadVarInt_def WriteVarInt_def PutUint8_def word_less_def word_le_def uint16.dec_enc)
  next
    case c
    then have "ucast (ucast v :: u32) = v" by (simp add: ucast_ucast_small)
    with c show ?thesis
      by (simp add: ReadVarInt_def WriteVarInt_def PutUint8_def word_less_def word_le_def uint32.dec_enc)
  next
    case d
    then show ?thesis
      by (simp add: ReadVarInt_def WriteVarInt_def PutUint8_def word_less_def word_le_def uint64.dec_enc)
  qed
qed

lemma ReadVarInt_InrD:
  assumes "ReadVarInt r = Inr (v, rest)"
  shows "r = WriteVarInt v @ rest"
proof -
  from assms obtain d r' where r: "r = d # r'" by (cases r) (auto simp: ReadVarInt_def)
  consider (a) "d = 0xff" | (b) "d = 0xfe" | (c) "d = 0xfd" | (e) "d \<notin> {0xff, 0xfe, 0xfd}" by auto
  then show ?thesis
  proof cases
    case a
    with assms r have "Uint64 r' = Inr (v, rest)" "\<not> v < 0x100000000"
      by (auto simp: ReadVarInt_def bindE_Inr_iff split: if_splits)
    with a r show ?thesis
      by (auto simp: WriteVarInt_def PutUint8_def word_less_def word_le_def dest: uint64.dec_InrD)
  next
    case b
    with assms r obtain sv where *: "Uint32 r' = Inr (sv, rest)" "v = ucast sv" "\<not> v < 0x10000"
      by (auto simp: ReadVarInt_def bindE_Inr_iff Let_def split: if_splits)
    have "uint v = uint sv" "ucast v = sv" "uint sv < 4294967296"
      using *(2) uint_lt2p [of sv] by (simp_all add: ucast_wider ucast_ucast_small uint_ucast_small)
    with b r * show ?thesis
      by (auto simp: WriteVarInt_def PutUint8_def word_less_def word_le_def dest: uint32.dec_InrD)
  next
    case c
    with assms r obtain sv where *: "Uint16 r' = Inr (sv, rest)" "v = ucast sv" "\<not> v < 0xfd"
      by (auto simp: ReadVarInt_def bindE_Inr_iff Let_def split: if_splits)
    have "uint v = uint sv" "ucast v = sv" "uint sv < 65536"
      using *(2) uint_lt2p [of sv] by (simp_all add: ucast_wider ucast_ucast_small uint_ucast_small)
    with c r * show ?thesis
      by (auto simp: WriteVarInt_def PutUint8_def word_less_def word_le_def dest: uint16.dec_InrD)
  next
    case e
    with assms r have v: "v = ucast d" "rest = r'" by (simp_all add: ReadVarInt_def)
    have "uint v = uint d" "ucast v = d"
      using v(1) uint_u8_bounds(2) [of d] by (simp_all add: ucast_wider ucast_ucast_small)
    moreover have "uint d < 253" using e uint_u8_bounds(2) [of d]
      by (simp add: word_uint_eq_iff)
    ultimately show ?thesis using v r by (simp add: WriteVarInt_def PutUint8_def word_less_def)
  qed
qed

lemma ReadVarInt_total: "ReadVarInt r \<noteq> Inl Panic"
proof (cases r)
  case (Cons d r')
  then show ?thesis
    using uint64.dec_total [of r'] uint32.dec_total [of r'] uint16.dec_total [of r']
    by (cases "Uint64 r'"; cases "Uint32 r'"; cases "Uint16 r'")
       (auto simp: ReadVarInt_def Let_def split: prod.splits)
qed (simp add: ReadVarInt_def)

interpretation varint: codec WriteVarInt ReadVarInt "\<lambda>_. True"
  using ReadVarInt_WriteVarInt ReadVarInt_InrD ReadVarInt_total by unfold_locales auto

lemma length_WriteVarInt: "length (WriteVarInt v) = VarIntSerializeSize v"
  by (simp add: WriteVarInt_def VarIntSerializeSize_def PutUint8_def PutUint16_def PutUint32_def
      PutUint64_def)

text \<open>The byte strings no longer than \<open>n\<close> bytes; \<open>n\<close> is always below $2^{64}$.\<close>

lemma readScript_codec:
  assumes "n < 2 ^ 64"
  shows "codec WriteVarBytes (readScript n) (\<lambda>bs. length bs \<le> n)"
proof
  fix bs r rest
  have u: "unat (of_nat k :: u64) = k" if "k \<le> n" for k
    using that assms by (simp add: unat_of_nat)
  show "readScript n (WriteVarBytes bs @ rest) = Inr (bs, rest)" if "length bs \<le> n"
    using that u [of "length bs"] by (simp add: readScript_def WriteVarBytes_def varint.dec_enc)
  show "readScript n r \<noteq> Inl Panic"
    using varint.dec_total [of r] readFull_total
    by (cases "ReadVarInt r") (auto simp: readScript_def split: prod.splits)
  assume "readScript n r = Inr (bs, rest)"
  then obtain c r' where "ReadVarInt r = Inr (c, r')" "unat c \<le> n" "readFull (unat c) r' = Inr (bs, rest)"
    by (auto simp: readScript_def bindE_Inr_iff split: if_splits)
  moreover from this(3) have "length bs = unat c" "r' = bs @ rest" by (simp_all add: readFull_Inr_iff)
  ultimately show "length bs \<le> n \<and> r = WriteVarBytes bs @ rest"
    using varint.dec_InrD [of r c r'] by (simp add: WriteVarBytes_def)
qed

lemma readScript_ReadVarBytes: "readScript = ReadVarBytes"
  by (simp add: fun_eq_iff readScript_def ReadVarBytes_def)

interpretation script: codec WriteVarBytes "readScript MaxMessagePayload"
    "\<lambda>bs. length bs \<le> MaxMessagePayload"
  by (rule readScript_codec) (simp add: MaxMessagePayload_def)

section \<open>Properties\<close>

text \<open>C37. Variable-length integers are canonical: reading succeeds with \<open>v\<close> exactly when the
  input starts with the bytes that are written for \<open>v\<close>, and what is left is the rest of the input.
  So every 64-bit value is read back as written, and no other spelling of it is accepted.\<close>

theorem varint_canonical: "ReadVarInt r = Inr (v, rest) \<longleftrightarrow> r = WriteVarInt v @ rest"
  using varint.dec_iff by simp

end
