(* ===== verification/TxWire.thy ===== *)
theory TxWire
  imports Wire
begin

text \<open>
  Transactions and their serialisation (\<^verbatim>\<open>types/wire/msg_tx.go\<close>): the encoder and the decoder
  with and without witness data, the size functions, the transaction hashes and \<^verbatim>\<open>Copy\<close>. The
  field \<open>Age\<close> of an input is run-time information of the node that is never serialised. A nil
  slice and an empty slice are the same list. The one hash function, \<^verbatim>\<open>chainhash.DoubleHashH\<close>, is
  the parameter \<open>H\<close>.
\<close>

section \<open>Data\<close>

record OutPoint =
  Hash :: bytes
  Index :: u32

record TxIn =
  PreviousOutPoint :: OutPoint
  SignatureScript :: bytes
  Witness :: "bytes list"
  Sequence :: u32
  Age :: int

record TxOut =
  Value :: int
  PkScript :: bytes

record MsgTx =
  Version :: int
  TxIns :: "TxIn list"
  TxOuts :: "TxOut list"
  LockTime :: u32

datatype MessageEncoding = BaseEncoding | WitnessEncoding

definition MaxBlockPayload :: nat where
  "MaxBlockPayload = 768 * 1024"

definition maxTxInPerMessage :: nat where
  "maxTxInPerMessage = MaxBlockPayload div (9 + 32) + 1"

definition maxTxOutPerMessage :: nat where
  "maxTxOutPerMessage = MaxBlockPayload div 9 + 1"

definition maxWitnessItemsPerInput :: nat where
  "maxWitnessItemsPerInput = 500000"

definition maxWitnessItemSize :: nat where
  "maxWitnessItemSize = 11000"

definition NewTxIn :: "OutPoint \<Rightarrow> bytes \<Rightarrow> bytes list \<Rightarrow> TxIn" where
  "NewTxIn prevOut signatureScript witness =
     \<lparr>PreviousOutPoint = prevOut, SignatureScript = signatureScript, Witness = witness,
      Sequence = 0xffffffff, Age = 0\<rparr>"

definition NewTxOut :: "int \<Rightarrow> bytes \<Rightarrow> TxOut" where
  "NewTxOut value pkScript = \<lparr>Value = value, PkScript = pkScript\<rparr>"

definition NewMsgTx :: "int \<Rightarrow> MsgTx" where
  "NewMsgTx version = \<lparr>Version = version, TxIns = [], TxOuts = [], LockTime = 0\<rparr>"

definition AddTxIn :: "MsgTx \<Rightarrow> TxIn \<Rightarrow> MsgTx" where
  "AddTxIn msg ti = msg\<lparr>TxIns := TxIns msg @ [ti]\<rparr>"

definition AddTxOut :: "MsgTx \<Rightarrow> TxOut \<Rightarrow> MsgTx" where
  "AddTxOut msg to = msg\<lparr>TxOuts := TxOuts msg @ [to]\<rparr>"

definition SwapTx :: "MsgTx \<Rightarrow> bool" where
  "SwapTx msg \<longleftrightarrow> Version msg = 4"

text \<open>\<^verbatim>\<open>Copy\<close> builds its inputs field by field; \<open>Age\<close> is not among the fields.\<close>

definition CopyTxIn :: "TxIn \<Rightarrow> TxIn" where
  "CopyTxIn ti =
     \<lparr>PreviousOutPoint = \<lparr>Hash = Hash (PreviousOutPoint ti), Index = Index (PreviousOutPoint ti)\<rparr>,
      SignatureScript = SignatureScript ti, Witness = Witness ti, Sequence = Sequence ti, Age = 0\<rparr>"

definition CopyTx :: "MsgTx \<Rightarrow> MsgTx" where
  "CopyTx msg =
     \<lparr>Version = Version msg, TxIns = map CopyTxIn (TxIns msg),
      TxOuts = map (\<lambda>to. \<lparr>Value = Value to, PkScript = PkScript to\<rparr>) (TxOuts msg),
      LockTime = LockTime msg\<rparr>"

section \<open>Writing\<close>

definition writeOutPoint :: "OutPoint \<Rightarrow> bytes" where
  "writeOutPoint op = Hash op @ PutUint32 (Index op)"

definition writeTxIn :: "TxIn \<Rightarrow> bytes" where
  "writeTxIn ti = writeOutPoint (PreviousOutPoint ti) @ WriteVarBytes (SignatureScript ti) @
     PutUint32 (Sequence ti)"

definition WriteTxOut :: "TxOut \<Rightarrow> bytes" where
  "WriteTxOut to = PutUint64 (word_of_int (Value to)) @ WriteVarBytes (PkScript to)"

definition writeTxWitness :: "bytes list \<Rightarrow> bytes" where
  "writeTxWitness wit = WriteVarInt (of_nat (length wit)) @ concat (map WriteVarBytes wit)"

definition HasWitness :: "MsgTx \<Rightarrow> bool" where
  "HasWitness msg = list_ex (\<lambda>ti. length (Witness ti) \<noteq> 0) (TxIns msg)"

definition BtcEncode :: "MsgTx \<Rightarrow> MessageEncoding \<Rightarrow> bytes" where
  "BtcEncode msg enc =
     (let doWitness = (enc = WitnessEncoding \<and> HasWitness msg)
      in PutUint32 (word_of_int (Version msg)) @
         (if doWitness then [0x00, 0x01] else []) @
         WriteVarInt (of_nat (length (TxIns msg))) @ concat (map writeTxIn (TxIns msg)) @
         WriteVarInt (of_nat (length (TxOuts msg))) @ concat (map WriteTxOut (TxOuts msg)) @
         (if doWitness then concat (map (\<lambda>ti. writeTxWitness (Witness ti)) (TxIns msg)) else []) @
         PutUint32 (LockTime msg))"

definition Serialize :: "MsgTx \<Rightarrow> bytes" where
  "Serialize msg = BtcEncode msg WitnessEncoding"

definition SerializeNoWitness :: "MsgTx \<Rightarrow> bytes" where
  "SerializeNoWitness msg = BtcEncode msg BaseEncoding"

section \<open>Sizes and hashes\<close>

definition TxIn_SerializeSize :: "TxIn \<Rightarrow> nat" where
  "TxIn_SerializeSize t = 40 + VarIntSerializeSize (of_nat (length (SignatureScript t))) +
     length (SignatureScript t)"

definition TxWitness_SerializeSize :: "bytes list \<Rightarrow> nat" where
  "TxWitness_SerializeSize t = fold (\<lambda>witItem n. n + VarIntSerializeSize (of_nat (length witItem)) +
     length witItem) t (VarIntSerializeSize (of_nat (length t)))"

definition TxOut_SerializeSize :: "TxOut \<Rightarrow> nat" where
  "TxOut_SerializeSize t = 8 + VarIntSerializeSize (of_nat (length (PkScript t))) + length (PkScript t)"

definition baseSize :: "MsgTx \<Rightarrow> nat" where
  "baseSize msg =
     (let n = 8 + VarIntSerializeSize (of_nat (length (TxIns msg))) +
              VarIntSerializeSize (of_nat (length (TxOuts msg)));
          n = fold (\<lambda>ti n. n + TxIn_SerializeSize ti) (TxIns msg) n
      in fold (\<lambda>to n. n + TxOut_SerializeSize to) (TxOuts msg) n)"

definition SerializeSize :: "MsgTx \<Rightarrow> nat" where
  "SerializeSize msg =
     (let n = baseSize msg
      in if HasWitness msg
         then fold (\<lambda>ti n. n + TxWitness_SerializeSize (Witness ti)) (TxIns msg) (n + 2) else n)"

definition SerializeSizeStripped :: "MsgTx \<Rightarrow> nat" where
  "SerializeSizeStripped msg = baseSize msg"

definition TxHash :: "(bytes \<Rightarrow> bytes) \<Rightarrow> MsgTx \<Rightarrow> bytes" where
  "TxHash H msg = H (SerializeNoWitness msg)"

definition WitnessHash :: "(bytes \<Rightarrow> bytes) \<Rightarrow> MsgTx \<Rightarrow> bytes" where
  "WitnessHash H msg = (if HasWitness msg then H (Serialize msg) else TxHash H msg)"

section \<open>Reading\<close>

definition readOutPoint :: "bytes \<Rightarrow> OutPoint read_result" where
  "readOutPoint r = bindE (readFull 32 r) (\<lambda>(h, r). bindE (Uint32 r) (\<lambda>(i, r).
     Inr (\<lparr>Hash = h, Index = i\<rparr>, r)))"

definition readTxIn :: "bytes \<Rightarrow> TxIn read_result" where
  "readTxIn r = bindE (readOutPoint r) (\<lambda>(op, r).
     bindE (readScript MaxMessagePayload r) (\<lambda>(s, r).
     bindE (Uint32 r) (\<lambda>(sq, r).
       Inr (\<lparr>PreviousOutPoint = op, SignatureScript = s, Witness = [], Sequence = sq, Age = 0\<rparr>, r))))"

definition readTxOut :: "bytes \<Rightarrow> TxOut read_result" where
  "readTxOut r = bindE (Uint64 r) (\<lambda>(v, r). bindE (readScript MaxMessagePayload r) (\<lambda>(s, r).
     Inr (\<lparr>Value = sint v, PkScript = s\<rparr>, r)))"

text \<open>The witness of one input: the body of the witness loop of \<^verbatim>\<open>BtcDecode\<close>.\<close>

definition readTxWitness :: "bytes \<Rightarrow> bytes list read_result" where
  "readTxWitness r = bindE (ReadVarInt r) (\<lambda>(witCount, r).
     if unat witCount > maxWitnessItemsPerInput then Inl (Err MessageError)
     else readN (readScript maxWitnessItemSize) (unat witCount) r)"

definition BtcDecode :: "bytes \<Rightarrow> MessageEncoding \<Rightarrow> MsgTx read_result" where
  "BtcDecode r enc =
     bindE (Uint32 r) (\<lambda>(version, r).
     bindE (ReadVarInt r) (\<lambda>(count, r).
     bindE (if count = 0 \<and> enc = WitnessEncoding then
              bindE (readFull 1 r) (\<lambda>(flag, r).
                if flag ! 0 \<noteq> 0x01 then Inl (Err MessageError)
                else bindE (ReadVarInt r) (\<lambda>(count, r). Inr (flag ! 0, count, r)))
            else Inr (0, count, r)) (\<lambda>(flag, count, r).
     if unat count > maxTxInPerMessage then Inl (Err MessageError)
     else bindE (readN readTxIn (unat count) r) (\<lambda>(ins, r).
     bindE (ReadVarInt r) (\<lambda>(count, r).
     if unat count > maxTxOutPerMessage then Inl (Err MessageError)
     else bindE (readN readTxOut (unat count) r) (\<lambda>(outs, r).
     bindE (if flag \<noteq> 0 \<and> enc = WitnessEncoding then
              bindE (readN readTxWitness (length ins) r) (\<lambda>(ws, r).
                Inr (map2 (\<lambda>ti w. ti\<lparr>Witness := w\<rparr>) ins ws, r))
            else Inr (ins, r)) (\<lambda>(ins, r).
     bindE (Uint32 r) (\<lambda>(lockTime, r).
       Inr (\<lparr>Version = sint version, TxIns = ins, TxOuts = outs, LockTime = lockTime\<rparr>, r)))))))))"

section \<open>Inputs, outputs and witnesses are codecs\<close>

definition txin_ok :: "TxIn \<Rightarrow> bool" where
  "txin_ok ti \<longleftrightarrow> length (Hash (PreviousOutPoint ti)) = 32 \<and>
     length (SignatureScript ti) \<le> MaxMessagePayload \<and> Age ti = 0"

definition txout_ok :: "TxOut \<Rightarrow> bool" where
  "txout_ok to \<longleftrightarrow> - (2 ^ 63) \<le> Value to \<and> Value to < 2 ^ 63 \<and> length (PkScript to) \<le> MaxMessagePayload"

definition witness_ok :: "bytes list \<Rightarrow> bool" where
  "witness_ok w \<longleftrightarrow> length w \<le> maxWitnessItemsPerInput \<and> list_all (\<lambda>b. length b \<le> maxWitnessItemSize) w"

lemma sint_word_of_int_64: "- (2 ^ 63) \<le> x \<Longrightarrow> x < 2 ^ 63 \<Longrightarrow> sint (word_of_int x :: u64) = x"
  by (simp add: sint_sbintrunc' signed_take_bit_int_eq_self)

lemma sint_word_of_int_32: "- (2 ^ 31) \<le> x \<Longrightarrow> x < 2 ^ 31 \<Longrightarrow> sint (word_of_int x :: u32) = x"
  by (simp add: sint_sbintrunc' signed_take_bit_int_eq_self)

lemma sint_bounds_64: "- (2 ^ 63) \<le> sint (w :: u64)" "sint (w :: u64) < 2 ^ 63"
  using sint_range_size [of w] by (simp_all add: word_size)

lemma sint_bounds_32: "- (2 ^ 31) \<le> sint (w :: u32)" "sint (w :: u32) < 2 ^ 31"
  using sint_range_size [of w] by (simp_all add: word_size)

interpretation outpoint: codec writeOutPoint readOutPoint "\<lambda>op. length (Hash op) = 32"
proof
  fix op r rest
  show "length (Hash op) = 32 \<Longrightarrow> readOutPoint (writeOutPoint op @ rest) = Inr (op, rest)"
    by (simp add: readOutPoint_def writeOutPoint_def uint32.dec_enc)
  show "readOutPoint r \<noteq> Inl Panic"
    unfolding readOutPoint_def by (intro bindE_pair_not_Panic readFull_total uint32.dec_total) simp
  show "readOutPoint r = Inr (op, rest) \<Longrightarrow> length (Hash op) = 32 \<and> r = writeOutPoint op @ rest"
    by (auto simp: readOutPoint_def writeOutPoint_def bindE_Inr_iff readFull_Inr_iff uint32.dec_iff)
qed

interpretation txin: codec writeTxIn readTxIn "\<lambda>ti. txin_ok ti \<and> Witness ti = []"
proof
  fix ti r rest
  show "txin_ok ti \<and> Witness ti = [] \<Longrightarrow> readTxIn (writeTxIn ti @ rest) = Inr (ti, rest)"
    by (simp add: readTxIn_def writeTxIn_def txin_ok_def outpoint.dec_enc script.dec_enc uint32.dec_enc)
  show "readTxIn r \<noteq> Inl Panic"
    unfolding readTxIn_def
    by (intro bindE_pair_not_Panic outpoint.dec_total script.dec_total uint32.dec_total) simp
  show "readTxIn r = Inr (ti, rest) \<Longrightarrow> (txin_ok ti \<and> Witness ti = []) \<and> r = writeTxIn ti @ rest"
    by (auto simp: readTxIn_def writeTxIn_def txin_ok_def bindE_Inr_iff outpoint.dec_iff script.dec_iff
        uint32.dec_iff)
qed

interpretation txout: codec WriteTxOut readTxOut txout_ok
proof
  fix to r rest
  show "txout_ok to \<Longrightarrow> readTxOut (WriteTxOut to @ rest) = Inr (to, rest)"
    by (simp add: readTxOut_def WriteTxOut_def txout_ok_def script.dec_enc uint64.dec_enc
        sint_word_of_int_64)
  show "readTxOut r \<noteq> Inl Panic"
    unfolding readTxOut_def by (intro bindE_pair_not_Panic script.dec_total uint64.dec_total) simp
  show "readTxOut r = Inr (to, rest) \<Longrightarrow> txout_ok to \<and> r = WriteTxOut to @ rest"
    using sint_bounds_64
    by (auto simp: readTxOut_def WriteTxOut_def txout_ok_def bindE_Inr_iff script.dec_iff uint64.dec_iff)
qed

interpretation witness_item: codec WriteVarBytes "readScript maxWitnessItemSize"
    "\<lambda>b. length b \<le> maxWitnessItemSize"
  by (rule readScript_codec) (simp add: maxWitnessItemSize_def)

lemma unat_of_nat_64: "n < 2 ^ 64 \<Longrightarrow> unat (of_nat n :: u64) = n"
  by (simp add: unat_of_nat)

interpretation witness_stack: codec writeTxWitness readTxWitness witness_ok
proof
  fix w r rest
  show "witness_ok w \<Longrightarrow> readTxWitness (writeTxWitness w @ rest) = Inr (w, rest)"
    by (simp add: readTxWitness_def writeTxWitness_def witness_ok_def varint.dec_enc
        unat_of_nat_64 maxWitnessItemsPerInput_def witness_item.readN_enc)
  show "readTxWitness r \<noteq> Inl Panic"
    unfolding readTxWitness_def
    by (intro bindE_pair_not_Panic varint.dec_total) (simp add: witness_item.readN_total)
  assume "readTxWitness r = Inr (w, rest)"
  then obtain c r' where "ReadVarInt r = Inr (c, r')" "unat c \<le> maxWitnessItemsPerInput"
      "readN (readScript maxWitnessItemSize) (unat c) r' = Inr (w, rest)"
    by (auto simp: readTxWitness_def bindE_Inr_iff split: if_splits)
  with varint.dec_InrD [of r c r'] witness_item.readN_InrD [OF this(3)]
  show "witness_ok w \<and> r = writeTxWitness w @ rest"
    by (auto simp: witness_ok_def writeTxWitness_def)
qed

section \<open>Whole transactions\<close>

text \<open>The transactions the protocol can carry, and the part of one that its hash covers.\<close>

definition tx_ok :: "MsgTx \<Rightarrow> bool" where
  "tx_ok tx \<longleftrightarrow> - (2 ^ 31) \<le> Version tx \<and> Version tx < 2 ^ 31 \<and>
     length (TxIns tx) \<le> maxTxInPerMessage \<and> length (TxOuts tx) \<le> maxTxOutPerMessage \<and>
     list_all (\<lambda>ti. txin_ok ti \<and> witness_ok (Witness ti)) (TxIns tx) \<and> list_all txout_ok (TxOuts tx)"

definition stripWitness :: "MsgTx \<Rightarrow> MsgTx" where
  "stripWitness tx = tx\<lparr>TxIns := map (\<lambda>ti. ti\<lparr>Witness := []\<rparr>) (TxIns tx)\<rparr>"

lemma writeTxIn_Witness [simp]: "writeTxIn (ti\<lparr>Witness := w\<rparr>) = writeTxIn ti"
  by (simp add: writeTxIn_def)

lemma not_HasWitness: "\<not> HasWitness tx \<longleftrightarrow> stripWitness tx = tx"
proof -
  have "(\<forall>ti\<in>set xs. Witness ti = []) \<longleftrightarrow> map (\<lambda>ti. ti\<lparr>Witness := []\<rparr>) xs = xs" for xs :: "TxIn list"
    by (induction xs) (auto, metis TxIn.select_convs(3) TxIn.surjective TxIn.update_convs(3))
  then show ?thesis
    by (cases tx) (auto simp: HasWitness_def stripWitness_def list_ex_iff)
qed

lemma HasWitness_strip [simp]: "\<not> HasWitness (stripWitness tx)"
  by (simp add: HasWitness_def stripWitness_def list_ex_iff)

lemma readTxIns: "list_all txin_ok ins \<Longrightarrow>
    readN readTxIn (length ins) (concat (map writeTxIn ins) @ rest) =
      Inr (map (\<lambda>ti. ti\<lparr>Witness := []\<rparr>) ins, rest)"
  using txin.readN_enc [of "map (\<lambda>ti. ti\<lparr>Witness := []\<rparr>) ins" rest]
  by (simp add: comp_def list_all_iff txin_ok_def)

lemma rejoin_witness: "map2 (\<lambda>ti w. ti\<lparr>Witness := w\<rparr>) (map (\<lambda>ti. ti\<lparr>Witness := []\<rparr>) ins) (map Witness ins) = ins"
  by (induction ins) simp_all

lemma readTxWitnesses: "list_all (\<lambda>ti. witness_ok (Witness ti)) ins \<Longrightarrow>
    readN readTxWitness (length ins) (concat (map (\<lambda>ti. writeTxWitness (Witness ti)) ins) @ rest) =
      Inr (map Witness ins, rest)"
  using witness_stack.readN_enc [of "map Witness ins" rest] by (simp add: list_all_iff comp_def)

text \<open>
  The two forms of a transaction on the wire, with the marker, the flag and one witness per input
  (\<open>m\<close>) or without; \<^const>\<open>BtcEncode\<close> uses the first for transactions that have a witness.
\<close>

definition wire_form :: "bool \<Rightarrow> MsgTx \<Rightarrow> bytes" where
  "wire_form m tx = PutUint32 (word_of_int (Version tx)) @ (if m then [0x00, 0x01] else []) @
     WriteVarInt (of_nat (length (TxIns tx))) @ concat (map writeTxIn (TxIns tx)) @
     WriteVarInt (of_nat (length (TxOuts tx))) @ concat (map WriteTxOut (TxOuts tx)) @
     (if m then concat (map (\<lambda>ti. writeTxWitness (Witness ti)) (TxIns tx)) else []) @
     PutUint32 (LockTime tx)"

lemma BtcEncode_wire_form: "BtcEncode tx enc = wire_form (enc = WitnessEncoding \<and> HasWitness tx) tx"
  by (simp add: BtcEncode_def wire_form_def Let_def)

lemma wire_form_strip: "wire_form False (stripWitness tx) = wire_form False tx"
  by (simp add: wire_form_def stripWitness_def comp_def)

lemma tx_ok_lengths: "tx_ok tx \<Longrightarrow> length (TxIns tx) < 2 ^ 64" "tx_ok tx \<Longrightarrow> length (TxOuts tx) < 2 ^ 64"
  by (simp_all add: tx_ok_def maxTxInPerMessage_def maxTxOutPerMessage_def MaxBlockPayload_def)

lemma BtcDecode_base:
  assumes "tx_ok tx" "\<not> HasWitness tx" "enc = BaseEncoding \<or> TxIns tx \<noteq> []"
  shows "BtcDecode (wire_form False tx @ rest) enc = Inr (tx, rest)"
proof -
  note b = tx_ok_lengths [OF assms(1)]
  have z: "(of_nat (length (TxIns tx)) :: u64) \<noteq> 0 \<or> enc = BaseEncoding"
    using assms(3) b(1) unat_of_nat_64 [OF b(1)] by (auto simp: word_unat_eq_iff)
  have s: "map (\<lambda>ti. ti\<lparr>Witness := []\<rparr>) (TxIns tx) = TxIns tx"
    using assms(2) not_HasWitness [of tx] by (metis MsgTx.select_convs(2) MsgTx.surjective MsgTx.update_convs(2) stripWitness_def)
  show ?thesis
    using assms z b s unfolding BtcDecode_def wire_form_def
    by (cases tx) (auto simp: tx_ok_def uint32.dec_enc varint.dec_enc unat_of_nat_64 readTxIns
        txout.readN_enc sint_word_of_int_32 list_all_iff)
qed

lemma ReadVarInt_marker: "ReadVarInt (0 # r) = Inr (0, r)"
  using varint.dec_enc [of 0 r] by (simp add: WriteVarInt_def PutUint8_def)

lemma BtcDecode_witness:
  assumes "tx_ok tx"
  shows "BtcDecode (wire_form True tx @ rest) WitnessEncoding = Inr (tx, rest)"
proof -
  note b = tx_ok_lengths [OF assms(1)]
  have f: "readFull (Suc 0) (1 # r) = Inr ([1], r)" for r :: bytes by (simp add: readFull_def)
  show ?thesis
    using assms b unfolding BtcDecode_def wire_form_def
    by (cases tx) (simp add: tx_ok_def uint32.dec_enc varint.dec_enc unat_of_nat_64 readTxIns
        txout.readN_enc sint_word_of_int_32 list_all_iff ReadVarInt_marker f readTxWitnesses rejoin_witness)
qed

lemma join_witness:
  assumes "length ws = length ins"
  defines "js \<equiv> map2 (\<lambda>ti w. ti\<lparr>Witness := w\<rparr>) ins ws"
  shows "length js = length ins" "map writeTxIn js = map writeTxIn ins" "map Witness js = ws"
    "list_all txin_ok js = list_all txin_ok ins"
  using assms(1) unfolding js_def
  by (induction ws ins rule: list_induct2) (simp_all add: txin_ok_def)

lemma BtcDecode_elim:
  assumes "BtcDecode r enc = Inr (tx, rest)"
  obtains v r1 c0 r2 flag c r3 ins r4 d r5 outs r6 ins' r7 lt r8 where
    "Uint32 r = Inr (v, r1)" "ReadVarInt r1 = Inr (c0, r2)"
    "(if c0 = 0 \<and> enc = WitnessEncoding then
        bindE (readFull 1 r2) (\<lambda>(flag, r). if flag ! 0 \<noteq> 0x01 then Inl (Err MessageError)
          else bindE (ReadVarInt r) (\<lambda>(count, r). Inr (flag ! 0, count, r)))
      else Inr (0, c0, r2)) = Inr (flag, c, r3)"
    "\<not> maxTxInPerMessage < unat c" "readN readTxIn (unat c) r3 = Inr (ins, r4)"
    "ReadVarInt r4 = Inr (d, r5)" "\<not> maxTxOutPerMessage < unat d"
    "readN readTxOut (unat d) r5 = Inr (outs, r6)"
    "(if flag \<noteq> 0 \<and> enc = WitnessEncoding then
        bindE (readN readTxWitness (length ins) r6) (\<lambda>(ws, r).
          Inr (map2 (\<lambda>ti w. ti\<lparr>Witness := w\<rparr>) ins ws, r))
      else Inr (ins, r6)) = Inr (ins', r7)"
    "Uint32 r7 = Inr (lt, r8)"
    "Inr (\<lparr>Version = sint v, TxIns = ins', TxOuts = outs, LockTime = lt\<rparr>, r8) =
       (Inr (tx, rest) :: MsgTx read_result)"
  using assms unfolding BtcDecode_def
  by (elim bindE_pairE bindE_tripleE if_InlE) (rule that, assumption+)

lemma BtcDecode_InrD:
  assumes "BtcDecode r enc = Inr (tx, rest)"
  shows "tx_ok tx \<and> (\<exists>m. r = wire_form m tx @ rest \<and>
    (if m then enc = WitnessEncoding else \<not> HasWitness tx \<and> (enc = BaseEncoding \<or> TxIns tx \<noteq> [])))"
  using assms
proof (rule BtcDecode_elim, goal_cases)
  case (1 v r1 c0 r2 flag c r3 ins r4 d r5 outs r6 ins' r7 lt r8)
  note 2 = 1(3) and 3 = 1(4-8) and 4 = 1(9) and 5 = 1(10,11) and 1 = 1(1,2)
  have "c = of_nat (length ins)" "d = of_nat (length outs)"
    using txin.readN_InrD [OF 3(2)] txout.readN_InrD [OF 3(5)] by simp_all
  note dec = uint32.dec_InrD [OF 1(1)] varint.dec_InrD [OF 1(2)] txin.readN_InrD [OF 3(2)]
    varint.dec_InrD [OF 3(3)] txout.readN_InrD [OF 3(5)] uint32.dec_InrD [OF 5(1)] this
  show ?thesis
  proof (cases "c0 = 0 \<and> enc = WitnessEncoding")
    case True
    with 2 obtain r2' where r2: "r2 = 0x01 # r2'" "ReadVarInt r2' = Inr (c, r3)" "flag = 0x01"
      by (auto simp: bindE_Inr_iff readFull_Inr_iff length_Suc_conv split: if_splits)
    from 4 True this obtain ws where ws: "readN readTxWitness (length ins) r6 = Inr (ws, r7)"
        "ins' = map2 (\<lambda>ti w. ti\<lparr>Witness := w\<rparr>) ins ws"
      by (auto simp: bindE_Inr_iff)
    note w = witness_stack.readN_InrD [OF ws(1)]
    with join_witness [of ws ins, folded ws(2)] have j: "length ins' = length ins"
      "map writeTxIn ins' = map writeTxIn ins" "map Witness ins' = ws" "list_all txin_ok ins'"
      using dec(3) by (simp_all add: list_all_iff)
    then have "map (\<lambda>ti. writeTxWitness (Witness ti)) ins' = map writeTxWitness ws"
      "list_all (\<lambda>ti. txin_ok ti \<and> witness_ok (Witness ti)) ins'"
      using w by (auto simp: list_all_iff comp_def)
    moreover have "WriteVarInt 0 = [0]" by (simp add: WriteVarInt_def PutUint8_def)
    moreover have "tx = \<lparr>Version = sint v, TxIns = ins', TxOuts = outs, LockTime = lt\<rparr>" "r8 = rest"
      using 5(2) by simp_all
    moreover have "r = PutUint32 v @ WriteVarInt c0 @ 0x01 # WriteVarInt c @ concat (map writeTxIn ins) @
        WriteVarInt d @ concat (map WriteTxOut outs) @ concat (map writeTxWitness ws) @ PutUint32 lt @ r8"
      using dec(1-6) w varint.dec_InrD [OF r2(2)] r2(1) by (simp only: append_assoc append_Cons)
    moreover have "length ins \<le> maxTxInPerMessage" "length outs \<le> maxTxOutPerMessage"
      "list_all txout_ok outs" using dec(3,5) 3(1,4) by simp_all
    ultimately have "r = wire_form True tx @ rest" "tx_ok tx"
      using True j(1,2) dec(7,8) sint_bounds_32 [of v] by (simp_all add: wire_form_def tx_ok_def)
    then show ?thesis using True by (intro conjI exI [of _ True]) simp_all
  next
    case False
    with 2 4 have f: "flag = 0" "c0 = c" "r2 = r3" "ins' = ins" "r7 = r6" by auto
    have "tx = \<lparr>Version = sint v, TxIns = ins, TxOuts = outs, LockTime = lt\<rparr>" "r8 = rest"
      using 5(2) f(4) by simp_all
    moreover have "r = PutUint32 v @ WriteVarInt c @ concat (map writeTxIn ins) @
        WriteVarInt d @ concat (map WriteTxOut outs) @ PutUint32 lt @ r8"
      using dec(1-6) f(2,3,5) by (simp only: append_assoc append_Cons)
    moreover have "length ins \<le> maxTxInPerMessage" "length outs \<le> maxTxOutPerMessage"
      "list_all txout_ok outs" "list_all (\<lambda>ti. txin_ok ti \<and> witness_ok (Witness ti)) ins"
      "\<forall>ti\<in>set ins. Witness ti = []"
      using dec(3,5) 3(1,4) by (auto simp: list_all_iff witness_ok_def)
    ultimately have "r = wire_form False tx @ rest" "tx_ok tx" "\<not> HasWitness tx" "TxIns tx = ins"
      using dec(7,8) sint_bounds_32 [of v]
      by (simp_all add: wire_form_def tx_ok_def HasWitness_def list_ex_iff)
    moreover have "enc = BaseEncoding \<or> ins \<noteq> []"
      using False dec(7) f(2) by (cases enc) auto
    ultimately show ?thesis by (intro conjI exI [of _ False]) simp_all
  qed
qed

lemma tx_ok_strip: "tx_ok tx \<Longrightarrow> tx_ok (stripWitness tx)"
  by (auto simp: tx_ok_def stripWitness_def list_all_iff txin_ok_def witness_ok_def)

lemma SerializeNoWitness_inject:
  assumes "tx_ok a" "tx_ok b"
  shows "SerializeNoWitness a = SerializeNoWitness b \<longleftrightarrow> stripWitness a = stripWitness b"
proof -
  have "BtcDecode (SerializeNoWitness x) BaseEncoding = Inr (stripWitness x, [])" if "tx_ok x" for x
    using BtcDecode_base [OF tx_ok_strip [OF that], of BaseEncoding "[]"]
    by (simp add: SerializeNoWitness_def BtcEncode_wire_form wire_form_strip)
  moreover have "SerializeNoWitness x = SerializeNoWitness (stripWitness x)" for x
    by (simp add: SerializeNoWitness_def BtcEncode_wire_form wire_form_strip)
  ultimately show ?thesis using assms by (metis Pair_inject sum.inject(2))
qed

section \<open>Sizes\<close>

lemma fold_add: "fold (\<lambda>x n. n + f x) xs n = n + sum_list (map f xs)" for n :: nat
  by (induction xs arbitrary: n) simp_all

lemma length_PutUint [simp]: "length (PutUint32 v) = 4" "length (PutUint64 w) = 8"
  by (simp_all add: PutUint32_def PutUint64_def)

lemma length_WriteVarBytes: "length (WriteVarBytes b) = VarIntSerializeSize (of_nat (length b)) + length b"
  by (simp add: WriteVarBytes_def length_WriteVarInt)

lemma length_WriteTxOut: "length (WriteTxOut to) = TxOut_SerializeSize to"
  by (simp add: WriteTxOut_def TxOut_SerializeSize_def length_WriteVarBytes)

lemma length_writeTxIn: "length (Hash (PreviousOutPoint ti)) = 32 \<Longrightarrow> length (writeTxIn ti) = TxIn_SerializeSize ti"
  by (simp add: writeTxIn_def writeOutPoint_def TxIn_SerializeSize_def length_WriteVarBytes)

lemma length_writeTxWitness: "length (writeTxWitness w) = TxWitness_SerializeSize w"
  using fold_add [of "\<lambda>i. VarIntSerializeSize (of_nat (length i)) + length i" w]
  by (simp add: writeTxWitness_def TxWitness_SerializeSize_def length_WriteVarInt length_concat comp_def
      length_WriteVarBytes add.assoc)

lemma length_wire_form:
  assumes "\<forall>ti\<in>set (TxIns tx). length (Hash (PreviousOutPoint ti)) = 32"
  shows "length (wire_form m tx) = baseSize tx +
    (if m then 2 + sum_list (map (\<lambda>ti. TxWitness_SerializeSize (Witness ti)) (TxIns tx)) else 0)"
proof -
  have "(\<Sum>ti\<leftarrow>TxIns tx. length (writeTxIn ti)) = (\<Sum>ti\<leftarrow>TxIns tx. TxIn_SerializeSize ti)"
    using assms by (intro arg_cong [where f = sum_list] map_cong) (simp_all add: length_writeTxIn)
  then show ?thesis
    by (simp add: wire_form_def baseSize_def Let_def fold_add length_WriteVarInt length_concat comp_def
        length_WriteTxOut length_writeTxWitness)
qed

text \<open>A transaction with a witness, to run the definitions on.\<close>

definition sample_tx :: MsgTx where
  "sample_tx = \<lparr>Version = 1,
     TxIns = [\<lparr>PreviousOutPoint = \<lparr>Hash = replicate 32 7, Index = 1\<rparr>, SignatureScript = [0x51],
               Witness = [[1, 2]], Sequence = 5, Age = 0\<rparr>],
     TxOuts = [\<lparr>Value = 3, PkScript = [0x51]\<rparr>], LockTime = 0\<rparr>"

lemma sample_tx_ok: "tx_ok sample_tx"
  by (simp add: sample_tx_def tx_ok_def txin_ok_def txout_ok_def witness_ok_def MaxMessagePayload_def
      maxWitnessItemsPerInput_def maxWitnessItemSize_def maxTxInPerMessage_def maxTxOutPerMessage_def)

section \<open>Properties\<close>

text \<open>C12. The transaction decoder accepts exactly the two wire forms of the transactions that are
  within the protocol's limits: the form with marker, flag and witnesses under the witness encoding,
  and the form without, for a transaction that has no witness (and, under the witness encoding,
  has at least one input, since a zero input count announces the other form).  Whatever else a
  peer sends is refused.\<close>

theorem tx_decode_exact:
  "BtcDecode r enc = Inr (tx, rest) \<longleftrightarrow>
     tx_ok tx \<and> (\<exists>m. r = wire_form m tx @ rest \<and>
       (if m then enc = WitnessEncoding
        else \<not> HasWitness tx \<and> (enc = BaseEncoding \<or> TxIns tx \<noteq> [])))"
proof
  assume "tx_ok tx \<and> (\<exists>m. r = wire_form m tx @ rest \<and> (if m then enc = WitnessEncoding
    else \<not> HasWitness tx \<and> (enc = BaseEncoding \<or> TxIns tx \<noteq> [])))"
  then obtain m where "tx_ok tx" "r = wire_form m tx @ rest" "if m then enc = WitnessEncoding
    else \<not> HasWitness tx \<and> (enc = BaseEncoding \<or> TxIns tx \<noteq> [])" by blast
  then show "BtcDecode r enc = Inr (tx, rest)"
    by (cases m) (simp_all add: BtcDecode_base BtcDecode_witness)
qed (rule BtcDecode_InrD)

theorem tx_decode_exact_witness:
  "BtcDecode (wire_form True sample_tx @ [9]) WitnessEncoding = Inr (sample_tx, [9])"
  using tx_decode_exact [of "wire_form True sample_tx @ [9]" WitnessEncoding sample_tx "[9]"] sample_tx_ok
  by (simp add: exI [of _ True])

text \<open>Serialised transactions are read back: a transaction within the protocol's limits that has
  an input is returned unchanged by the decoder, whatever follows it in the stream; the encoding
  without witnesses returns it without its witnesses.\<close>

theorem tx_roundtrip:
  assumes "tx_ok tx" "TxIns tx \<noteq> []"
  shows "BtcDecode (Serialize tx @ rest) WitnessEncoding = Inr (tx, rest) \<and>
    BtcDecode (SerializeNoWitness tx @ rest) BaseEncoding = Inr (stripWitness tx, rest)"
proof -
  have "BtcDecode (wire_form False tx @ rest) BaseEncoding = Inr (stripWitness tx, rest)"
    using BtcDecode_base [OF tx_ok_strip [OF assms(1)], of BaseEncoding rest] by (simp add: wire_form_strip)
  with assms show ?thesis
    by (cases "HasWitness tx") (simp_all add: Serialize_def SerializeNoWitness_def BtcEncode_wire_form
        BtcDecode_base BtcDecode_witness)
qed

theorem tx_roundtrip_witness:
  "BtcDecode (Serialize sample_tx @ [9]) WitnessEncoding = Inr (sample_tx, [9])"
proof -
  have "TxIns sample_tx \<noteq> []" by (simp add: sample_tx_def)
  with tx_roundtrip [OF sample_tx_ok] show ?thesis by blast
qed

text \<open>The size functions are exact: \<^verbatim>\<open>SerializeSize\<close> and \<^verbatim>\<open>SerializeSizeStripped\<close> return the
  number of bytes that \<^verbatim>\<open>Serialize\<close> and \<^verbatim>\<open>SerializeNoWitness\<close> write, so the buffers that the
  hash functions allocate from them never grow.\<close>

theorem tx_sizes:
  assumes "\<forall>ti\<in>set (TxIns tx). length (Hash (PreviousOutPoint ti)) = 32"
  shows "length (Serialize tx) = SerializeSize tx \<and>
    length (SerializeNoWitness tx) = SerializeSizeStripped tx"
  using assms length_wire_form [of tx]
  by (simp add: Serialize_def SerializeNoWitness_def BtcEncode_wire_form SerializeSize_def
      SerializeSizeStripped_def fold_add)

theorem tx_sizes_witness: "length (Serialize sample_tx) = SerializeSize sample_tx"
proof -
  have "\<forall>ti\<in>set (TxIns sample_tx). length (Hash (PreviousOutPoint ti)) = 32" by (simp add: sample_tx_def)
  from tx_sizes [OF this] show ?thesis by blast
qed

text \<open>C38. A transaction id binds everything but the witnesses: two transactions within the limits
  have the same \<^verbatim>\<open>TxHash\<close> exactly when they agree after their witnesses are removed, or their
  (different) serialisations collide under the hash function.\<close>

theorem txid_binds:
  assumes "tx_ok a" "tx_ok b"
  shows "TxHash H a = TxHash H b \<longleftrightarrow> stripWitness a = stripWitness b \<or>
    (SerializeNoWitness a \<noteq> SerializeNoWitness b \<and> H (SerializeNoWitness a) = H (SerializeNoWitness b))"
  using SerializeNoWitness_inject [OF assms] by (auto simp: TxHash_def)

theorem txid_binds_witness:
  "TxHash rev (NewMsgTx 1) \<noteq> TxHash rev (NewMsgTx 2)"
proof -
  have "tx_ok (NewMsgTx 1)" "tx_ok (NewMsgTx 2)"
    by (simp_all add: tx_ok_def NewMsgTx_def maxTxInPerMessage_def maxTxOutPerMessage_def)
  moreover have "stripWitness (NewMsgTx 1) \<noteq> stripWitness (NewMsgTx 2)"
    by (simp add: stripWitness_def NewMsgTx_def)
  ultimately show ?thesis using txid_binds [of "NewMsgTx 1" "NewMsgTx 2" rev]
    by (simp only: rev_is_rev_conv) blast
qed

end
