(* ===== verification/SigHash.thy ===== *)
theory SigHash
  imports ScriptParse TxWire
begin

text \<open>
  Signature hashes (\<^verbatim>\<open>txscript/script.go\<close>, \<^verbatim>\<open>txscript/hashcache.go\<close>): the digest a legacy
  signature signs (\<^verbatim>\<open>calcSignatureHash\<close>), the one of a witness program
  (\<^verbatim>\<open>calcWitnessSignatureHash\<close>), and the cache of its three shared parts. The hash function
  \<^verbatim>\<open>chainhash.DoubleHashH\<close> is the parameter \<open>H\<close>; what the digests are hashes of is kept as a
  definition of its own, the pre-image, since the properties are about what it commits to.
\<close>

section \<open>Hash types\<close>

abbreviation (input) SigHashOld :: u32 where "SigHashOld \<equiv> 0x0"
abbreviation (input) SigHashAll :: u32 where "SigHashAll \<equiv> 0x1"
abbreviation (input) SigHashNone :: u32 where "SigHashNone \<equiv> 0x2"
abbreviation (input) SigHashSingle :: u32 where "SigHashSingle \<equiv> 0x3"
abbreviation (input) SigHashAnyOneCanPay :: u32 where "SigHashAnyOneCanPay \<equiv> 0x80"
abbreviation (input) sigHashMask :: u32 where "sigHashMask \<equiv> 0x1f"

section \<open>The shared parts of witness digests\<close>

record TxSigHashes =
  HashPrevOuts :: bytes
  HashSequence :: bytes
  HashOutputs :: bytes

definition calcHashPrevOuts :: "(bytes \<Rightarrow> bytes) \<Rightarrow> MsgTx \<Rightarrow> bytes" where
  "calcHashPrevOuts H tx = H (concat (map (\<lambda>ti. Hash (PreviousOutPoint ti) @
     PutUint32 (Index (PreviousOutPoint ti))) (TxIns tx)))"

definition calcHashSequence :: "(bytes \<Rightarrow> bytes) \<Rightarrow> MsgTx \<Rightarrow> bytes" where
  "calcHashSequence H tx = H (concat (map (\<lambda>ti. PutUint32 (Sequence ti)) (TxIns tx)))"

definition calcHashOutputs :: "(bytes \<Rightarrow> bytes) \<Rightarrow> MsgTx \<Rightarrow> bytes" where
  "calcHashOutputs H tx = H (concat (map WriteTxOut (TxOuts tx)))"

definition NewTxSigHashes :: "(bytes \<Rightarrow> bytes) \<Rightarrow> MsgTx \<Rightarrow> TxSigHashes" where
  "NewTxSigHashes H tx = \<lparr>HashPrevOuts = calcHashPrevOuts H tx, HashSequence = calcHashSequence H tx,
     HashOutputs = calcHashOutputs H tx\<rparr>"

text \<open>The cache of these parts, a Go map keyed by transaction id.\<close>

type_synonym HashCache = "bytes \<rightharpoonup> TxSigHashes"

definition NewHashCache :: HashCache where
  "NewHashCache = Map.empty"

definition AddSigHashes :: "(bytes \<Rightarrow> bytes) \<Rightarrow> HashCache \<Rightarrow> MsgTx \<Rightarrow> HashCache" where
  "AddSigHashes H h tx = h(TxHash H tx \<mapsto> NewTxSigHashes H tx)"

definition ContainsHashes :: "HashCache \<Rightarrow> bytes \<Rightarrow> bool" where
  "ContainsHashes h txid = (case h txid of None \<Rightarrow> False | Some _ \<Rightarrow> True)"

definition GetSigHashes :: "HashCache \<Rightarrow> bytes \<Rightarrow> TxSigHashes option" where
  "GetSigHashes h txid = h txid"

definition PurgeSigHashes :: "HashCache \<Rightarrow> bytes \<Rightarrow> HashCache" where
  "PurgeSigHashes h txid = h(txid := None)"

section \<open>Witness digests\<close>

text \<open>A serialisation whose error the code ignores: the bytes are then nil.\<close>

definition unparseIgnore :: "parsedOpcode list \<Rightarrow> bytes" where
  "unparseIgnore pops = (case unparseScript pops of Inr b \<Rightarrow> b | Inl _ \<Rightarrow> [])"

definition zeroHash :: bytes where
  "zeroHash = replicate 32 0"

definition witnessScriptCode :: "parsedOpcode list \<Rightarrow> bytes" where
  "witnessScriptCode subScript =
     (let witnessScript = extractWitnessProgram subScript
      in if isWitnessPubKeyHash witnessScript then
           [0x19, OP_DUP, OP_HASH160, OP_DATA_20] @ op_data (witnessScript ! 1) @
           [OP_EQUALVERIFY, OP_CHECKSIG]
         else WriteVarBytes (unparseIgnore witnessScript))"

definition witnessPreimage :: "(bytes \<Rightarrow> bytes) \<Rightarrow> parsedOpcode list \<Rightarrow> TxSigHashes \<Rightarrow> u32 \<Rightarrow>
    MsgTx \<Rightarrow> nat \<Rightarrow> int \<Rightarrow> bytes" where
  "witnessPreimage H subScript sigHashes hashType tx idx amt =
     (let txIn = TxIns tx ! idx
      in PutUint32 (word_of_int (Version tx)) @
         (if hashType AND SigHashAnyOneCanPay = 0 then HashPrevOuts sigHashes else zeroHash) @
         (if hashType AND SigHashAnyOneCanPay = 0 \<and> hashType AND sigHashMask \<noteq> SigHashSingle \<and>
             hashType AND sigHashMask \<noteq> SigHashNone then HashSequence sigHashes else zeroHash) @
         Hash (PreviousOutPoint txIn) @ PutUint32 (Index (PreviousOutPoint txIn)) @
         witnessScriptCode subScript @
         PutUint64 (word_of_int amt) @ PutUint32 (Sequence txIn) @
         (if hashType AND SigHashSingle \<noteq> SigHashSingle \<and> hashType AND SigHashNone \<noteq> SigHashNone
          then HashOutputs sigHashes
          else if hashType AND sigHashMask = SigHashSingle \<and> idx < length (TxOuts tx)
          then H (WriteTxOut (TxOuts tx ! idx)) else zeroHash) @
         PutUint32 (LockTime tx) @ PutUint32 hashType)"

definition calcWitnessSignatureHash :: "(bytes \<Rightarrow> bytes) \<Rightarrow> parsedOpcode list \<Rightarrow> TxSigHashes \<Rightarrow>
    u32 \<Rightarrow> MsgTx \<Rightarrow> int \<Rightarrow> int \<Rightarrow> bytes sresult" where
  "calcWitnessSignatureHash H subScript sigHashes hashType tx idx amt =
     (if idx > int (length (TxIns tx)) - 1 then Inl (Err PlainError)
      else if idx < 0 then Inl Panic
      else Inr (H (witnessPreimage H subScript sigHashes hashType tx (nat idx) amt)))"

definition CalcWitnessSigHash :: "(bytes \<Rightarrow> bytes) \<Rightarrow> bytes \<Rightarrow> TxSigHashes \<Rightarrow> u32 \<Rightarrow> MsgTx \<Rightarrow> int \<Rightarrow>
    int \<Rightarrow> bytes sresult" where
  "CalcWitnessSigHash H script sigHashes hType tx idx amt =
     (case parseE script of Inl _ \<Rightarrow> Inl (Err PlainError)
      | Inr pops \<Rightarrow> calcWitnessSignatureHash H pops sigHashes hType tx idx amt)"

section \<open>Legacy digests\<close>

text \<open>A loop over a slice that knows the index of each element.\<close>

definition mapIdx :: "(int \<Rightarrow> 'a \<Rightarrow> 'b) \<Rightarrow> 'a list \<Rightarrow> 'b list" where
  "mapIdx f xs = map2 (\<lambda>i x. f (int i) x) [0..<length xs] xs"

text \<open>The script that is signed, and the copy of the transaction it is put into.\<close>

definition scriptCode :: "parsedOpcode list \<Rightarrow> bytes" where
  "scriptCode script = unparseIgnore (removeOpcode script OP_CODESEPARATOR)"

definition sigHashTx :: "parsedOpcode list \<Rightarrow> u32 \<Rightarrow> MsgTx \<Rightarrow> int \<Rightarrow> MsgTx sresult" where
  "sigHashTx script hashType tx idx =
     (let ins = mapIdx (\<lambda>i ti. if i = idx then ti\<lparr>SignatureScript := scriptCode script\<rparr>
                                else ti\<lparr>SignatureScript := []\<rparr>) (TxIns tx);
          zeroSeq = mapIdx (\<lambda>i ti. if i \<noteq> idx then ti\<lparr>Sequence := 0\<rparr> else ti)
      in bindE
           (if hashType AND sigHashMask = SigHashNone then
              Inr (tx\<lparr>TxIns := zeroSeq ins, TxOuts := []\<rparr>)
            else if hashType AND sigHashMask = SigHashSingle then
              (if idx + 1 < 0 then Inl Panic
               else Inr (tx\<lparr>TxIns := zeroSeq ins,
                      TxOuts := mapIdx (\<lambda>i to. if i < idx then to\<lparr>Value := -1, PkScript := []\<rparr> else to)
                                  (take (nat (idx + 1)) (TxOuts tx))\<rparr>))
            else Inr (tx\<lparr>TxIns := ins\<rparr>))
           (\<lambda>txCopy. if hashType AND SigHashAnyOneCanPay \<noteq> 0 then
              (if idx < 0 \<or> idx + 1 > int (length (TxIns tx)) then Inl Panic
               else Inr (txCopy\<lparr>TxIns := [TxIns txCopy ! nat idx]\<rparr>))
            else Inr txCopy))"

definition sigHashPreimage :: "parsedOpcode list \<Rightarrow> u32 \<Rightarrow> MsgTx \<Rightarrow> int \<Rightarrow> bytes sresult" where
  "sigHashPreimage script hashType tx idx = bindE (sigHashTx script hashType tx idx) (\<lambda>txCopy.
     Inr (SerializeNoWitness txCopy @ PutUint32 hashType))"

definition calcSignatureHash :: "(bytes \<Rightarrow> bytes) \<Rightarrow> parsedOpcode list \<Rightarrow> u32 \<Rightarrow> MsgTx \<Rightarrow> int \<Rightarrow>
    bytes sresult" where
  "calcSignatureHash H script hashType tx idx =
     (if hashType AND sigHashMask = SigHashSingle \<and> idx \<ge> int (length (TxOuts tx)) then
        Inr (zeroHash[0 := 0x01])
      else bindE (sigHashPreimage script hashType tx idx) (\<lambda>b. Inr (H b)))"

definition CalcSignatureHash :: "(bytes \<Rightarrow> bytes) \<Rightarrow> bytes \<Rightarrow> u32 \<Rightarrow> MsgTx \<Rightarrow> int \<Rightarrow> bytes sresult" where
  "CalcSignatureHash H script hashType tx idx =
     (case parseE script of Inl _ \<Rightarrow> Inl (Err PlainError)
      | Inr pops \<Rightarrow> calcSignatureHash H pops hashType tx idx)"

section \<open>What the digests depend on\<close>

lemma length_mapIdx [simp]: "length (mapIdx f xs) = length xs"
  by (simp add: mapIdx_def)

lemma nth_mapIdx [simp]: "i < length xs \<Longrightarrow> mapIdx f xs ! i = f (int i) (xs ! i)"
  by (simp add: mapIdx_def)

lemma map_mapIdx: "map g (mapIdx f xs) = mapIdx (\<lambda>i x. g (f i x)) xs"
  by (simp add: mapIdx_def comp_def split_beta)

lemma mapIdx_const [simp]: "mapIdx (\<lambda>i x. f x) xs = map f xs"
  by (rule nth_equalityI) simp_all

lemma set_mapIdx_subset: "(\<And>i x. x \<in> set xs \<Longrightarrow> P (f i x)) \<Longrightarrow> y \<in> set (mapIdx f xs) \<Longrightarrow> P y"
  by (auto simp: in_set_conv_nth) (metis nth_mem)

lemma sigHashTx_cases:
  assumes "0 \<le> idx" "idx < int (length (TxIns tx))"
  obtains tx' where "sigHashTx script hashType tx idx = Inr tx'"
  using assms
  by (cases "hashType AND sigHashMask = SigHashNone"; cases "hashType AND sigHashMask = SigHashSingle";
      cases "hashType AND SigHashAnyOneCanPay = 0") (auto simp: sigHashTx_def Let_def)

lemma sigHashTx_all:
  "sigHashTx script SigHashAll tx idx = Inr (tx\<lparr>TxIns := mapIdx (\<lambda>i ti. ti\<lparr>SignatureScript :=
     if i = idx then scriptCode script else []\<rparr>) (TxIns tx)\<rparr>)"
proof -
  have "(SigHashAll AND sigHashMask) = 1" "(SigHashAll AND SigHashAnyOneCanPay) = 0" by simp_all
  then show ?thesis by (simp add: sigHashTx_def Let_def if_distrib [of "\<lambda>s. _\<lparr>SignatureScript := s\<rparr>"] cong: if_cong)
qed

text \<open>Serialisation looks neither at witnesses nor at \<open>Age\<close>.\<close>

definition signed_part :: "MsgTx \<Rightarrow> MsgTx" where
  "signed_part tx = stripWitness (CopyTx tx)"

lemma SerializeNoWitness_CopyTx: "SerializeNoWitness (CopyTx tx) = SerializeNoWitness tx"
proof -
  have "writeTxIn (CopyTxIn ti) = writeTxIn ti" for ti
    by (simp add: writeTxIn_def CopyTxIn_def writeOutPoint_def)
  moreover have "WriteTxOut \<lparr>Value = Value to, PkScript = PkScript to\<rparr> = WriteTxOut to" for to
    by (simp add: WriteTxOut_def)
  ultimately show ?thesis
    by (simp add: SerializeNoWitness_def BtcEncode_wire_form wire_form_def CopyTx_def comp_def)
qed

lemma SerializeNoWitness_signed_part:
  assumes "tx_ok (CopyTx a)" "tx_ok (CopyTx b)" "SerializeNoWitness a = SerializeNoWitness b"
  shows "signed_part a = signed_part b"
  using SerializeNoWitness_inject [OF assms(1,2)] assms(3)
  by (simp add: SerializeNoWitness_CopyTx signed_part_def)

lemma signed_part_fields:
  assumes "signed_part a = signed_part b"
  shows "Version a = Version b" "LockTime a = LockTime b" "TxOuts a = TxOuts b"
    "map PreviousOutPoint (TxIns a) = map PreviousOutPoint (TxIns b)"
    "map Sequence (TxIns a) = map Sequence (TxIns b)"
    "map SignatureScript (TxIns a) = map SignatureScript (TxIns b)"
proof -
  have ins: "TxIns (signed_part tx) = map (\<lambda>ti. \<lparr>PreviousOutPoint = PreviousOutPoint ti,
      SignatureScript = SignatureScript ti, Witness = [], Sequence = Sequence ti, Age = 0\<rparr>) (TxIns tx)" for tx
    by (simp add: signed_part_def stripWitness_def CopyTx_def CopyTxIn_def)
  have eta: "map (\<lambda>to. \<lparr>Value = Value to, PkScript = PkScript to\<rparr>) outs = outs" for outs :: "TxOut list"
    by (induction outs) simp_all
  have "Version (signed_part tx) = Version tx" "LockTime (signed_part tx) = LockTime tx"
      "TxOuts (signed_part tx) = TxOuts tx" for tx
    by (simp_all add: signed_part_def stripWitness_def CopyTx_def eta)
  with assms show "Version a = Version b" "LockTime a = LockTime b" "TxOuts a = TxOuts b" by metis+
  have "map f (TxIns (signed_part a)) = map f (TxIns (signed_part b))" for f :: "TxIn \<Rightarrow> 'z"
    using assms by simp
  from this [of PreviousOutPoint] this [of Sequence] this [of SignatureScript]
  show "map PreviousOutPoint (TxIns a) = map PreviousOutPoint (TxIns b)"
    "map Sequence (TxIns a) = map Sequence (TxIns b)"
    "map SignatureScript (TxIns a) = map SignatureScript (TxIns b)"
    by (simp_all add: ins comp_def)
qed

lemma tx_ok_set_scripts:
  assumes "tx_ok (CopyTx tx)" "length c \<le> MaxMessagePayload"
  shows "tx_ok (CopyTx (tx\<lparr>TxIns := mapIdx (\<lambda>i ti. ti\<lparr>SignatureScript := if i = idx then c else []\<rparr>) (TxIns tx)\<rparr>))"
proof -
  have *: "txin_ok (CopyTxIn ti) \<and> witness_ok (Witness ti)" if "ti \<in> set (TxIns tx)" for ti
    using assms(1) that by (auto simp: tx_ok_def CopyTx_def list_all_iff CopyTxIn_def)
  have "txin_ok (CopyTxIn y) \<and> witness_ok (Witness y)"
    if "y \<in> set (mapIdx (\<lambda>i ti. ti\<lparr>SignatureScript := if i = idx then c else []\<rparr>) (TxIns tx))" for y
    by (rule set_mapIdx_subset [OF _ that]) (use * assms(2) in \<open>auto simp: txin_ok_def CopyTxIn_def\<close>)
  with assms(1) show ?thesis
    by (simp add: tx_ok_def CopyTx_def list_all_iff) (auto simp: CopyTxIn_def)
qed

lemma mapIdx_select_eq:
  assumes "mapIdx (\<lambda>k x. if k = i then c else []) xs = mapIdx (\<lambda>k x. if k = j then d else []) ys"
    and "0 \<le> i" "i < int (length xs)" "0 \<le> j" "j < int (length ys)"
  shows "if i = j then c = d else c = [] \<and> d = []"
proof -
  have l: "length xs = length ys" using arg_cong [OF assms(1), of length] by simp
  have "(if int (nat k) = i then c else []) = (if int (nat k) = j then d else [])"
    if "0 \<le> k" "k < int (length xs)" for k
    using arg_cong [OF assms(1), of "\<lambda>zs. zs ! nat k"] that l by (simp split: if_splits)
  from this [of i] this [of j] assms l show ?thesis by (auto split: if_splits)
qed

lemma PutUint32_inject [simp]: "PutUint32 a = PutUint32 b \<longleftrightarrow> a = b"
  using uint32.enc_inject by auto

lemma PutUint64_inject [simp]: "PutUint64 a = PutUint64 b \<longleftrightarrow> a = b"
  using uint64.enc_inject by auto

section \<open>Properties\<close>

text \<open>C13. A legacy signature of type \<^verbatim>\<open>SigHashAll\<close> commits to the whole transaction: equal
  pre-images force the version, the lock time, all outputs, all outpoints, all sequence numbers,
  the input index and the signed script (code separators removed) to be equal, except that an
  empty script does not tell the index.\<close>

theorem sighash_all_binds:
  assumes "tx_ok (CopyTx a)" "tx_ok (CopyTx b)"
    and "length (scriptCode s) \<le> MaxMessagePayload" "length (scriptCode t) \<le> MaxMessagePayload"
    and "0 \<le> i" "i < int (length (TxIns a))" "0 \<le> j" "j < int (length (TxIns b))"
    and "sigHashPreimage s SigHashAll a i = sigHashPreimage t SigHashAll b j"
  shows "Version a = Version b \<and> LockTime a = LockTime b \<and> TxOuts a = TxOuts b \<and>
    map PreviousOutPoint (TxIns a) = map PreviousOutPoint (TxIns b) \<and>
    map Sequence (TxIns a) = map Sequence (TxIns b) \<and>
    (if i = j then scriptCode s = scriptCode t else scriptCode s = [] \<and> scriptCode t = [])"
proof -
  let ?a = "a\<lparr>TxIns := mapIdx (\<lambda>k ti. ti\<lparr>SignatureScript := if k = i then scriptCode s else []\<rparr>) (TxIns a)\<rparr>"
  let ?b = "b\<lparr>TxIns := mapIdx (\<lambda>k ti. ti\<lparr>SignatureScript := if k = j then scriptCode t else []\<rparr>) (TxIns b)\<rparr>"
  have "SerializeNoWitness ?a = SerializeNoWitness ?b"
    using assms(9) by (simp add: sigHashPreimage_def sigHashTx_all)
  then have "signed_part ?a = signed_part ?b"
    using assms(1-4) by (intro SerializeNoWitness_signed_part tx_ok_set_scripts)
  from signed_part_fields [OF this] show ?thesis
    using mapIdx_select_eq [of i "scriptCode s" "TxIns a" j "scriptCode t" "TxIns b"] assms(5-8)
    by (simp add: map_mapIdx)
qed

theorem sighash_all_binds_witness:
  "sample_tx \<noteq> stripWitness sample_tx \<and>
   map PreviousOutPoint (TxIns sample_tx) = map PreviousOutPoint (TxIns (stripWitness sample_tx))"
proof -
  let ?s = "[\<lparr>op_value = OP_CHECKSIG, op_data = []\<rparr>]"
  have "length (scriptCode ?s) \<le> MaxMessagePayload"
    by (simp add: scriptCode_def removeOpcode_def unparseIgnore_def popBytes_def opcode_length_def
        MaxMessagePayload_def)
  moreover have "sigHashPreimage ?s SigHashAll sample_tx 0 = sigHashPreimage ?s SigHashAll (stripWitness sample_tx) 0"
    by (simp add: sigHashPreimage_def sigHashTx_all sample_tx_def stripWitness_def mapIdx_def
        SerializeNoWitness_def BtcEncode_def writeTxIn_def)
  moreover have "CopyTx sample_tx = sample_tx" by (simp add: CopyTx_def CopyTxIn_def sample_tx_def)
  moreover have "CopyTx (stripWitness sample_tx) = stripWitness sample_tx"
    by (simp add: CopyTx_def CopyTxIn_def sample_tx_def stripWitness_def)
  moreover have "sample_tx \<noteq> stripWitness sample_tx" "length (TxIns sample_tx) = 1"
    "length (TxIns (stripWitness sample_tx)) = 1"
    by (simp_all add: sample_tx_def stripWitness_def)
  ultimately show ?thesis
    using sighash_all_binds [of sample_tx "stripWitness sample_tx" ?s ?s 0 0] sample_tx_ok
      tx_ok_strip [OF sample_tx_ok] by simp
qed

text \<open>C39. What the other types leave open. For a valid input index the digest is always computed. A
  signature of type \<^verbatim>\<open>SigHashNone\<close> stays valid whatever the outputs are; with
  \<^verbatim>\<open>SigHashAnyOneCanPay\<close> it stays valid whatever the other inputs are; \<^verbatim>\<open>SigHashSingle\<close> without a
  matching output signs the constant one.\<close>

theorem sighash_scope:
  assumes "0 \<le> i" "i < int (length (TxIns tx))"
  shows "(\<exists>h. calcSignatureHash H s ht tx i = Inr h) \<and>
    (ht AND sigHashMask = SigHashNone \<longrightarrow>
       calcSignatureHash H s ht (tx\<lparr>TxOuts := outs\<rparr>) i = calcSignatureHash H s ht tx i) \<and>
    (ht AND SigHashAnyOneCanPay \<noteq> 0 \<and> i < int (length ins) \<and> ins ! nat i = TxIns tx ! nat i \<longrightarrow>
       calcSignatureHash H s ht (tx\<lparr>TxIns := ins\<rparr>) i = calcSignatureHash H s ht tx i) \<and>
    (ht AND sigHashMask = SigHashSingle \<and> i \<ge> int (length (TxOuts tx)) \<longrightarrow>
       calcSignatureHash H s ht tx i = Inr (1 # replicate 31 0))"
proof (intro conjI impI)
  obtain tx' where "sigHashTx s ht tx i = Inr tx'" using sigHashTx_cases [OF assms] .
  then show "\<exists>h. calcSignatureHash H s ht tx i = Inr h"
    by (simp add: calcSignatureHash_def sigHashPreimage_def)
  assume "ht AND sigHashMask = SigHashNone"
  then show "calcSignatureHash H s ht (tx\<lparr>TxOuts := outs\<rparr>) i = calcSignatureHash H s ht tx i"
    by (simp add: calcSignatureHash_def sigHashPreimage_def sigHashTx_def Let_def)
next
  assume *: "ht AND SigHashAnyOneCanPay \<noteq> 0 \<and> i < int (length ins) \<and> ins ! nat i = TxIns tx ! nat i"
  have "nat i < length ins" "nat i < length (TxIns tx)" using * assms by linarith+
  with * assms show "calcSignatureHash H s ht (tx\<lparr>TxIns := ins\<rparr>) i = calcSignatureHash H s ht tx i"
    by (simp add: calcSignatureHash_def sigHashPreimage_def sigHashTx_def Let_def)
next
  assume "ht AND sigHashMask = SigHashSingle \<and> i \<ge> int (length (TxOuts tx))"
  then show "calcSignatureHash H s ht tx i = Inr (1 # replicate 31 0)"
    using replicate_Suc [of 31 "0 :: u8"] by (simp add: calcSignatureHash_def zeroHash_def)
qed

theorem sighash_scope_witness:
  "calcSignatureHash rev [] 0x82 (sample_tx\<lparr>TxOuts := []\<rparr>) 0 = calcSignatureHash rev [] 0x82 sample_tx 0"
proof -
  have "length (TxIns sample_tx) = 1" by (simp add: sample_tx_def)
  then show ?thesis using sighash_scope [of 0 sample_tx rev "[]" "0x82" "[]" "[]"] by simp
qed

lemma unparse_program:
  assumes "unparseScript s = Inr b"
  obtains c where "unparseScript (extractWitnessProgram s) = Inr c" "length c \<le> length b"
proof (cases "length s = 9")
  case True
  then have "s = take 4 s @ [s ! 4, s ! 5] @ drop 6 s"
    by (auto simp: numeral_eq_Suc length_Suc_conv)
  then have "unparseScript (take 4 s @ [s ! 4, s ! 5] @ drop 6 s) = Inr b" using assms by simp
  then obtain b1 b2 b3 where "unparseScript [s ! 4, s ! 5] = Inr b2" "b = b1 @ b2 @ b3"
    unfolding unparse_append by (auto simp: bindE_Inr_iff)
  with True that [of b2] show thesis by (simp add: extractWitnessProgram_def)
qed (use assms that [of b] in \<open>simp add: extractWitnessProgram_def\<close>)

lemma witnessScriptCode_varbytes:
  assumes "unparseScript s = Inr b" "length b \<le> MaxMessagePayload"
  obtains c where "witnessScriptCode s = WriteVarBytes c" "length c \<le> MaxMessagePayload"
proof -
  obtain w where w: "unparseScript (extractWitnessProgram s) = Inr w" "length w \<le> length b"
    using unparse_program [OF assms(1)] .
  show thesis
  proof (cases "isWitnessPubKeyHash (extractWitnessProgram s)")
    case True
    let ?p = "extractWitnessProgram s ! 1"
    let ?c = "[OP_DUP, OP_HASH160, OP_DATA_20] @ op_data ?p @ [OP_EQUALVERIFY, OP_CHECKSIG]"
    from True obtain p q where pq: "extractWitnessProgram s = [p, q]" "op_value q = OP_DATA_20"
      by (auto simp: isWitnessPubKeyHash_def numeral_2_eq_2 length_Suc_conv)
    with w(1) have "\<exists>x. popBytes q = Inr x" by (auto simp: bindE_Inr_iff)
    with pq have "length (op_data ?p) = 20"
      by (auto simp: popBytes_def opcode_length_def split: if_splits)
    with True show thesis
      by (intro that [of ?c])
         (simp_all add: witnessScriptCode_def WriteVarBytes_def WriteVarInt_def PutUint8_def MaxMessagePayload_def)
  next
    case False
    with w assms(2) show thesis
      by (intro that [of w]) (simp_all add: witnessScriptCode_def unparseIgnore_def)
  qed
qed

text \<open>C35. A witness signature of type \<^verbatim>\<open>SigHashAll\<close> commits to the version, the outpoint, the
  script code, the amount, the sequence number, the lock time and the three shared hashes of all
  outpoints, all sequence numbers and all outputs: equal pre-images force each of them to be
  equal.\<close>

theorem witness_sighash_all_binds:
  assumes "unparseScript s = Inr sb" "length sb \<le> MaxMessagePayload"
    and "unparseScript t = Inr tb" "length tb \<le> MaxMessagePayload"
    and "\<And>x. length (H x) = 32" "i < length (TxIns a)" "j < length (TxIns b)"
    and "tx_ok (CopyTx a)" "tx_ok (CopyTx b)"
    and "- (2 ^ 63) \<le> u" "u < 2 ^ 63" "- (2 ^ 63) \<le> v" "v < 2 ^ 63"
    and "witnessPreimage H s (NewTxSigHashes H a) SigHashAll a i u =
         witnessPreimage H t (NewTxSigHashes H b) SigHashAll b j v"
  shows "Version a = Version b \<and> LockTime a = LockTime b \<and> u = v \<and>
    PreviousOutPoint (TxIns a ! i) = PreviousOutPoint (TxIns b ! j) \<and>
    Sequence (TxIns a ! i) = Sequence (TxIns b ! j) \<and> witnessScriptCode s = witnessScriptCode t \<and>
    NewTxSigHashes H a = NewTxSigHashes H b"
proof -
  have l: "length (HashPrevOuts (NewTxSigHashes H tx)) = 32" "length (HashSequence (NewTxSigHashes H tx)) = 32"
    "length (HashOutputs (NewTxSigHashes H tx)) = 32" for tx
    by (simp_all add: NewTxSigHashes_def calcHashPrevOuts_def calcHashSequence_def calcHashOutputs_def assms(5))
  have h: "length (Hash (PreviousOutPoint (TxIns tx ! k))) = 32" "- (2 ^ 31) \<le> Version tx" "Version tx < 2 ^ 31"
    if "tx_ok (CopyTx tx)" "k < length (TxIns tx)" for tx k
    using that by (auto simp: tx_ok_def CopyTx_def CopyTxIn_def list_all_iff txin_ok_def)
  obtain c d where c: "witnessScriptCode s = WriteVarBytes c" "length c \<le> MaxMessagePayload"
    and d: "witnessScriptCode t = WriteVarBytes d" "length d \<le> MaxMessagePayload"
    using witnessScriptCode_varbytes [OF assms(1,2)] witnessScriptCode_varbytes [OF assms(3,4)] by metis
  have m: "(SigHashAll AND SigHashAnyOneCanPay) = 0" "(SigHashAll AND sigHashMask) = 1"
    "(SigHashAll AND SigHashSingle) = 1" "(SigHashAll AND SigHashNone) = 0" by simp_all
  let ?tail = "\<lambda>tx k amt. PutUint64 (word_of_int amt) @ PutUint32 (Sequence (TxIns tx ! k)) @
    HashOutputs (NewTxSigHashes H tx) @ PutUint32 (LockTime tx) @ PutUint32 SigHashAll"
  have eq: "PutUint32 (word_of_int (Version a)) = PutUint32 (word_of_int (Version b))"
    "HashPrevOuts (NewTxSigHashes H a) = HashPrevOuts (NewTxSigHashes H b)"
    "HashSequence (NewTxSigHashes H a) = HashSequence (NewTxSigHashes H b)"
    "Hash (PreviousOutPoint (TxIns a ! i)) = Hash (PreviousOutPoint (TxIns b ! j))"
    "Index (PreviousOutPoint (TxIns a ! i)) = Index (PreviousOutPoint (TxIns b ! j))"
    "WriteVarBytes c @ ?tail a i u = WriteVarBytes d @ ?tail b j v"
    using assms(14) h(1) [OF assms(8,6)] h(1) [OF assms(9,7)] l
    unfolding witnessPreimage_def Let_def c(1) d(1) m by simp_all
  with script.enc_prefix_free [OF c(2) d(2) eq(6)] l
  have "c = d" "PutUint64 (word_of_int u) = PutUint64 (word_of_int v)"
    "Sequence (TxIns a ! i) = Sequence (TxIns b ! j)" "LockTime a = LockTime b"
    "HashOutputs (NewTxSigHashes H a) = HashOutputs (NewTxSigHashes H b)" by simp_all
  moreover from this(2) have "u = v"
    using sint_word_of_int_64 [OF assms(10,11)] sint_word_of_int_64 [OF assms(12,13)]
    by (metis PutUint64_inject)
  moreover have "Version a = Version b"
    using eq(1) sint_word_of_int_32 [OF h(2,3) [OF assms(8,6)]] sint_word_of_int_32 [OF h(2,3) [OF assms(9,7)]]
    by (metis PutUint32_inject)
  ultimately show ?thesis using eq(2-5) c(1) d(1) by simp
qed

theorem witness_sighash_all_binds_witness:
  "sample_tx \<noteq> stripWitness sample_tx \<and> NewTxSigHashes (\<lambda>x. take 32 (x @ replicate 32 0)) sample_tx =
     NewTxSigHashes (\<lambda>x. take 32 (x @ replicate 32 0)) (stripWitness sample_tx)"
proof -
  let ?H = "\<lambda>x. take 32 (x @ replicate 32 (0 :: u8))"
  let ?s = "[\<lparr>op_value = OP_CHECKSIG, op_data = []\<rparr>]" and ?b = "stripWitness sample_tx"
  have "unparseScript ?s = Inr [OP_CHECKSIG]" by (simp add: popBytes_def opcode_length_def)
  moreover have "length [OP_CHECKSIG] \<le> MaxMessagePayload" by (simp add: MaxMessagePayload_def)
  moreover have n: "NewTxSigHashes ?H sample_tx = NewTxSigHashes ?H ?b"
    by (simp add: NewTxSigHashes_def calcHashPrevOuts_def calcHashSequence_def calcHashOutputs_def
        sample_tx_def stripWitness_def)
  moreover have "witnessPreimage ?H ?s (NewTxSigHashes ?H sample_tx) SigHashAll sample_tx 0 5 =
      witnessPreimage ?H ?s (NewTxSigHashes ?H ?b) SigHashAll ?b 0 5"
    unfolding n by (simp add: witnessPreimage_def sample_tx_def stripWitness_def Let_def)
  moreover have "CopyTx sample_tx = sample_tx" "CopyTx ?b = ?b" "sample_tx \<noteq> ?b"
    "length (TxIns sample_tx) = 1" "length (TxIns ?b) = 1"
    by (simp_all add: CopyTx_def CopyTxIn_def sample_tx_def stripWitness_def)
  ultimately show ?thesis
    using witness_sighash_all_binds [of ?s "[OP_CHECKSIG]" ?s "[OP_CHECKSIG]" ?H 0 sample_tx 0 ?b 5 5]
      sample_tx_ok tx_ok_strip [OF sample_tx_ok] by simp
qed

text \<open>The script code of a witness digest is not the whole script when the script has nine
  opcodes: only the fifth and the sixth are hashed, as if every such script were a time-locked
  witness program. Two different witness scripts of nine opcodes (a multi-signature script with six
  keys is one) that agree there have the same digests.\<close>

theorem nine_opcode_script_code:
  assumes "length s = 9" "length t = 9" "s ! 4 = t ! 4" "s ! 5 = t ! 5"
  shows "calcWitnessSignatureHash H s sh ht tx i amt = calcWitnessSignatureHash H t sh ht tx i amt"
proof -
  have "witnessScriptCode s = witnessScriptCode t"
    using assms by (simp add: witnessScriptCode_def extractWitnessProgram_def)
  then show ?thesis by (simp add: calcWitnessSignatureHash_def witnessPreimage_def)
qed

theorem nine_opcode_script_code_witness:
  "calcWitnessSignatureHash rev ([\<lparr>op_value = OP_1, op_data = []\<rparr>] @ replicate 8 \<lparr>op_value = OP_CHECKSIG, op_data = []\<rparr>)
     (NewTxSigHashes rev sample_tx) SigHashAll sample_tx 0 5 =
   calcWitnessSignatureHash rev ([\<lparr>op_value = OP_2, op_data = []\<rparr>] @ replicate 8 \<lparr>op_value = OP_CHECKSIG, op_data = []\<rparr>)
     (NewTxSigHashes rev sample_tx) SigHashAll sample_tx 0 5"
  by (rule nine_opcode_script_code) (simp_all add: nth_Cons')

end
