(* ===== verification/EngineState.thy ===== *)
theory EngineState
  imports SigHash
begin

text \<open>
  The state of the script engine (\<^verbatim>\<open>txscript/engine.go\<close>), the signature cache
  (\<^verbatim>\<open>txscript/sigcache.go\<close>) and the checks on the encoding of hash types, public keys and
  signatures. The cryptography the engine calls is a record of parameters, \<open>env\<close>: the hash
  functions of third-party packages, and the parsers and the verification of the curve package.
  A signature is the pair of its two integers, a public key the pair of its coordinates, which is
  what \<^verbatim>\<open>IsEqual\<close> of both compares.
\<close>

section \<open>Cryptography\<close>

type_synonym signature = "int \<times> int"
type_synonym pubkey = "int \<times> int"

record env =
  sha256 :: "bytes \<Rightarrow> bytes"
  sha1 :: "bytes \<Rightarrow> bytes"
  ripemd160 :: "bytes \<Rightarrow> bytes"
  ParsePubKey :: "bytes \<Rightarrow> pubkey option"
  ParseDERSignature :: "bytes \<Rightarrow> signature option"
  ParseSignature :: "bytes \<Rightarrow> signature option"
  Verify :: "signature \<Rightarrow> bytes \<Rightarrow> pubkey \<Rightarrow> bool"
  mapStart :: "nat \<Rightarrow> nat"

definition DoubleHashB :: "env \<Rightarrow> bytes \<Rightarrow> bytes" where
  "DoubleHashB e b = sha256 e (sha256 e b)"

definition IsCompressedPubKey :: "bytes \<Rightarrow> bool" where
  "IsCompressedPubKey pubKey \<longleftrightarrow> length pubKey = 33 \<and> pubKey ! 0 AND NOT 0x1 = 0x2"

definition halfOrder :: int where
  "halfOrder = 0xFFFFFFFFFFFFFFFFFFFFFFFFFFFFFFFEBAAEDCE6AF48A03BBFD25E8CD0364141 div 2"

section \<open>The signature cache\<close>

text \<open>
  A Go map from digests to signature and key, as an association list with distinct keys. The entry
  evicted by \<^verbatim>\<open>Add\<close> is the first one in Go's iteration order, which is not specified: the
  parameter \<^const>\<open>mapStart\<close> picks it.
\<close>

record SigCache =
  validSigs :: "(bytes \<times> signature \<times> pubkey) list"
  maxEntries :: nat

definition NewSigCache :: "nat \<Rightarrow> SigCache" where
  "NewSigCache n = \<lparr>validSigs = [], maxEntries = n\<rparr>"

definition Exists :: "SigCache \<Rightarrow> bytes \<Rightarrow> signature \<Rightarrow> pubkey \<Rightarrow> bool" where
  "Exists s sigHash sig pubKey =
     (case map_of (validSigs s) sigHash of None \<Rightarrow> False | Some (sig', pubKey') \<Rightarrow> pubKey' = pubKey \<and> sig' = sig)"

definition mapDelete :: "'k \<Rightarrow> ('k \<times> 'v) list \<Rightarrow> ('k \<times> 'v) list" where
  "mapDelete k xs = filter (\<lambda>p. fst p \<noteq> k) xs"

definition AddSig :: "env \<Rightarrow> SigCache \<Rightarrow> bytes \<Rightarrow> signature \<Rightarrow> pubkey \<Rightarrow> SigCache" where
  "AddSig e s sigHash sig pubKey =
     (if maxEntries s \<le> 0 then s
      else
        let entries = validSigs s;
            entries = (if length entries + 1 > maxEntries s \<and> entries \<noteq> []
                       then mapDelete (fst (entries ! (mapStart e (length entries) mod length entries))) entries
                       else entries)
        in s\<lparr>validSigs := (sigHash, sig, pubKey) # mapDelete sigHash entries\<rparr>)"

section \<open>Flags\<close>

abbreviation (input) ScriptBip16 :: u32 where "ScriptBip16 \<equiv> 0x1"
abbreviation (input) ScriptStrictMultiSig :: u32 where "ScriptStrictMultiSig \<equiv> 0x2"
abbreviation (input) ScriptDiscourageUpgradableNops :: u32 where "ScriptDiscourageUpgradableNops \<equiv> 0x4"
abbreviation (input) ScriptVerifyCheckLockTimeVerify :: u32 where "ScriptVerifyCheckLockTimeVerify \<equiv> 0x8"
abbreviation (input) ScriptVerifyCheckSequenceVerify :: u32 where "ScriptVerifyCheckSequenceVerify \<equiv> 0x10"
abbreviation (input) ScriptVerifyCleanStack :: u32 where "ScriptVerifyCleanStack \<equiv> 0x20"
abbreviation (input) ScriptVerifyDERSignatures :: u32 where "ScriptVerifyDERSignatures \<equiv> 0x40"
abbreviation (input) ScriptVerifyLowS :: u32 where "ScriptVerifyLowS \<equiv> 0x80"
abbreviation (input) ScriptVerifyMinimalData :: u32 where "ScriptVerifyMinimalData \<equiv> 0x100"
abbreviation (input) ScriptVerifyNullFail :: u32 where "ScriptVerifyNullFail \<equiv> 0x200"
abbreviation (input) ScriptVerifySigPushOnly :: u32 where "ScriptVerifySigPushOnly \<equiv> 0x400"
abbreviation (input) ScriptVerifyStrictEncoding :: u32 where "ScriptVerifyStrictEncoding \<equiv> 0x800"
abbreviation (input) ScriptVerifyWitness :: u32 where "ScriptVerifyWitness \<equiv> 0x1000"
abbreviation (input) ScriptVerifyDiscourageUpgradeableWitnessProgram :: u32 where
  "ScriptVerifyDiscourageUpgradeableWitnessProgram \<equiv> 0x2000"
abbreviation (input) ScriptVerifyMinimalIf :: u32 where "ScriptVerifyMinimalIf \<equiv> 0x4000"
abbreviation (input) ScriptVerifyWitnessPubKeyType :: u32 where "ScriptVerifyWitnessPubKeyType \<equiv> 0x8000"

definition MaxStackSize :: int where "MaxStackSize = 1000"
definition LockTimeThreshold :: int where "LockTimeThreshold = 500000000"

section \<open>The engine\<close>

datatype OpCond = OpCondFalse | OpCondTrue | OpCondSkip

record Engine =
  scripts :: "parsedOpcode list list"
  scriptIdx :: nat
  scriptOff :: nat
  lastCodeSep :: nat
  dstack :: stack
  astack :: stack
  tx :: MsgTx
  txIdx :: int
  condStack :: "OpCond list"
  numOps :: int
  flags :: u32
  sigCache :: "SigCache option"
  hashCache :: "TxSigHashes option"
  bip16 :: bool
  savedFirstStack :: "bytes list"
  witnessVersion :: int
  witnessProgram :: "bytes option"
  inputAmount :: int

definition hasFlag :: "Engine \<Rightarrow> u32 \<Rightarrow> bool" where
  "hasFlag vm flag \<longleftrightarrow> flags vm AND flag = flag"

definition isBranchExecuting :: "Engine \<Rightarrow> bool" where
  "isBranchExecuting vm \<longleftrightarrow>
     (if length (condStack vm) = 0 then True else condStack vm ! (length (condStack vm) - 1) = OpCondTrue)"

definition isWitnessVersionActive :: "Engine \<Rightarrow> int \<Rightarrow> bool" where
  "isWitnessVersionActive vm version \<longleftrightarrow> witnessProgram vm \<noteq> None \<and> witnessVersion vm = version"

text \<open>Slices and indexes that panic outside their range.\<close>

definition getE :: "'a list \<Rightarrow> nat \<Rightarrow> 'e failure + 'a" where
  "getE xs i = (if i < length xs then Inr (xs ! i) else Inl Panic)"

definition subScript :: "Engine \<Rightarrow> parsedOpcode list sresult" where
  "subScript vm =
     bindE (getE (scripts vm) (scriptIdx vm)) (\<lambda>script.
       if lastCodeSep vm > length script then Inl Panic else Inr (drop (lastCodeSep vm) script))"

definition curTxIn :: "Engine \<Rightarrow> TxIn sresult" where
  "curTxIn vm = (if txIdx vm < 0 then Inl Panic else getE (TxIns (tx vm)) (nat (txIdx vm)))"

section \<open>Encodings of hash types, keys and signatures\<close>

definition checkHashTypeEncoding :: "Engine \<Rightarrow> u32 \<Rightarrow> unit sresult" where
  "checkHashTypeEncoding vm hashType =
     (if \<not> hasFlag vm ScriptVerifyStrictEncoding then Inr ()
      else let sigHashType = hashType AND NOT SigHashAnyOneCanPay
           in if sigHashType < SigHashAll \<or> sigHashType > SigHashSingle
              then scriptError ErrInvalidSigHashType else Inr ())"

definition checkPubKeyEncoding :: "Engine \<Rightarrow> bytes \<Rightarrow> unit sresult" where
  "checkPubKeyEncoding vm pubKey =
     (if hasFlag vm ScriptVerifyWitnessPubKeyType \<and> isWitnessVersionActive vm 0 \<and>
         \<not> IsCompressedPubKey pubKey then scriptError ErrWitnessPubKeyType
      else if \<not> hasFlag vm ScriptVerifyStrictEncoding then Inr ()
      else if length pubKey = 33 \<and> (pubKey ! 0 = 0x02 \<or> pubKey ! 0 = 0x03) then Inr ()
      else if length pubKey = 65 \<and> pubKey ! 0 = 0x04 then Inr ()
      else scriptError ErrPubKeyType)"

text \<open>\<^verbatim>\<open>big.Int.SetBytes\<close>: an unsigned big-endian number.\<close>

definition be_val :: "bytes \<Rightarrow> int" where
  "be_val bs = le_val (rev bs)"

text \<open>The checks on one of the two integers of a signature, at offset \<open>off\<close> with \<open>len\<close> bytes.\<close>

definition checkSigInt :: "bytes \<Rightarrow> nat \<Rightarrow> nat \<Rightarrow> nat \<Rightarrow> ErrorCode \<Rightarrow> ErrorCode \<Rightarrow> ErrorCode \<Rightarrow> ErrorCode \<Rightarrow>
    unit sresult" where
  "checkSigInt sig typeOffset off len eId eZero eNeg ePad =
     bindE (getE sig typeOffset) (\<lambda>ty.
     if ty \<noteq> 0x02 then scriptError eId
     else if len = 0 then scriptError eZero
     else bindE (getE sig off) (\<lambda>b0.
     if b0 AND 0x80 \<noteq> 0 then scriptError eNeg
     else if len > 1 \<and> b0 = 0x00 then
       bindE (getE sig (off + 1)) (\<lambda>b1. if b1 AND 0x80 = 0 then scriptError ePad else Inr ())
     else Inr ()))"

definition checkSignatureEncoding :: "Engine \<Rightarrow> bytes \<Rightarrow> unit sresult" where
  "checkSignatureEncoding vm sig =
     (let sigLen = length sig
      in if \<not> hasFlag vm ScriptVerifyDERSignatures \<and> \<not> hasFlag vm ScriptVerifyLowS \<and>
            \<not> hasFlag vm ScriptVerifyStrictEncoding then Inr ()
         else if sigLen < 8 then scriptError ErrSigTooShort
         else if sigLen > 72 then scriptError ErrSigTooLong
         else bindE (getE sig 0) (\<lambda>seqId.
         if seqId \<noteq> 0x30 then scriptError ErrSigInvalidSeqID
         else bindE (getE sig 1) (\<lambda>dataLen.
         if unat dataLen \<noteq> sigLen - 2 then scriptError ErrSigInvalidDataLen
         else bindE (getE sig 3) (\<lambda>rLenB.
         let rLen = unat rLenB; sTypeOffset = 4 + rLen; sLenOffset = sTypeOffset + 1
         in if sTypeOffset \<ge> sigLen then scriptError ErrSigMissingSTypeID
            else if sLenOffset \<ge> sigLen then scriptError ErrSigMissingSLen
            else bindE (getE sig sLenOffset) (\<lambda>sLenB.
            let sOffset = sLenOffset + 1; sLen = unat sLenB
            in if sOffset + sLen \<noteq> sigLen then scriptError ErrSigInvalidSLen
               else bindE (checkSigInt sig 2 4 rLen ErrSigInvalidRIntID ErrSigZeroRLen
                      ErrSigNegativeR ErrSigTooMuchRPadding) (\<lambda>_.
               bindE (checkSigInt sig sTypeOffset sOffset sLen ErrSigInvalidSIntID ErrSigZeroSLen
                      ErrSigNegativeS ErrSigTooMuchSPadding) (\<lambda>_.
               if hasFlag vm ScriptVerifyLowS \<and> be_val (take sLen (drop sOffset sig)) > halfOrder
               then scriptError ErrSigHighS else Inr ())))))))"

end
