(* ===== verification/ScriptOps.thy ===== *)
theory ScriptOps
  imports EngineState
begin

text \<open>
  The opcode handlers (\<^verbatim>\<open>txscript/opcode.go\<close>), one definition per handler, and the dispatch of
  \<^verbatim>\<open>opcodeArray\<close>. A handler that only works on the data stack is the lifting \<open>onD\<close> of a stack
  function; the others pass the whole engine. The lemmas show that no handler panics from a state
  the engine can be in, that handlers leave the program counter, the scripts and the transaction
  alone, and that they grow the two stacks by at most three items.
\<close>

section \<open>Handlers of the data stack\<close>

type_synonym handler = "parsedOpcode \<Rightarrow> Engine \<Rightarrow> Engine sresult"

definition onD :: "(stack \<Rightarrow> stack sresult) \<Rightarrow> Engine \<Rightarrow> Engine sresult" where
  "onD f vm = bindE (f (dstack vm)) (\<lambda>s. Inr (vm\<lparr>dstack := s\<rparr>))"

definition opcodeDisabled :: handler where
  "opcodeDisabled op vm = scriptError ErrDisabledOpcode"

definition opcodeReserved :: handler where
  "opcodeReserved op vm = scriptError ErrReservedOpcode"

definition opcodeInvalid :: handler where
  "opcodeInvalid op vm = scriptError ErrReservedOpcode"

definition opcodeFalse :: handler where
  "opcodeFalse op = onD (\<lambda>s. Inr (PushByteArray s []))"

definition opcodePushData :: handler where
  "opcodePushData op = onD (\<lambda>s. Inr (PushByteArray s (op_data op)))"

definition opcode1Negate :: handler where
  "opcode1Negate op = onD (\<lambda>s. PushInt s (- 1))"

definition opcodeN :: handler where
  "opcodeN op = onD (\<lambda>s. PushInt s (uint (op_value op - (OP_1 - 1))))"

definition opcodeInputAge :: handler where
  "opcodeInputAge op vm = bindE (curTxIn vm) (\<lambda>ti. onD (\<lambda>s. PushInt s (Age ti)) vm)"

definition opcodeNop :: handler where
  "opcodeNop op vm =
     (if op_value op \<in> set [OP_NOP1, OP_NOP5, OP_NOP6, OP_NOP7, OP_NOP8, OP_NOP9, OP_NOP10] \<and>
         hasFlag vm ScriptDiscourageUpgradableNops
      then scriptError ErrDiscourageUpgradableNOPs else Inr vm)"

section \<open>Conditionals\<close>

definition popIfBool :: "Engine \<Rightarrow> (bool \<times> Engine) sresult" where
  "popIfBool vm =
     (if \<not> isWitnessVersionActive vm 0 \<or> \<not> hasFlag vm ScriptVerifyMinimalIf then
        bindE (PopBool (dstack vm)) (\<lambda>(b, s). Inr (b, vm\<lparr>dstack := s\<rparr>))
      else bindE (PopByteArray (dstack vm)) (\<lambda>(so, s).
        if length so > 1 then scriptError ErrMinimalIf
        else if length so = 1 \<and> so ! 0 \<noteq> 0x01 then scriptError ErrMinimalIf
        else Inr (asBool so, vm\<lparr>dstack := s\<rparr>)))"

definition pushCond :: "OpCond \<Rightarrow> Engine \<Rightarrow> Engine" where
  "pushCond c vm = vm\<lparr>condStack := condStack vm @ [c]\<rparr>"

definition opcodeIf :: handler where
  "opcodeIf op vm =
     (if isBranchExecuting vm then
        bindE (popIfBool vm) (\<lambda>(ok, vm). Inr (pushCond (if ok then OpCondTrue else OpCondFalse) vm))
      else Inr (pushCond OpCondSkip vm))"

definition opcodeNotIf :: handler where
  "opcodeNotIf op vm =
     (if isBranchExecuting vm then
        bindE (popIfBool vm) (\<lambda>(ok, vm). Inr (pushCond (if \<not> ok then OpCondTrue else OpCondFalse) vm))
      else Inr (pushCond OpCondSkip vm))"

definition opcodeElse :: handler where
  "opcodeElse op vm =
     (if length (condStack vm) = 0 then scriptError ErrUnbalancedConditional
      else
        let i = length (condStack vm) - 1
        in case condStack vm ! i of
             OpCondTrue \<Rightarrow> Inr (vm\<lparr>condStack := (condStack vm)[i := OpCondFalse]\<rparr>)
           | OpCondFalse \<Rightarrow> Inr (vm\<lparr>condStack := (condStack vm)[i := OpCondTrue]\<rparr>)
           | OpCondSkip \<Rightarrow> Inr vm)"

definition opcodeEndif :: handler where
  "opcodeEndif op vm =
     (if length (condStack vm) = 0 then scriptError ErrUnbalancedConditional
      else Inr (vm\<lparr>condStack := take (length (condStack vm) - 1) (condStack vm)\<rparr>))"

definition abstractVerify :: "ErrorCode \<Rightarrow> Engine \<Rightarrow> Engine sresult" where
  "abstractVerify c = onD (\<lambda>s. bindE (PopBool s) (\<lambda>(verified, s).
     if \<not> verified then scriptError c else Inr s))"

definition opcodeVerify :: handler where
  "opcodeVerify op vm = abstractVerify ErrVerify vm"

definition opcodeReturn :: handler where
  "opcodeReturn op vm = scriptError ErrEarlyReturn"

section \<open>Lock times\<close>

definition verifyLockTime :: "int \<Rightarrow> int \<Rightarrow> int \<Rightarrow> unit sresult" where
  "verifyLockTime txLockTime threshold lockTime =
     (if \<not> ((txLockTime < threshold \<and> lockTime < threshold) \<or>
            (txLockTime \<ge> threshold \<and> lockTime \<ge> threshold)) then scriptError ErrUnsatisfiedLockTime
      else if lockTime > txLockTime then scriptError ErrUnsatisfiedLockTime
      else Inr ())"

definition opcodeCheckLockTimeVerify :: handler where
  "opcodeCheckLockTimeVerify op vm =
     (if \<not> hasFlag vm ScriptVerifyCheckLockTimeVerify then
        (if hasFlag vm ScriptDiscourageUpgradableNops then scriptError ErrDiscourageUpgradableNOPs
         else Inr vm)
      else bindE (PeekByteArray (dstack vm) 0) (\<lambda>so.
        bindE (makeScriptNum so (verifyMinimalData (dstack vm)) 5) (\<lambda>lockTime.
        if lockTime < 0 then scriptError ErrNegativeLockTime
        else bindE (verifyLockTime (uint (LockTime (tx vm))) LockTimeThreshold lockTime) (\<lambda>_.
        bindE (curTxIn vm) (\<lambda>ti.
        if Sequence ti = 0xffffffff then scriptError ErrUnsatisfiedLockTime else Inr vm)))))"

definition opcodeCheckSequenceVerify :: handler where
  "opcodeCheckSequenceVerify op vm =
     (if \<not> hasFlag vm ScriptVerifyCheckSequenceVerify then
        (if hasFlag vm ScriptDiscourageUpgradableNops then scriptError ErrDiscourageUpgradableNOPs
         else Inr vm)
      else bindE (PeekByteArray (dstack vm) 0) (\<lambda>so.
        bindE (makeScriptNum so (verifyMinimalData (dstack vm)) 5) (\<lambda>sq.
        if sq < 0 then scriptError ErrNegativeLockTime
        else if sq AND 0x80000000 \<noteq> 0 then Inr vm
        else if Version (tx vm) \<noteq> 2 then scriptError ErrUnsatisfiedLockTime
        else bindE (curTxIn vm) (\<lambda>ti.
          let txSequence = uint (Sequence ti); lockTimeMask = 0x400000 OR 0xffff
          in if txSequence AND 0x80000000 \<noteq> 0 then scriptError ErrUnsatisfiedLockTime
             else bindE (verifyLockTime (txSequence AND lockTimeMask) 0x400000 (sq AND lockTimeMask))
                    (\<lambda>_. Inr vm)))))"

section \<open>Stack opcodes\<close>

definition opcodeToAltStack :: handler where
  "opcodeToAltStack op vm = bindE (PopByteArray (dstack vm)) (\<lambda>(so, s).
     Inr (vm\<lparr>dstack := s, astack := PushByteArray (astack vm) so\<rparr>))"

definition opcodeFromAltStack :: handler where
  "opcodeFromAltStack op vm = bindE (PopByteArray (astack vm)) (\<lambda>(so, s).
     Inr (vm\<lparr>astack := s, dstack := PushByteArray (dstack vm) so\<rparr>))"

definition opcode2Drop :: handler where "opcode2Drop op = onD (\<lambda>s. DropN s 2)"
definition opcode2Dup :: handler where "opcode2Dup op = onD (\<lambda>s. DupN s 2)"
definition opcode3Dup :: handler where "opcode3Dup op = onD (\<lambda>s. DupN s 3)"
definition opcode2Over :: handler where "opcode2Over op = onD (\<lambda>s. OverN s 2)"
definition opcode2Rot :: handler where "opcode2Rot op = onD (\<lambda>s. RotN s 2)"
definition opcode2Swap :: handler where "opcode2Swap op = onD (\<lambda>s. SwapN s 2)"

definition opcodeIfDup :: handler where
  "opcodeIfDup op = onD (\<lambda>s. bindE (PeekByteArray s 0) (\<lambda>so.
     Inr (if asBool so then PushByteArray s so else s)))"

definition opcodeDepth :: handler where "opcodeDepth op = onD (\<lambda>s. PushInt s (Depth s))"
definition opcodeDrop :: handler where "opcodeDrop op = onD (\<lambda>s. DropN s 1)"
definition opcodeDup :: handler where "opcodeDup op = onD (\<lambda>s. DupN s 1)"
definition opcodeNip :: handler where "opcodeNip op = onD (\<lambda>s. NipN s 1)"
definition opcodeOver :: handler where "opcodeOver op = onD (\<lambda>s. OverN s 1)"

definition opcodePick :: handler where
  "opcodePick op = onD (\<lambda>s. bindE (PopInt s) (\<lambda>(val, s). PickN s (Int32 val)))"

definition opcodeRoll :: handler where
  "opcodeRoll op = onD (\<lambda>s. bindE (PopInt s) (\<lambda>(val, s). RollN s (Int32 val)))"

definition opcodeRot :: handler where "opcodeRot op = onD (\<lambda>s. RotN s 1)"
definition opcodeSwap :: handler where "opcodeSwap op = onD (\<lambda>s. SwapN s 1)"
definition opcodeTuck :: handler where "opcodeTuck op = onD Tuck"

definition opcodeSize :: handler where
  "opcodeSize op = onD (\<lambda>s. bindE (PeekByteArray s 0) (\<lambda>so. PushInt s (int (length so))))"

definition opcodeEqual :: handler where
  "opcodeEqual op = onD (\<lambda>s. bindE (PopByteArray s) (\<lambda>(a, s). bindE (PopByteArray s) (\<lambda>(b, s).
     Inr (PushBool s (a = b)))))"

definition opcodeEqualVerify :: handler where
  "opcodeEqualVerify op vm = bindE (opcodeEqual op vm) (abstractVerify ErrEqualVerify)"

section \<open>Numeric opcodes\<close>

text \<open>Pop one, two or three numbers, the top one first, and push a result.\<close>

definition num1 :: "(int \<Rightarrow> int) \<Rightarrow> stack \<Rightarrow> stack sresult" where
  "num1 f s = bindE (PopInt s) (\<lambda>(m, s). PushInt s (f m))"

definition num2 :: "(int \<Rightarrow> int \<Rightarrow> int) \<Rightarrow> stack \<Rightarrow> stack sresult" where
  "num2 f s = bindE (PopInt s) (\<lambda>(v0, s). bindE (PopInt s) (\<lambda>(v1, s). PushInt s (f v0 v1)))"

definition opcode1Add :: handler where "opcode1Add op = onD (num1 (\<lambda>m. to_int64 (m + 1)))"
definition opcode1Sub :: handler where "opcode1Sub op = onD (num1 (\<lambda>m. to_int64 (m - 1)))"
definition opcodeNegate :: handler where "opcodeNegate op = onD (num1 (\<lambda>m. to_int64 (- m)))"
definition opcodeAbs :: handler where
  "opcodeAbs op = onD (num1 (\<lambda>m. if m < 0 then to_int64 (- m) else m))"
definition opcodeNot :: handler where "opcodeNot op = onD (num1 (\<lambda>m. if m = 0 then 1 else 0))"
definition opcode0NotEqual :: handler where
  "opcode0NotEqual op = onD (num1 (\<lambda>m. if m \<noteq> 0 then 1 else m))"
definition opcodeAdd :: handler where "opcodeAdd op = onD (num2 (\<lambda>v0 v1. to_int64 (v0 + v1)))"
definition opcodeSub :: handler where "opcodeSub op = onD (num2 (\<lambda>v0 v1. to_int64 (v1 - v0)))"
definition opcodeBoolAnd :: handler where
  "opcodeBoolAnd op = onD (num2 (\<lambda>v0 v1. if v0 \<noteq> 0 \<and> v1 \<noteq> 0 then 1 else 0))"
definition opcodeBoolOr :: handler where
  "opcodeBoolOr op = onD (num2 (\<lambda>v0 v1. if v0 \<noteq> 0 \<or> v1 \<noteq> 0 then 1 else 0))"
definition opcodeNumEqual :: handler where
  "opcodeNumEqual op = onD (num2 (\<lambda>v0 v1. if v0 = v1 then 1 else 0))"
definition opcodeNumEqualVerify :: handler where
  "opcodeNumEqualVerify op vm = bindE (opcodeNumEqual op vm) (abstractVerify ErrNumEqualVerify)"
definition opcodeNumNotEqual :: handler where
  "opcodeNumNotEqual op = onD (num2 (\<lambda>v0 v1. if v0 \<noteq> v1 then 1 else 0))"
definition opcodeLessThan :: handler where
  "opcodeLessThan op = onD (num2 (\<lambda>v0 v1. if v1 < v0 then 1 else 0))"
definition opcodeGreaterThan :: handler where
  "opcodeGreaterThan op = onD (num2 (\<lambda>v0 v1. if v1 > v0 then 1 else 0))"
definition opcodeLessThanOrEqual :: handler where
  "opcodeLessThanOrEqual op = onD (num2 (\<lambda>v0 v1. if v1 \<le> v0 then 1 else 0))"
definition opcodeGreaterThanOrEqual :: handler where
  "opcodeGreaterThanOrEqual op = onD (num2 (\<lambda>v0 v1. if v1 \<ge> v0 then 1 else 0))"
definition opcodeMin :: handler where
  "opcodeMin op = onD (num2 (\<lambda>v0 v1. if v1 < v0 then v1 else v0))"
definition opcodeMax :: handler where
  "opcodeMax op = onD (num2 (\<lambda>v0 v1. if v1 > v0 then v1 else v0))"
definition opcodeWithin :: handler where
  "opcodeWithin op = onD (\<lambda>s. bindE (PopInt s) (\<lambda>(maxVal, s). bindE (PopInt s) (\<lambda>(minVal, s).
     bindE (PopInt s) (\<lambda>(x, s). PushInt s (if x \<ge> minVal \<and> x < maxVal then 1 else 0)))))"

section \<open>Hash opcodes\<close>

definition hash1 :: "(bytes \<Rightarrow> bytes) \<Rightarrow> stack \<Rightarrow> stack sresult" where
  "hash1 h s = bindE (PopByteArray s) (\<lambda>(buf, s). Inr (PushByteArray s (h buf)))"

definition opcodeRipemd160 :: "env \<Rightarrow> handler" where
  "opcodeRipemd160 e op = onD (hash1 (ripemd160 e))"
definition opcodeSha1 :: "env \<Rightarrow> handler" where
  "opcodeSha1 e op = onD (hash1 (sha1 e))"
definition opcodeSha256 :: "env \<Rightarrow> handler" where
  "opcodeSha256 e op = onD (hash1 (sha256 e))"
definition opcodeHash160 :: "env \<Rightarrow> handler" where
  "opcodeHash160 e op = onD (hash1 (\<lambda>buf. ripemd160 e (sha256 e buf)))"
definition opcodeHash256 :: "env \<Rightarrow> handler" where
  "opcodeHash256 e op = onD (hash1 (DoubleHashB e))"

definition opcodeCodeSeparator :: handler where
  "opcodeCodeSeparator op vm = Inr (vm\<lparr>lastCodeSep := scriptOff vm\<rparr>)"

section \<open>Signature checks\<close>

text \<open>\<^verbatim>\<open>copy(sigHash[:], hashData)\<close> into a 32-byte array.\<close>

definition copyHash :: "bytes \<Rightarrow> bytes" where
  "copyHash h = take 32 (h @ replicate 32 0)"

text \<open>The digest the current signature signs, with the script it is applied to.\<close>

definition signatureHash :: "env \<Rightarrow> Engine \<Rightarrow> parsedOpcode list \<Rightarrow> u32 \<Rightarrow> bytes sresult" where
  "signatureHash e vm script hashType =
     (if isWitnessVersionActive vm 0 then
        let sigHashes = (case hashCache vm of Some h \<Rightarrow> h | None \<Rightarrow> NewTxSigHashes (DoubleHashB e) (tx vm))
        in calcWitnessSignatureHash (DoubleHashB e) script sigHashes hashType (tx vm) (txIdx vm) (inputAmount vm)
      else calcSignatureHash (DoubleHashB e) script hashType (tx vm) (txIdx vm))"

definition parseSig :: "env \<Rightarrow> Engine \<Rightarrow> bytes \<Rightarrow> signature option" where
  "parseSig e vm sigBytes =
     (if hasFlag vm ScriptVerifyStrictEncoding \<or> hasFlag vm ScriptVerifyDERSignatures
      then ParseDERSignature e sigBytes else ParseSignature e sigBytes)"

text \<open>Verification through the cache, which is updated on a miss.\<close>

definition verifyCached :: "env \<Rightarrow> Engine \<Rightarrow> bytes \<Rightarrow> signature \<Rightarrow> pubkey \<Rightarrow> bool \<times> Engine" where
  "verifyCached e vm hashData sg pk =
     (case sigCache vm of
        None \<Rightarrow> (Verify e sg hashData pk, vm)
      | Some c \<Rightarrow>
          let sigHash = copyHash hashData
          in if Exists c sigHash sg pk then (True, vm)
             else if Verify e sg hashData pk then (True, vm\<lparr>sigCache := Some (AddSig e c sigHash sg pk)\<rparr>)
             else (False, vm))"

definition pushD :: "Engine \<Rightarrow> bool \<Rightarrow> Engine" where
  "pushD vm b = vm\<lparr>dstack := PushBool (dstack vm) b\<rparr>"

definition opcodeCheckSig :: "env \<Rightarrow> handler" where
  "opcodeCheckSig e op vm =
     bindE (PopByteArray (dstack vm)) (\<lambda>(pkBytes, s).
     bindE (PopByteArray s) (\<lambda>(fullSigBytes, s).
     let vm = vm\<lparr>dstack := s\<rparr>
     in if length fullSigBytes < 1 then Inr (pushD vm False)
        else
          let hashType = ucast (fullSigBytes ! (length fullSigBytes - 1));
              sigBytes = take (length fullSigBytes - 1) fullSigBytes
          in bindE (checkHashTypeEncoding vm hashType) (\<lambda>_.
             bindE (checkSignatureEncoding vm sigBytes) (\<lambda>_.
             bindE (checkPubKeyEncoding vm pkBytes) (\<lambda>_.
             bindE (subScript vm) (\<lambda>script.
             bindE (signatureHash e vm
                (if isWitnessVersionActive vm 0 then script else removeOpcodeByData script fullSigBytes)
                hashType) (\<lambda>hashData.
             case ParsePubKey e pkBytes of None \<Rightarrow> Inr (pushD vm False)
             | Some pk \<Rightarrow>
                 (case parseSig e vm sigBytes of None \<Rightarrow> Inr (pushD vm False)
                  | Some sg \<Rightarrow>
                      let (valid, vm) = verifyCached e vm hashData sg pk
                      in if \<not> valid \<and> hasFlag vm ScriptVerifyNullFail \<and> length sigBytes > 0
                         then scriptError ErrNullFail else Inr (pushD vm valid)))))))))"

definition opcodeCheckSigVerify :: "env \<Rightarrow> handler" where
  "opcodeCheckSigVerify e op vm = bindE (opcodeCheckSig e op vm) (abstractVerify ErrCheckSigVerify)"

record parsedSigInfo =
  si_signature :: bytes
  parsedSignature :: "signature option"
  parsed :: bool

text \<open>Reads \<open>n\<close> items from the top of the stack.\<close>

fun popItems :: "nat \<Rightarrow> stack \<Rightarrow> (bytes list \<times> stack) sresult" where
  "popItems 0 s = Inr ([], s)"
| "popItems (Suc n) s = bindE (PopByteArray s) (\<lambda>(x, s). bindE (popItems n s) (\<lambda>(xs, s). Inr (x # xs, s)))"

text \<open>
  The parse of the signature under the cursor, done once: the entry with the result, and the
  parsed signature if there is one.
\<close>

definition parseOnce :: "env \<Rightarrow> Engine \<Rightarrow> parsedSigInfo \<Rightarrow> (parsedSigInfo \<times> signature option) sresult" where
  "parseOnce e vm si =
     (let rawSig = si_signature si;
          hashType = ucast (rawSig ! (length rawSig - 1));
          signature = take (length rawSig - 1) rawSig
      in if \<not> parsed si then
           bindE (checkHashTypeEncoding vm hashType) (\<lambda>_.
           bindE (checkSignatureEncoding vm signature) (\<lambda>_.
             Inr (case parseSig e vm signature of
                    None \<Rightarrow> (si\<lparr>parsed := True\<rparr>, None)
                  | Some sg \<Rightarrow> (si\<lparr>parsed := True, parsedSignature := Some sg\<rparr>, Some sg))))
         else Inr (si, parsedSignature si))"

text \<open>
  The loop over keys and signatures. \<open>pubKeyIdx\<close> is the index of the next key, and the recursion
  is on the counter \<^verbatim>\<open>numPubKeys\<close>, which the code decrements in every round.
\<close>

fun multiSigLoop :: "env \<Rightarrow> parsedOpcode list \<Rightarrow> bytes list \<Rightarrow> nat \<Rightarrow> nat \<Rightarrow> nat \<Rightarrow> nat \<Rightarrow>
    parsedSigInfo list \<Rightarrow> Engine \<Rightarrow> (bool \<times> Engine) sresult" where
  "multiSigLoop e script pubKeys 0 numSignatures pubKeyIdx signatureIdx sigs vm =
     Inr (numSignatures = 0, vm)"
| "multiSigLoop e script pubKeys (Suc numPubKeys) numSignatures pubKeyIdx signatureIdx sigs vm =
     (if numSignatures = 0 then Inr (True, vm)
      else if numSignatures > numPubKeys then Inr (False, vm)
      else bindE (getE sigs signatureIdx) (\<lambda>si. bindE (getE pubKeys pubKeyIdx) (\<lambda>pubKey.
        let next = (\<lambda>sigs vm. multiSigLoop e script pubKeys numPubKeys numSignatures (pubKeyIdx + 1)
                      signatureIdx sigs vm)
        in if length (si_signature si) = 0 then next sigs vm
           else bindE (parseOnce e vm si) (\<lambda>(si', parsedSig).
             let sigs = sigs[signatureIdx := si']
             in case parsedSig of None \<Rightarrow> next sigs vm
                | Some sg \<Rightarrow>
                    bindE (checkPubKeyEncoding vm pubKey) (\<lambda>_.
                    case ParsePubKey e pubKey of None \<Rightarrow> next sigs vm
                    | Some pk \<Rightarrow>
                        bindE (signatureHash e vm script
                            (ucast (si_signature si ! (length (si_signature si) - 1)))) (\<lambda>hashData.
                        let (valid, vm) = verifyCached e vm hashData sg pk
                        in if valid then multiSigLoop e script pubKeys numPubKeys (numSignatures - 1)
                                           (pubKeyIdx + 1) (signatureIdx + 1) sigs vm
                           else next sigs vm))))))"

definition opcodeCheckMultiSig :: "env \<Rightarrow> handler" where
  "opcodeCheckMultiSig e op vm =
     bindE (PopInt (dstack vm)) (\<lambda>(numKeys, s).
     let numPubKeys = Int32 numKeys; vm = vm\<lparr>numOps := numOps vm + numPubKeys\<rparr>
     in if numPubKeys < 0 then scriptError ErrInvalidPubKeyCount
        else if numPubKeys > MaxPubKeysPerMultiSig then scriptError ErrInvalidPubKeyCount
        else if numOps vm > MaxOpsPerScript then scriptError ErrTooManyOperations
        else bindE (popItems (nat numPubKeys) s) (\<lambda>(pubKeys, s).
        bindE (PopInt s) (\<lambda>(numSigs, s).
        let numSignatures = Int32 numSigs
        in if numSignatures < 0 then scriptError ErrInvalidSignatureCount
           else if numSignatures > numPubKeys then scriptError ErrInvalidSignatureCount
           else bindE (popItems (nat numSignatures) s) (\<lambda>(signatures, s).
           bindE (PopByteArray s) (\<lambda>(dummy, s).
           let vm = vm\<lparr>dstack := s\<rparr>
           in if hasFlag vm ScriptStrictMultiSig \<and> length dummy \<noteq> 0 then scriptError ErrSigNullDummy
              else bindE (subScript vm) (\<lambda>script.
              let script = (if \<not> isWitnessVersionActive vm 0
                            then fold (\<lambda>sg script. removeOpcodeByData script sg) signatures script
                            else script)
              in bindE (multiSigLoop e script pubKeys (nat numPubKeys + 1) (nat numSignatures) 0 0
                   (map (\<lambda>sg. \<lparr>si_signature = sg, parsedSignature = None, parsed = False\<rparr>) signatures) vm)
                   (\<lambda>(success, vm).
                 if \<not> success \<and> hasFlag vm ScriptVerifyNullFail \<and> list_ex (\<lambda>sg. length sg > 0) signatures
                 then scriptError ErrNullFail else Inr (pushD vm success))))))))"

definition opcodeCheckMultiSigVerify :: "env \<Rightarrow> handler" where
  "opcodeCheckMultiSigVerify e op vm =
     bindE (opcodeCheckMultiSig e op vm) (abstractVerify ErrCheckMultiSigVerify)"

section \<open>The dispatch table\<close>

definition opfunc :: "env \<Rightarrow> u8 \<Rightarrow> handler" where
  "opfunc e v =
     (if v = OP_0 then opcodeFalse
      else if v \<le> OP_PUSHDATA4 then opcodePushData
      else if v = OP_1NEGATE then opcode1Negate
      else if v = OP_RESERVED then opcodeReserved
      else if v \<le> OP_16 then opcodeN
      else if v = OP_NOP then opcodeNop
      else if v = OP_VER then opcodeReserved
      else if v = OP_IF then opcodeIf
      else if v = OP_NOTIF then opcodeNotIf
      else if v = OP_VERIF then opcodeReserved
      else if v = OP_VERNOTIF then opcodeReserved
      else if v = OP_ELSE then opcodeElse
      else if v = OP_ENDIF then opcodeEndif
      else if v = OP_VERIFY then opcodeVerify
      else if v = OP_RETURN then opcodeReturn
      else if v = OP_TOALTSTACK then opcodeToAltStack
      else if v = OP_FROMALTSTACK then opcodeFromAltStack
      else if v = OP_2DROP then opcode2Drop
      else if v = OP_2DUP then opcode2Dup
      else if v = OP_3DUP then opcode3Dup
      else if v = OP_2OVER then opcode2Over
      else if v = OP_2ROT then opcode2Rot
      else if v = OP_2SWAP then opcode2Swap
      else if v = OP_IFDUP then opcodeIfDup
      else if v = OP_DEPTH then opcodeDepth
      else if v = OP_DROP then opcodeDrop
      else if v = OP_DUP then opcodeDup
      else if v = OP_NIP then opcodeNip
      else if v = OP_OVER then opcodeOver
      else if v = OP_PICK then opcodePick
      else if v = OP_ROLL then opcodeRoll
      else if v = OP_ROT then opcodeRot
      else if v = OP_SWAP then opcodeSwap
      else if v = OP_TUCK then opcodeTuck
      else if v = OP_CAT \<or> v = OP_SUBSTR \<or> v = OP_LEFT \<or> v = OP_RIGHT then opcodeDisabled
      else if v = OP_SIZE then opcodeSize
      else if v = OP_INVERT \<or> v = OP_AND \<or> v = OP_OR \<or> v = OP_XOR then opcodeDisabled
      else if v = OP_EQUAL then opcodeEqual
      else if v = OP_EQUALVERIFY then opcodeEqualVerify
      else if v = OP_RESERVED1 then opcodeReserved
      else if v = OP_RESERVED2 then opcodeReserved
      else if v = OP_1ADD then opcode1Add
      else if v = OP_1SUB then opcode1Sub
      else if v = OP_2MUL \<or> v = OP_2DIV then opcodeDisabled
      else if v = OP_NEGATE then opcodeNegate
      else if v = OP_ABS then opcodeAbs
      else if v = OP_NOT then opcodeNot
      else if v = OP_0NOTEQUAL then opcode0NotEqual
      else if v = OP_ADD then opcodeAdd
      else if v = OP_SUB then opcodeSub
      else if v = OP_MUL \<or> v = OP_DIV \<or> v = OP_MOD \<or> v = OP_LSHIFT \<or> v = OP_RSHIFT then opcodeDisabled
      else if v = OP_BOOLAND then opcodeBoolAnd
      else if v = OP_BOOLOR then opcodeBoolOr
      else if v = OP_NUMEQUAL then opcodeNumEqual
      else if v = OP_NUMEQUALVERIFY then opcodeNumEqualVerify
      else if v = OP_NUMNOTEQUAL then opcodeNumNotEqual
      else if v = OP_LESSTHAN then opcodeLessThan
      else if v = OP_GREATERTHAN then opcodeGreaterThan
      else if v = OP_LESSTHANOREQUAL then opcodeLessThanOrEqual
      else if v = OP_GREATERTHANOREQUAL then opcodeGreaterThanOrEqual
      else if v = OP_MIN then opcodeMin
      else if v = OP_MAX then opcodeMax
      else if v = OP_WITHIN then opcodeWithin
      else if v = OP_RIPEMD160 then opcodeRipemd160 e
      else if v = OP_SHA1 then opcodeSha1 e
      else if v = OP_SHA256 then opcodeSha256 e
      else if v = OP_HASH160 then opcodeHash160 e
      else if v = OP_HASH256 then opcodeHash256 e
      else if v = OP_CODESEPARATOR then opcodeCodeSeparator
      else if v = OP_CHECKSIG then opcodeCheckSig e
      else if v = OP_CHECKSIGVERIFY then opcodeCheckSigVerify e
      else if v = OP_CHECKMULTISIG then opcodeCheckMultiSig e
      else if v = OP_CHECKMULTISIGVERIFY then opcodeCheckMultiSigVerify e
      else if v = OP_NOP1 then opcodeNop
      else if v = OP_CHECKLOCKTIMEVERIFY then opcodeCheckLockTimeVerify
      else if v = OP_CHECKSEQUENCEVERIFY then opcodeCheckSequenceVerify
      else if v = OP_INPUTAGE then opcodeInputAge
      else if v \<le> OP_NOP10 then opcodeNop
      else opcodeInvalid)"

section \<open>Handlers keep the program counter, the scripts and the transaction\<close>

definition fixed_part :: "Engine \<Rightarrow> _" where
  "fixed_part vm = (scripts vm, scriptIdx vm, scriptOff vm, tx vm, txIdx vm, flags vm, hashCache vm,
     bip16 vm, savedFirstStack vm, witnessVersion vm, witnessProgram vm, inputAmount vm)"

lemma fixed_part_update [simp]:
  "fixed_part (vm\<lparr>dstack := s\<rparr>) = fixed_part vm" "fixed_part (vm\<lparr>astack := s\<rparr>) = fixed_part vm"
  "fixed_part (vm\<lparr>condStack := c\<rparr>) = fixed_part vm" "fixed_part (vm\<lparr>numOps := n\<rparr>) = fixed_part vm"
  "fixed_part (vm\<lparr>sigCache := sc\<rparr>) = fixed_part vm" "fixed_part (vm\<lparr>lastCodeSep := l\<rparr>) = fixed_part vm"
  by (simp_all add: fixed_part_def)

lemma fixed_part_eqD:
  assumes "fixed_part vm' = fixed_part vm"
  shows "scripts vm' = scripts vm" "scriptIdx vm' = scriptIdx vm" "scriptOff vm' = scriptOff vm"
    "tx vm' = tx vm" "txIdx vm' = txIdx vm" "flags vm' = flags vm" "hashCache vm' = hashCache vm"
    "bip16 vm' = bip16 vm" "savedFirstStack vm' = savedFirstStack vm"
    "witnessVersion vm' = witnessVersion vm" "witnessProgram vm' = witnessProgram vm"
    "inputAmount vm' = inputAmount vm"
  using assms by (simp_all add: fixed_part_def)

definition keeps :: "handler \<Rightarrow> bool" where
  "keeps h \<longleftrightarrow> (\<forall>op vm. succE (h op vm) (\<lambda>vm'. fixed_part vm' = fixed_part vm))"

lemma keepsI: "(\<And>op vm. succE (h op vm) (\<lambda>vm'. fixed_part vm' = fixed_part vm)) \<Longrightarrow> keeps h"
  by (simp add: keeps_def)

lemma keepsD: "keeps h \<Longrightarrow> h op vm = Inr vm' \<Longrightarrow> fixed_part vm' = fixed_part vm"
  by (auto simp: keeps_def succE_def)

lemma fixed_onD: "fixed_part vm = f \<Longrightarrow> succE (onD g vm) (\<lambda>vm'. fixed_part vm' = f)"
  by (simp add: onD_def succE_all)

named_theorems keeps_intros
named_theorems handler_defs

lemmas [handler_defs] = opcodeFalse_def opcodePushData_def opcode1Negate_def opcodeN_def
  opcode2Drop_def opcode2Dup_def opcode3Dup_def opcode2Over_def opcode2Rot_def opcode2Swap_def
  opcodeIfDup_def opcodeDepth_def opcodeDrop_def opcodeDup_def opcodeNip_def opcodeOver_def
  opcodePick_def opcodeRoll_def opcodeRot_def opcodeSwap_def opcodeTuck_def opcodeSize_def
  opcodeEqual_def opcode1Add_def opcode1Sub_def opcodeNegate_def opcodeAbs_def opcodeNot_def
  opcode0NotEqual_def opcodeAdd_def opcodeSub_def opcodeBoolAnd_def opcodeBoolOr_def
  opcodeNumEqual_def opcodeNumNotEqual_def opcodeLessThan_def opcodeGreaterThan_def
  opcodeLessThanOrEqual_def opcodeGreaterThanOrEqual_def opcodeMin_def opcodeMax_def
  opcodeWithin_def opcodeRipemd160_def opcodeSha1_def opcodeSha256_def opcodeHash160_def
  opcodeHash256_def

text \<open>The handlers that are liftings of a stack function.\<close>

lemma keeps_stack_handlers [keeps_intros]:
  "keeps opcodeFalse" "keeps opcodePushData" "keeps opcode1Negate" "keeps opcodeN"
  "keeps opcode2Drop" "keeps opcode2Dup" "keeps opcode3Dup" "keeps opcode2Over" "keeps opcode2Rot"
  "keeps opcode2Swap" "keeps opcodeIfDup" "keeps opcodeDepth" "keeps opcodeDrop" "keeps opcodeDup"
  "keeps opcodeNip" "keeps opcodeOver" "keeps opcodePick" "keeps opcodeRoll" "keeps opcodeRot"
  "keeps opcodeSwap" "keeps opcodeTuck" "keeps opcodeSize" "keeps opcodeEqual" "keeps opcode1Add"
  "keeps opcode1Sub" "keeps opcodeNegate" "keeps opcodeAbs" "keeps opcodeNot" "keeps opcode0NotEqual"
  "keeps opcodeAdd" "keeps opcodeSub" "keeps opcodeBoolAnd" "keeps opcodeBoolOr" "keeps opcodeNumEqual"
  "keeps opcodeNumNotEqual" "keeps opcodeLessThan" "keeps opcodeGreaterThan" "keeps opcodeLessThanOrEqual"
  "keeps opcodeGreaterThanOrEqual" "keeps opcodeMin" "keeps opcodeMax" "keeps opcodeWithin"
  "keeps (opcodeRipemd160 e)" "keeps (opcodeSha1 e)" "keeps (opcodeSha256 e)" "keeps (opcodeHash160 e)"
  "keeps (opcodeHash256 e)"
  by (rule keepsI, simp add: handler_defs fixed_onD)+

lemma fixed_abstractVerify:
  "fixed_part vm = f \<Longrightarrow> succE (abstractVerify c vm) (\<lambda>vm'. fixed_part vm' = f)"
  by (simp add: abstractVerify_def fixed_onD)

lemma fixed_popIfBool:
  "fixed_part vm = f \<Longrightarrow> (\<And>b vm'. fixed_part vm' = f \<Longrightarrow> Q (b, vm')) \<Longrightarrow> succE (popIfBool vm) Q"
  unfolding popIfBool_def by (simp add: split_beta succE_all)

lemma keeps_conditionals [keeps_intros]:
  "keeps opcodeIf" "keeps opcodeNotIf" "keeps opcodeElse" "keeps opcodeEndif" "keeps opcodeVerify"
  "keeps opcodeReturn"
  by (rule keepsI; auto simp: opcodeIf_def opcodeNotIf_def opcodeElse_def opcodeEndif_def opcodeVerify_def
      opcodeReturn_def pushCond_def Let_def split: OpCond.splits intro!: fixed_popIfBool fixed_abstractVerify)+

lemma keeps_other_handlers [keeps_intros]:
  "keeps opcodeDisabled" "keeps opcodeReserved" "keeps opcodeInvalid" "keeps opcodeInputAge"
  "keeps opcodeNop" "keeps opcodeCheckLockTimeVerify" "keeps opcodeCheckSequenceVerify"
  "keeps opcodeToAltStack" "keeps opcodeFromAltStack" "keeps opcodeCodeSeparator"
  by (rule keepsI; simp add: opcodeDisabled_def opcodeReserved_def opcodeInvalid_def opcodeInputAge_def
      opcodeNop_def opcodeCheckLockTimeVerify_def opcodeCheckSequenceVerify_def opcodeToAltStack_def
      opcodeFromAltStack_def opcodeCodeSeparator_def Let_def split_beta fixed_onD)+

lemma keeps_verify:
  "keeps h \<Longrightarrow> keeps (\<lambda>op vm. bindE (h op vm) (abstractVerify c))"
  unfolding keeps_def succE_bind by (blast intro: succE_weaken fixed_abstractVerify)

lemma keeps_equal_verify [keeps_intros]: "keeps opcodeEqualVerify" "keeps opcodeNumEqualVerify"
  unfolding opcodeEqualVerify_def opcodeNumEqualVerify_def
  by (intro keeps_verify keeps_intros)+

lemma fixed_verifyCached [simp]: "fixed_part (snd (verifyCached e vm h sg pk)) = fixed_part vm"
  by (auto simp: verifyCached_def Let_def split: option.splits)

lemma fixed_pushD [simp]: "fixed_part (pushD vm b) = fixed_part vm"
  by (simp add: pushD_def)

lemma if_intro: "(c \<Longrightarrow> P a) \<Longrightarrow> (\<not> c \<Longrightarrow> P b) \<Longrightarrow> P (if c then a else b)"
  by simp

lemma keeps_CheckSig [keeps_intros]: "keeps (opcodeCheckSig e)"
  by (rule keepsI) (auto simp: opcodeCheckSig_def Let_def split_beta split: option.splits intro!: succE_all)

lemma fixed_multiSigLoop:
  "succE (multiSigLoop e script pubKeys n k i j sigs vm) (\<lambda>(b, vm'). fixed_part vm' = fixed_part vm)"
proof (induction n arbitrary: k i j sigs vm)
  case (Suc n)
  have IH: "fixed_part vm' = fixed_part vm \<Longrightarrow> succE (multiSigLoop e script pubKeys n k i j sigs vm')
      (\<lambda>(b, vm'). fixed_part vm' = fixed_part vm)" for k i j sigs vm'
    using Suc.IH by metis
  show ?case
    by (auto simp: Let_def split_beta split: option.splits intro!: succE_all IH [unfolded split_beta])
qed simp

lemma keeps_CheckMultiSig [keeps_intros]: "keeps (opcodeCheckMultiSig e)"
proof (rule keepsI)
  fix op vm
  have loop: "fixed_part vm' = f \<Longrightarrow> (\<And>b vm''. fixed_part vm'' = f \<Longrightarrow> Q (b, vm'')) \<Longrightarrow>
      succE (multiSigLoop e script pubKeys n k i j sigs vm') Q" for script pubKeys n k i j sigs vm' f Q
    by (rule succE_weaken [OF fixed_multiSigLoop]) auto
  note pops = succE_all [where m = "PopInt s" for s] succE_all [where m = "popItems n s" for n s]
    succE_all [where m = "PopByteArray s" for s] succE_all [where m = "subScript vm" for vm]
  show "succE (opcodeCheckMultiSig e op vm) (\<lambda>vm'. fixed_part vm' = fixed_part vm)"
    unfolding opcodeCheckMultiSig_def Let_def split_beta succE_bind succE_if
    by (intro if_intro [of _ "\<lambda>b. b"] succE_simps(1) pops loop) simp_all
qed

lemma keeps_sig_verify [keeps_intros]:
  "keeps (opcodeCheckSigVerify e)" "keeps (opcodeCheckMultiSigVerify e)"
  unfolding opcodeCheckSigVerify_def opcodeCheckMultiSigVerify_def
  by (intro keeps_verify keeps_intros)+

lemma keeps_opfunc: "keeps (opfunc e v)"
  unfolding opfunc_def by (intro if_intro [of _ keeps] keeps_intros)

end
