(* ===== verification/ScriptSafety.thy ===== *)
theory ScriptSafety
  imports ScriptOps
begin

text \<open>
  No opcode handler panics. \<open>ready n vm\<close> bounds both stacks by \<open>n\<close> items, which keeps the 32-bit
  arithmetic of the stack depth exact, and states the facts about the program counter and the
  transaction index that the handlers index with. From a ready engine every handler returns a state
  or an error, and the bound grows by at most three.
\<close>

section \<open>Stack operations\<close>

text \<open>
  \<open>small s\<close>: no item is larger than the element limit. The rules are introduction rules in the style
  of weakest preconditions.
\<close>

definition small :: "stack \<Rightarrow> bool" where
  "small s \<longleftrightarrow> (\<forall>b \<in> set (stk s). length b \<le> 520)"

lemma small_Push [simp]: "small (PushByteArray s b) \<longleftrightarrow> small s \<and> length b \<le> 520"
  by (auto simp: small_def)

lemma small_PushBool [simp]: "small (PushBool s b) \<longleftrightarrow> small s"
  by (simp add: PushBool_def fromBool_def)

lemma length_PushBool [simp]: "length (stk (PushBool s b)) = Suc (length (stk s))"
  by (simp add: PushBool_def)

lemma okE_Pop:
  assumes "length (stk s) < 2 ^ 31" "small s"
    and "\<And>b s'. length (stk s) = Suc (length (stk s')) \<Longrightarrow> small s' \<Longrightarrow> length b \<le> 520 \<Longrightarrow> P (b, s')"
  shows "okE (PopByteArray s) P"
proof (cases "stk s" rule: rev_cases)
  case (snoc xs x)
  with assms Pop_snoc [of s xs x] show ?thesis by (auto simp: stack_fits_def small_def)
qed simp

lemma okE_makeScriptNum:
  assumes "1 \<le> k" "k \<le> 7" "\<And>v. \<bar>v\<bar> < 2 ^ (8 * k - 1) \<Longrightarrow> P v"
  shows "okE (makeScriptNum b m (int k)) P"
proof (cases "length b \<le> k")
  case True
  have "okE (if m then checkMinimalDataEncoding b else Inr ()) (\<lambda>_. True)"
    by (auto simp: checkMinimalDataEncoding_def)
  with True assms(1,2) assms(3) [OF snum_range [OF True assms(1)]] show ?thesis
    by (auto simp: makeScriptNum_eq elim!: okE_weaken)
qed (simp add: makeScriptNum_def)

lemma okE_PopInt:
  assumes "length (stk s) < 2 ^ 31" "small s"
    and "\<And>v s'. length (stk s) = Suc (length (stk s')) \<Longrightarrow> small s' \<Longrightarrow> \<bar>v\<bar> < 2 ^ 31 \<Longrightarrow> P (v, s')"
  shows "okE (PopInt s) P"
proof -
  have "okE (makeScriptNum b m defaultScriptNumLen) (\<lambda>v. okE (Inr (v, s')) P)"
    if "length (stk s) = Suc (length (stk s'))" "small s'" for b m s'
    using okE_makeScriptNum [of 4 "\<lambda>v. P (v, s')" b m] assms(3) [OF that]
    by (simp add: defaultScriptNumLen_def)
  then show ?thesis unfolding PopInt_def
    by (auto simp: split_beta intro!: okE_Pop [OF assms(1,2)])
qed

lemma okE_PopBool:
  assumes "length (stk s) < 2 ^ 31" "small s"
    and "\<And>v s'. length (stk s) = Suc (length (stk s')) \<Longrightarrow> small s' \<Longrightarrow> P (v, s')"
  shows "okE (PopBool s) P"
  unfolding PopBool_def using assms(3) by (auto simp: split_beta intro!: okE_Pop [OF assms(1,2)])

lemma okE_Peek:
  assumes "length (stk s) < 2 ^ 31" "small s" "\<And>b. length b \<le> 520 \<Longrightarrow> P b"
  shows "okE (PeekByteArray s i) P"
proof -
  have "stack_fits s" using assms(1) by (simp add: stack_fits_def)
  then show ?thesis
    by (rule Peek_cases [of s i]) (use assms(2) in \<open>auto simp: small_def intro!: assms(3)\<close>)
qed

lemma okE_nipN:
  assumes "length (stk s) < 2 ^ 31" "small s"
    and "\<And>b s'. length (stk s) = Suc (length (stk s')) \<Longrightarrow> small s' \<Longrightarrow> length b \<le> 520 \<Longrightarrow> P (b, s')"
  shows "okE (nipN s i) P"
proof -
  have "stack_fits s" using assms(1) by (simp add: stack_fits_def)
  then show ?thesis
    by (rule nipN_cases [of s i]) (use assms(2) in \<open>auto simp: small_def intro!: assms(3)\<close>)
qed

lemma okE_PushInt:
  assumes "small s" "\<bar>v\<bar> < 2 ^ 63"
    and "\<And>s'. length (stk s') = Suc (length (stk s)) \<Longrightarrow> small s' \<Longrightarrow> P s'"
  shows "okE (PushInt s v) P"
proof -
  obtain b where b: "Bytes v = Inr b" "snum_val b = v" "checkMinimalDataEncoding b = Inr ()"
    using Bytes_spec [of v] assms(2) by (auto simp: abs_less_iff)
  then have "length b \<le> 9" using Bytes_length [of 9 v b] assms(2) by simp
  with b assms(1,3) show ?thesis by (simp add: PushInt_def)
qed

lemma okE_peekPush:
  assumes "length (stk s) < 2 ^ 31" "small s"
    and "\<And>s'. length (stk s') = Suc (length (stk s)) \<Longrightarrow> small s' \<Longrightarrow> P s'"
  shows "okE (peekPush i s) P"
  unfolding peekPush_def using assms(2,3) by (auto intro!: okE_Peek [OF assms(1,2)])

lemma okE_nipPush:
  assumes "length (stk s) < 2 ^ 31" "small s"
    and "\<And>s'. length (stk s') = length (stk s) \<Longrightarrow> small s' \<Longrightarrow> P s'"
  shows "okE (nipPush i s) P"
  unfolding nipPush_def using assms(3) by (auto simp: split_beta intro!: okE_nipN [OF assms(1,2)])

lemmas okE_stack = okE_Pop okE_PopInt okE_PopBool okE_Peek okE_nipN okE_PushInt okE_peekPush okE_nipPush

section \<open>Stack functions\<close>

definition safeD :: "(stack \<Rightarrow> stack sresult) \<Rightarrow> bool" where
  "safeD f \<longleftrightarrow> (\<forall>s. length (stk s) + 3 < 2 ^ 31 \<and> small s \<longrightarrow>
     okE (f s) (\<lambda>s'. length (stk s') \<le> length (stk s) + 3 \<and> small s'))"

lemma safeD_intro:
  "(\<And>s. length (stk s) + 3 < 2 ^ 31 \<Longrightarrow> small s \<Longrightarrow>
      okE (f s) (\<lambda>s'. length (stk s') \<le> length (stk s) + 3 \<and> small s')) \<Longrightarrow> safeD f"
  by (simp add: safeD_def)

named_theorems safeD_intros

lemma safeD_num [safeD_intros]:
  "(\<And>v. \<bar>v\<bar> < 2 ^ 31 \<Longrightarrow> \<bar>f v\<bar> < 2 ^ 63) \<Longrightarrow> safeD (num1 f)"
  "(\<And>v w. \<bar>v\<bar> < 2 ^ 31 \<Longrightarrow> \<bar>w\<bar> < 2 ^ 31 \<Longrightarrow> \<bar>g v w\<bar> < 2 ^ 63) \<Longrightarrow> safeD (num2 g)"
  unfolding num1_def num2_def
  by (rule safeD_intro; auto simp: split_beta intro!: okE_PopInt okE_PushInt)+

lemma safeD_hash1 [safeD_intros]: "(\<And>x. length (h x) \<le> 520) \<Longrightarrow> safeD (hash1 h)"
  unfolding hash1_def by (rule safeD_intro) (auto simp: split_beta intro!: okE_Pop)

lemma safeD_DropN [safeD_intros]: "safeD (\<lambda>s. DropN s k)"
proof (rule safeD_intro)
  fix s :: stack
  assume a: "length (stk s) + 3 < 2 ^ 31" "small s"
  have "okE (timesE j (\<lambda>s. bindE (PopByteArray s) (\<lambda>(_, s'). Inr s')) s)
      (\<lambda>s'. length (stk s') \<le> length (stk s) \<and> small s')" for j
    by (rule okE_timesE) (use a in \<open>auto simp: split_beta intro!: okE_Pop\<close>)
  from okE_weaken [OF this, of _ "\<lambda>s'. length (stk s') \<le> length (stk s) + 3 \<and> small s'"]
  show "okE (DropN s k) (\<lambda>s'. length (stk s') \<le> length (stk s) + 3 \<and> small s')"
    by (simp add: DropN_def)
qed

lemma safeD_blocks [safeD_intros]:
  "safeD (\<lambda>s. DupN s 1)" "safeD (\<lambda>s. DupN s 2)" "safeD (\<lambda>s. DupN s 3)" "safeD (\<lambda>s. OverN s 1)"
  "safeD (\<lambda>s. OverN s 2)" "safeD (\<lambda>s. RotN s 1)" "safeD (\<lambda>s. RotN s 2)" "safeD (\<lambda>s. SwapN s 1)"
  "safeD (\<lambda>s. SwapN s 2)"
  by (rule safeD_intro; auto simp: DupN_def OverN_def RotN_def SwapN_def
      intro!: okE_peekPush okE_nipPush)+

lemma safeD_other [safeD_intros]:
  "safeD (\<lambda>s. NipN s i)" "safeD Tuck" "length b \<le> 520 \<Longrightarrow> safeD (\<lambda>s. Inr (PushByteArray s b))"
  "\<bar>v\<bar> < 2 ^ 63 \<Longrightarrow> safeD (\<lambda>s. PushInt s v)" "safeD (\<lambda>s. PushInt s (Depth s))"
  "safeD (\<lambda>s. bindE (PeekByteArray s 0) (\<lambda>so. Inr (if asBool so then PushByteArray s so else s)))"
  "safeD (\<lambda>s. bindE (PeekByteArray s 0) (\<lambda>so. PushInt s (int (length so))))"
  "safeD (\<lambda>s. bindE (PopInt s) (\<lambda>(val, s). PickN s (Int32 val)))"
  "safeD (\<lambda>s. bindE (PopInt s) (\<lambda>(val, s). RollN s (Int32 val)))"
  by (rule safeD_intro; auto simp: NipN_def Tuck_def PickN_def RollN_def split_beta stack_fits_def intro!: okE_stack)+

section \<open>Encodings and digests\<close>

lemma okE_getE: "i < length xs \<Longrightarrow> P (xs ! i) \<Longrightarrow> okE (getE xs i) P"
  by (simp add: getE_def)

lemma okE_trivial: "okE m (\<lambda>_. True) \<Longrightarrow> (\<And>a. P a) \<Longrightarrow> okE m P"
  by (erule okE_weaken)

lemma okE_checkSigInt:
  "ty < length sig \<Longrightarrow> off + len \<le> length sig \<Longrightarrow> P \<Longrightarrow> okE (checkSigInt sig ty off len e1 e2 e3 e4) (\<lambda>_. P)"
  unfolding checkSigInt_def by (auto intro!: okE_getE)

lemma okE_checkSignatureEncoding: "okE (checkSignatureEncoding vm sig) (\<lambda>_. True)"
  unfolding checkSignatureEncoding_def
  by (auto simp: Let_def not_less intro!: okE_getE okE_checkSigInt)

lemma okE_checkHashTypeEncoding: "okE (checkHashTypeEncoding vm ht) (\<lambda>_. True)"
  by (simp add: checkHashTypeEncoding_def Let_def)

lemma okE_checkPubKeyEncoding: "okE (checkPubKeyEncoding vm pk) (\<lambda>_. True)"
  by (simp add: checkPubKeyEncoding_def)

text \<open>The states from which handlers run.\<close>

definition ready :: "nat \<Rightarrow> Engine \<Rightarrow> bool" where
  "ready n vm \<longleftrightarrow> length (stk (dstack vm)) \<le> n \<and> length (stk (astack vm)) \<le> n \<and>
     small (dstack vm) \<and> small (astack vm) \<and>
     0 \<le> txIdx vm \<and> txIdx vm < int (length (TxIns (tx vm))) \<and>
     (\<forall>ti \<in> set (TxIns (tx vm)). \<bar>Age ti\<bar> < 2 ^ 63) \<and>
     scriptIdx vm < length (scripts vm) \<and> lastCodeSep vm \<le> length (scripts vm ! scriptIdx vm) \<and>
     scriptOff vm \<le> length (scripts vm ! scriptIdx vm)"

lemma ready_mono: "ready n vm \<Longrightarrow> n \<le> n' \<Longrightarrow> ready n' vm"
  by (auto simp: ready_def)

lemma ready_plus3: "ready n vm \<Longrightarrow> ready (n + 3) vm"
  by (erule ready_mono) simp

lemma ready_dstack: "ready n vm \<Longrightarrow> length (stk s) \<le> n' \<Longrightarrow> small s \<Longrightarrow> n \<le> n' \<Longrightarrow> ready n' (vm\<lparr>dstack := s\<rparr>)"
  by (auto simp: ready_def)

lemma ready_simps [simp]:
  "ready n (vm\<lparr>condStack := c\<rparr>) = ready n vm" "ready n (vm\<lparr>numOps := k\<rparr>) = ready n vm"
  "ready n (vm\<lparr>sigCache := sc\<rparr>) = ready n vm"
  by (simp_all add: ready_def)

lemma okE_curTxIn: "ready n vm \<Longrightarrow> (\<And>ti. \<bar>Age ti\<bar> < 2 ^ 63 \<Longrightarrow> P ti) \<Longrightarrow> okE (curTxIn vm) P"
  by (auto simp: curTxIn_def ready_def nat_less_iff intro!: okE_getE)

lemma okE_subScript: "ready n vm \<Longrightarrow> (\<And>s. P s) \<Longrightarrow> okE (subScript vm) P"
  by (auto simp: subScript_def ready_def intro!: okE_getE)

lemma okE_signatureHash: "ready n vm \<Longrightarrow> (\<And>h. P h) \<Longrightarrow> okE (signatureHash e vm script ht) P"
  by (rule sigHashTx_cases [of "txIdx vm" "tx vm" script ht])
     (auto simp: ready_def signatureHash_def calcWitnessSignatureHash_def calcSignatureHash_def
       sigHashPreimage_def Let_def)

section \<open>Handlers\<close>

definition safeH :: "handler \<Rightarrow> bool" where
  "safeH h \<longleftrightarrow> (\<forall>op n vm. ready n vm \<longrightarrow> n + 3 < 2 ^ 31 \<longrightarrow> length (op_data op) \<le> 520 \<longrightarrow>
     okE (h op vm) (ready (n + 3)))"

lemma safeH_intro:
  "(\<And>op n vm. ready n vm \<Longrightarrow> n + 3 < 2 ^ 31 \<Longrightarrow> length (op_data op) \<le> 520 \<Longrightarrow> okE (h op vm) (ready (n + 3))) \<Longrightarrow> safeH h"
  by (simp add: safeH_def)

lemma okE_onD: "safeD f \<Longrightarrow> ready n vm \<Longrightarrow> n + 3 < 2 ^ 31 \<Longrightarrow> okE (onD f vm) (ready (n + 3))"
proof -
  assume f: "safeD f" "ready n vm" "n + 3 < 2 ^ 31"
  then have l: "length (stk (dstack vm)) \<le> n" "small (dstack vm)" by (simp_all add: ready_def)
  with f have "okE (f (dstack vm)) (\<lambda>s'. length (stk s') \<le> length (stk (dstack vm)) + 3 \<and> small s')"
    by (simp add: safeD_def)
  then show ?thesis unfolding onD_def okE_bind
    by (rule okE_weaken) (use f l in \<open>auto intro: ready_dstack\<close>)
qed

lemma safeH_onD: "(\<And>op. length (op_data op) \<le> 520 \<Longrightarrow> safeD (f op)) \<Longrightarrow> safeH (\<lambda>op. onD (f op))"
  by (rule safeH_intro) (simp add: okE_onD)

named_theorems safeH_intros

lemma abs_to_int64: "\<bar>v\<bar> < 2 ^ 63 \<Longrightarrow> \<bar>to_int64 v\<bar> < 2 ^ 63"
  by (auto simp: abs_less_iff)

lemma safeD_Within [safeD_intros]: "safeD (\<lambda>s. bindE (PopInt s) (\<lambda>(maxVal, s). bindE (PopInt s) (\<lambda>(minVal, s).
     bindE (PopInt s) (\<lambda>(x, s). PushInt s (if x \<ge> minVal \<and> x < maxVal then 1 else 0)))))"
  by (rule safeD_intro) (auto simp: split_beta intro!: okE_PopInt okE_PushInt)

lemma safeD_Equal [safeD_intros]: "safeD (\<lambda>s. bindE (PopByteArray s) (\<lambda>(a, s).
     bindE (PopByteArray s) (\<lambda>(b, s). Inr (PushBool s (a = b)))))"
  by (rule safeD_intro) (auto simp: split_beta intro!: okE_Pop)

text \<open>What the hash functions are documented to return.\<close>

definition env_ok :: "env \<Rightarrow> bool" where
  "env_ok e \<longleftrightarrow> (\<forall>x. length (sha256 e x) = 32 \<and> length (sha1 e x) = 20 \<and> length (ripemd160 e x) = 20)"

lemma safeH_hashes [safeH_intros]:
  assumes "env_ok e"
  shows "safeH (opcodeRipemd160 e)" "safeH (opcodeSha1 e)" "safeH (opcodeSha256 e)"
    "safeH (opcodeHash160 e)" "safeH (opcodeHash256 e)"
  unfolding handler_defs using assms
  by (intro safeH_onD safeD_intros; simp add: env_ok_def DoubleHashB_def)+

lemma safeH_stack_handlers [safeH_intros]:
  "safeH opcodeFalse" "safeH opcodePushData" "safeH opcode1Negate" "safeH opcodeN"
  "safeH opcode2Drop" "safeH opcode2Dup" "safeH opcode3Dup" "safeH opcode2Over" "safeH opcode2Rot"
  "safeH opcode2Swap" "safeH opcodeIfDup" "safeH opcodeDepth" "safeH opcodeDrop" "safeH opcodeDup"
  "safeH opcodeNip" "safeH opcodeOver" "safeH opcodePick" "safeH opcodeRoll" "safeH opcodeRot"
  "safeH opcodeSwap" "safeH opcodeTuck" "safeH opcodeSize" "safeH opcodeEqual" "safeH opcode1Add"
  "safeH opcode1Sub" "safeH opcodeNegate" "safeH opcodeAbs" "safeH opcodeNot" "safeH opcode0NotEqual"
  "safeH opcodeAdd" "safeH opcodeSub" "safeH opcodeBoolAnd" "safeH opcodeBoolOr" "safeH opcodeNumEqual"
  "safeH opcodeNumNotEqual" "safeH opcodeLessThan" "safeH opcodeGreaterThan" "safeH opcodeLessThanOrEqual"
  "safeH opcodeGreaterThanOrEqual" "safeH opcodeMin" "safeH opcodeMax" "safeH opcodeWithin"
  unfolding handler_defs
  by (intro safeH_onD safeD_intros; use uint_u8_bounds in \<open>auto simp: abs_less_iff intro: order.strict_trans\<close>)+

lemma ready_stacks:
  "ready n vm \<Longrightarrow> n < 2 ^ 31 \<Longrightarrow> length (stk (dstack vm)) < 2 ^ 31 \<and> small (dstack vm) \<and>
     length (stk (astack vm)) < 2 ^ 31 \<and> small (astack vm)"
  by (auto simp: ready_def)

lemma okE_popIfBool:
  assumes "ready n vm" "n < 2 ^ 31" "\<And>b vm'. ready n vm' \<Longrightarrow> P (b, vm')"
  shows "okE (popIfBool vm) P"
  unfolding popIfBool_def using ready_stacks [OF assms(1,2)] assms
  by (auto simp: split_beta ready_def intro!: okE_PopBool okE_Pop)

lemma okE_abstractVerify: "ready n vm \<Longrightarrow> n < 2 ^ 31 \<Longrightarrow> okE (abstractVerify c vm) (ready n)"
  unfolding abstractVerify_def onD_def
  by (auto simp: split_beta ready_def intro!: okE_PopBool)

lemma safeH_conditionals [safeH_intros]:
  "safeH opcodeIf" "safeH opcodeNotIf" "safeH opcodeElse" "safeH opcodeEndif" "safeH opcodeVerify"
  "safeH opcodeReturn"
  by (rule safeH_intro; auto simp: opcodeIf_def opcodeNotIf_def opcodeElse_def opcodeEndif_def
      opcodeVerify_def opcodeReturn_def pushCond_def Let_def split: OpCond.splits
      intro!: okE_popIfBool okE_weaken [OF okE_abstractVerify] intro: ready_plus3)+

lemma safeH_locks [safeH_intros]:
  "safeH opcodeCheckLockTimeVerify" "safeH opcodeCheckSequenceVerify"
proof -
  have v: "P \<Longrightarrow> okE (verifyLockTime a b c) (\<lambda>_. P)" for a b c P by (simp add: verifyLockTime_def)
  note num = okE_makeScriptNum [of 5, simplified]
  show "safeH opcodeCheckLockTimeVerify" "safeH opcodeCheckSequenceVerify"
    by (rule safeH_intro; frule ready_stacks, simp, frule ready_plus3;
        auto simp: opcodeCheckLockTimeVerify_def opcodeCheckSequenceVerify_def Let_def
        intro!: okE_Peek num v okE_curTxIn)+
qed

lemma safeH_alt [safeH_intros]: "safeH opcodeToAltStack" "safeH opcodeFromAltStack"
  by (rule safeH_intro; auto simp: opcodeToAltStack_def opcodeFromAltStack_def split_beta ready_def
      intro!: okE_Pop)+

lemma safeH_simple [safeH_intros]:
  "safeH opcodeDisabled" "safeH opcodeReserved" "safeH opcodeInvalid" "safeH opcodeNop"
  by (rule safeH_intro; auto simp: opcodeDisabled_def opcodeReserved_def opcodeInvalid_def opcodeNop_def intro: ready_plus3)+

lemma safeH_CodeSeparator [safeH_intros]: "safeH opcodeCodeSeparator"
  by (rule safeH_intro) (simp add: opcodeCodeSeparator_def ready_def)

lemma safeH_InputAge [safeH_intros]: "safeH opcodeInputAge"
  by (rule safeH_intro) (auto simp: opcodeInputAge_def intro!: okE_curTxIn okE_onD safeD_intros)

lemma safeH_verify:
  assumes "safeH h"
  shows "safeH (\<lambda>op vm. bindE (h op vm) (abstractVerify c))"
proof (rule safeH_intro)
  fix op :: parsedOpcode and n and vm
  assume "ready n vm" "n + 3 < 2 ^ 31" "length (op_data op) \<le> 520"
  with assms have "okE (h op vm) (ready (n + 3))" by (simp add: safeH_def)
  then show "okE (bindE (h op vm) (abstractVerify c)) (ready (n + 3))" unfolding okE_bind
    by (rule okE_weaken) (use \<open>n + 3 < 2 ^ 31\<close> in \<open>simp add: okE_abstractVerify\<close>)
qed

lemma safeH_equal_verify [safeH_intros]: "safeH opcodeEqualVerify" "safeH opcodeNumEqualVerify"
  unfolding opcodeEqualVerify_def opcodeNumEqualVerify_def by (intro safeH_verify safeH_intros)+

section \<open>Signature handlers\<close>

lemma ready_verifyCached: "ready n vm \<Longrightarrow> ready n (snd (verifyCached e vm h sg pk))"
  by (auto simp: verifyCached_def Let_def split: option.splits)

lemma ready_pushD: "ready n vm \<Longrightarrow> ready (Suc n) (pushD vm b)"
  by (auto simp: pushD_def ready_def)

lemma okE_option:
  "(x = None \<Longrightarrow> okE a Q) \<Longrightarrow> (\<And>y. x = Some y \<Longrightarrow> okE (f y) Q) \<Longrightarrow>
     okE (case x of None \<Rightarrow> a | Some y \<Rightarrow> f y) Q"
  by (cases x) simp_all

lemma okE_ifI: "(c \<Longrightarrow> okE a Q) \<Longrightarrow> (\<not> c \<Longrightarrow> okE b Q) \<Longrightarrow> okE (if c then a else b) Q"
  by simp

lemma okE_errI: "okE (Inl (Err e)) Q" and okE_InrI: "Q a \<Longrightarrow> okE (Inr a) Q"
  by simp_all

lemmas okE_encodings = okE_trivial [OF okE_checkHashTypeEncoding] okE_trivial [OF okE_checkSignatureEncoding]
  okE_trivial [OF okE_checkPubKeyEncoding]

lemma okE_bindI: "okE m (\<lambda>a. okE (f a) Q) \<Longrightarrow> okE (bindE m f) Q"
  by simp

lemmas okE_control = okE_bindI okE_ifI okE_option okE_errI okE_InrI

lemma ready_pushD3: "ready n vm \<Longrightarrow> ready (n + 3) (pushD vm b)"
  by (auto simp: pushD_def ready_def)

lemma safeH_CheckSig [safeH_intros]: "safeH (opcodeCheckSig e)"
proof (rule safeH_intro)
  fix op :: parsedOpcode and n and vm :: Engine
  assume r: "ready n vm" "n + 3 < 2 ^ 31"
  note l = ready_stacks [OF r(1)]
  have d: "ready n (vm\<lparr>dstack := s\<rparr>)" if "length (stk (dstack vm)) = Suc (Suc (length (stk s)))" "small s" for s
    using that r(1) by (auto simp: ready_def)
  show "okE (opcodeCheckSig e op vm) (ready (n + 3))"
    unfolding opcodeCheckSig_def Let_def split_beta
    by (intro okE_Pop okE_control okE_encodings okE_subScript [of n] okE_signatureHash [of n]
        ready_pushD3 ready_verifyCached; (rule d)?; use l r in simp)
qed

lemma okE_popItems:
  assumes "length (stk s) < 2 ^ 31" "small s"
    and "\<And>xs s'. length xs = n \<Longrightarrow> length (stk s') \<le> length (stk s) \<Longrightarrow> small s' \<Longrightarrow> P (xs, s')"
  shows "okE (popItems n s) P"
  using assms
proof (induction n arbitrary: s P)
  case (Suc n)
  show ?case
    unfolding popItems.simps split_beta
    by (intro okE_control okE_Pop Suc.prems(1,2) Suc.IH Suc.prems(3); simp)
       (use Suc.prems(1) in simp_all)
qed simp

lemma okE_parseOnce:
  "(\<And>si' sg. P (si', sg)) \<Longrightarrow> okE (parseOnce e vm si) P"
  unfolding parseOnce_def Let_def by (intro okE_control okE_encodings) (simp_all split: option.splits)

lemma okE_multiSigLoop:
  assumes "ready n vm" "i + m = length pubKeys + 1" "j + k = length sigs"
  shows "okE (multiSigLoop e script pubKeys m k i j sigs vm) (\<lambda>(b, vm'). ready n vm')"
  using assms
proof (induction m arbitrary: k i j sigs vm)
  case (Suc m)
  have skip: "okE (multiSigLoop e script pubKeys m k (i + 1) j sigs' vm) (\<lambda>(b, vm'). ready n vm')"
    if "length sigs' = length sigs" "ready n vm" for sigs' vm
    using that Suc.prems by (intro Suc.IH) auto
  have accept: "okE (multiSigLoop e script pubKeys m (k - 1) (i + 1) (j + 1) sigs' vm) (\<lambda>(b, vm'). ready n vm')"
    if "length sigs' = length sigs" "ready n vm" "k \<noteq> 0" for sigs' vm
    using that Suc.prems by (intro Suc.IH) auto
  note rd = Suc.prems(1) ready_verifyCached [OF Suc.prems(1)]
  show ?case
    unfolding multiSigLoop.simps Let_def split_beta
    using Suc.prems
    by (intro okE_control okE_getE okE_parseOnce okE_encodings okE_signatureHash [OF Suc.prems(1)]
          skip [unfolded split_beta] accept [unfolded split_beta] rd; simp)
qed simp

lemma safeH_CheckMultiSig [safeH_intros]: "safeH (opcodeCheckMultiSig e)"
proof (rule safeH_intro)
  fix op :: parsedOpcode and n and vm :: Engine
  assume r: "ready n vm" "n + 3 < 2 ^ 31"
  note l = ready_stacks [OF r(1)]
  have d: "ready n (vm\<lparr>numOps := k, dstack := s\<rparr>)" if "length (stk s) \<le> length (stk (dstack vm))" "small s" for s k
    using that r(1) by (auto simp: ready_def)
  have loop: "okE (multiSigLoop e script pubKeys (m + 1) k 0 0 sigs vm) P"
    if "ready n vm" "length pubKeys = m" "length sigs = k" "\<And>b vm'. ready n vm' \<Longrightarrow> P (b, vm')" for script pubKeys k m sigs vm P
    by (rule okE_weaken [OF okE_multiSigLoop [of n vm]]) (use that in auto)
  show "okE (opcodeCheckMultiSig e op vm) (ready (n + 3))"
    unfolding opcodeCheckMultiSig_def Let_def split_beta
    by (intro okE_Pop okE_PopInt okE_popItems okE_control okE_subScript [of n] loop
        ready_pushD3; (rule d)?; use l r in simp)
qed

lemma safeH_sig_verify [safeH_intros]:
  "safeH (opcodeCheckSigVerify e)" "safeH (opcodeCheckMultiSigVerify e)"
  unfolding opcodeCheckSigVerify_def opcodeCheckMultiSigVerify_def
  by (intro safeH_verify safeH_intros)+

theorem safeH_opfunc: "env_ok e \<Longrightarrow> safeH (opfunc e v)"
  unfolding opfunc_def by (intro if_intro [of _ safeH] safeH_intros)

end
