(* ===== verification/ScriptVM.thy ===== *)
theory ScriptVM
  imports ScriptSafety
begin

text \<open>
  The script engine proper (\<^verbatim>\<open>txscript/engine.go\<close>): \<^verbatim>\<open>NewEngine\<close>, \<^verbatim>\<open>Step\<close>, \<^verbatim>\<open>Execute\<close> and what
  they call. An engine is passed and returned explicitly; \<^verbatim>\<open>Execute\<close> is a total function whose
  termination proof uses that handlers keep the program counter and the scripts.
\<close>

section \<open>Executing an opcode\<close>

definition countOp :: "parsedOpcode \<Rightarrow> Engine \<Rightarrow> Engine sresult" where
  "countOp pop vm =
     (if op_value pop > OP_16 then
        let vm = vm\<lparr>numOps := numOps vm + 1\<rparr>
        in if numOps vm > MaxOpsPerScript then scriptError ErrTooManyOperations else Inr vm
      else if length (op_data pop) > MaxScriptElementSize then scriptError ErrElementTooBig
      else Inr vm)"

definition executeOpcode :: "env \<Rightarrow> parsedOpcode \<Rightarrow> Engine \<Rightarrow> Engine sresult" where
  "executeOpcode e pop vm =
     (if isDisabled pop then scriptError ErrDisabledOpcode
      else if alwaysIllegal pop then scriptError ErrReservedOpcode
      else bindE (countOp pop vm) (\<lambda>vm.
        if \<not> isBranchExecuting vm \<and> \<not> isConditional pop then Inr vm
        else bindE (if verifyMinimalData (dstack vm) \<and> isBranchExecuting vm \<and> op_value pop \<le> OP_PUSHDATA4
                    then checkMinimalDataPush pop else Inr ()) (\<lambda>_.
          opfunc e (op_value pop) pop vm)))"

definition validPC :: "Engine \<Rightarrow> unit sresult" where
  "validPC vm =
     (if scriptIdx vm \<ge> length (scripts vm) then scriptError ErrInvalidProgramCounter
      else if scriptOff vm \<ge> length (scripts vm ! scriptIdx vm) then scriptError ErrInvalidProgramCounter
      else Inr ())"

definition curPC :: "Engine \<Rightarrow> (nat \<times> nat) sresult" where
  "curPC vm = bindE (validPC vm) (\<lambda>_. Inr (scriptIdx vm, scriptOff vm))"

section \<open>Witness programs\<close>

definition GetStack :: "Engine \<Rightarrow> bytes list" where
  "GetStack vm = getStack (dstack vm)"

definition SetStack :: "bytes list \<Rightarrow> Engine \<Rightarrow> Engine" where
  "SetStack data vm = vm\<lparr>dstack := setStack (dstack vm) data\<rparr>"

definition GetAltStack :: "Engine \<Rightarrow> bytes list" where
  "GetAltStack vm = getStack (astack vm)"

definition SetAltStack :: "bytes list \<Rightarrow> Engine \<Rightarrow> Engine" where
  "SetAltStack data vm = vm\<lparr>astack := setStack (astack vm) data\<rparr>"

definition appendScript :: "parsedOpcode list \<Rightarrow> Engine \<Rightarrow> Engine" where
  "appendScript pops vm = vm\<lparr>scripts := scripts vm @ [pops]\<rparr>"

definition loadWitnessProgram :: "env \<Rightarrow> bytes \<Rightarrow> bytes list \<Rightarrow> Engine \<Rightarrow> Engine sresult" where
  "loadWitnessProgram e program witness vm =
     (if length program = 20 then
        if length witness \<noteq> 2 then scriptError ErrWitnessProgramMismatch
        else bindE (payToPubKeyHashScript program) (\<lambda>pkScript.
          bindE (parseE pkScript) (\<lambda>pops. Inr (SetStack witness (appendScript pops vm))))
      else if length program = 32 then
        if length witness = 0 then scriptError ErrWitnessProgramEmpty
        else
          let witnessScript = witness ! (length witness - 1)
          in if length witnessScript > MaxScriptSize then scriptError ErrScriptTooBig
             else if sha256 e witnessScript \<noteq> program then scriptError ErrWitnessProgramMismatch
             else bindE (parseE witnessScript) (\<lambda>pops.
               Inr (SetStack (take (length witness - 1) witness) (appendScript pops vm)))
      else scriptError ErrWitnessProgramWrongLength)"

definition verifyWitnessProgram :: "env \<Rightarrow> bytes list \<Rightarrow> Engine \<Rightarrow> Engine sresult" where
  "verifyWitnessProgram e witness vm =
     bindE
       (if isWitnessVersionActive vm 0 then loadWitnessProgram e (the (witnessProgram vm)) witness vm
        else if hasFlag vm ScriptVerifyDiscourageUpgradeableWitnessProgram
        then scriptError ErrDiscourageUpgradableWitnessProgram
        else Inr (vm\<lparr>witnessProgram := None\<rparr>)) (\<lambda>vm.
     if isWitnessVersionActive vm 0 \<and>
        list_ex (\<lambda>witElement. length witElement > MaxScriptElementSize) (GetStack vm)
     then scriptError ErrElementTooBig else Inr vm)"

section \<open>Running the scripts\<close>

definition CheckErrorCondition :: "bool \<Rightarrow> Engine \<Rightarrow> Engine sresult" where
  "CheckErrorCondition finalScript vm =
     (if scriptIdx vm < length (scripts vm) then scriptError ErrScriptUnfinished
      else if finalScript \<and> isWitnessVersionActive vm 0 \<and> Depth (dstack vm) \<noteq> 1
      then scriptError ErrEvalFalse
      else if finalScript \<and> hasFlag vm ScriptVerifyCleanStack \<and> Depth (dstack vm) \<noteq> 1
      then scriptError ErrCleanStack
      else if Depth (dstack vm) < 1 then scriptError ErrEmptyStack
      else bindE (PopBool (dstack vm)) (\<lambda>(v, s).
        if \<not> v then scriptError ErrEvalFalse else Inr (vm\<lparr>dstack := s\<rparr>)))"

text \<open>The switch of \<^verbatim>\<open>Step\<close> at the end of a script, which selects the next one.\<close>

definition switchScript :: "env \<Rightarrow> Engine \<Rightarrow> Engine sresult" where
  "switchScript e vm =
     (let vm' = vm\<lparr>scriptIdx := scriptIdx vm + 1\<rparr>
      in if scriptIdx vm = 0 \<and> bip16 vm then Inr (vm'\<lparr>savedFirstStack := GetStack vm\<rparr>)
         else if scriptIdx vm = 1 \<and> bip16 vm then
           bindE (CheckErrorCondition False vm') (\<lambda>vm.
           let saved = savedFirstStack vm
           in bindE (getE saved (length saved - 1)) (\<lambda>script.
              bindE (parseE script) (\<lambda>pops.
                Inr (SetStack (take (length saved - 1) saved) (appendScript pops vm)))))
         else if scriptIdx vm = 1 \<and> witnessProgram vm \<noteq> None \<or>
                 scriptIdx vm = 2 \<and> witnessProgram vm \<noteq> None \<and> bip16 vm then
           bindE (curTxIn vm') (\<lambda>ti. verifyWitnessProgram e (Witness ti) vm')
         else Inr vm')"

definition dropAlt :: "Engine \<Rightarrow> Engine" where
  "dropAlt vm = (case DropN (astack vm) (Depth (astack vm)) of Inl _ \<Rightarrow> vm | Inr s \<Rightarrow> vm\<lparr>astack := s\<rparr>)"

definition nextScript :: "env \<Rightarrow> Engine \<Rightarrow> (bool \<times> Engine) sresult" where
  "nextScript e vm =
     (if length (condStack vm) \<noteq> 0 then scriptError ErrUnbalancedConditional
      else bindE (switchScript e ((dropAlt vm)\<lparr>numOps := 0, scriptOff := 0\<rparr>)) (\<lambda>vm.
        let vm = (if scriptIdx vm < length (scripts vm) \<and> scriptOff vm \<ge> length (scripts vm ! scriptIdx vm)
                  then vm\<lparr>scriptIdx := scriptIdx vm + 1\<rparr> else vm);
            vm = vm\<lparr>lastCodeSep := 0\<rparr>
        in Inr (scriptIdx vm \<ge> length (scripts vm), vm)))"

definition Step :: "env \<Rightarrow> Engine \<Rightarrow> (bool \<times> Engine) sresult" where
  "Step e vm =
     bindE (validPC vm) (\<lambda>_.
     bindE (executeOpcode e (scripts vm ! scriptIdx vm ! scriptOff vm) (vm\<lparr>scriptOff := scriptOff vm + 1\<rparr>)) (\<lambda>vm.
     if to_int32 (Depth (dstack vm) + Depth (astack vm)) > MaxStackSize then scriptError ErrStackOverflow
     else if scriptOff vm \<ge> length (scripts vm ! scriptIdx vm) then nextScript e vm
     else Inr (False, vm)))"

section \<open>Creating an engine\<close>

definition newEngineState :: "u32 \<Rightarrow> SigCache option \<Rightarrow> TxSigHashes option \<Rightarrow> int \<Rightarrow> MsgTx \<Rightarrow> int \<Rightarrow> Engine" where
  "newEngineState fl sc hc amount t i =
     \<lparr>scripts = [], scriptIdx = 0, scriptOff = 0, lastCodeSep = 0,
      dstack = \<lparr>stk = [], verifyMinimalData = False\<rparr>, astack = \<lparr>stk = [], verifyMinimalData = False\<rparr>,
      tx = t, txIdx = i, condStack = [], numOps = 0, flags = fl, sigCache = sc, hashCache = hc,
      bip16 = False, savedFirstStack = [], witnessVersion = 0, witnessProgram = None, inputAmount = amount\<rparr>"

definition loadScript :: "bytes \<Rightarrow> parsedOpcode list sresult" where
  "loadScript scr = (if length scr > MaxScriptSize then scriptError ErrScriptTooBig else parseE scr)"

text \<open>The witness program the scripts name, if any, with the errors of its selection.\<close>

definition findWitnessProgram :: "bytes \<Rightarrow> bytes \<Rightarrow> bytes list \<Rightarrow> Engine \<Rightarrow> bytes option sresult" where
  "findWitnessProgram scriptSig scriptPubKey witness vm =
     (if isWitnessProgram (scripts vm ! 1) \<or> isHTLCWitnessScript (scripts vm ! 1) then
        if length scriptSig \<noteq> 0 then scriptError ErrWitnessMalleated else Inr (Some scriptPubKey)
      else if length witness \<noteq> 0 \<and> bip16 vm then
        let sigPops = scripts vm ! 0
        in if length sigPops = 1 \<and> canonicalPush (sigPops ! 0) \<and> IsWitnessProgram (op_data (sigPops ! 0))
           then Inr (Some (op_data (sigPops ! 0)))
           else scriptError ErrWitnessMalleatedP2SH
      else Inr None)"

definition setWitnessProgram :: "bytes \<Rightarrow> bytes \<Rightarrow> bytes list \<Rightarrow> Engine \<Rightarrow> Engine sresult" where
  "setWitnessProgram scriptSig scriptPubKey witness vm =
     (if \<not> hasFlag vm ScriptVerifyWitness then Inr vm
      else if \<not> hasFlag vm ScriptBip16 then scriptError ErrInvalidFlags
      else bindE (findWitnessProgram scriptSig scriptPubKey witness vm) (\<lambda>witProgram.
        case witProgram of
          Some p \<Rightarrow> bindE (ExtractWitnessProgramInfo p) (\<lambda>(v, program).
            Inr (vm\<lparr>witnessVersion := v, witnessProgram := Some program\<rparr>))
        | None \<Rightarrow> if length witness \<noteq> 0 then scriptError ErrWitnessUnexpected else Inr vm))"

definition setMinimalData :: "Engine \<Rightarrow> Engine" where
  "setMinimalData vm =
     (if hasFlag vm ScriptVerifyMinimalData
      then vm\<lparr>dstack := (dstack vm)\<lparr>verifyMinimalData := True\<rparr>, astack := (astack vm)\<lparr>verifyMinimalData := True\<rparr>\<rparr>
      else vm)"

text \<open>The engine once both scripts are parsed: where to start, and in which modes.\<close>

definition startEngine :: "bytes \<Rightarrow> bytes \<Rightarrow> bytes list \<Rightarrow> parsedOpcode list \<Rightarrow> parsedOpcode list \<Rightarrow> Engine \<Rightarrow>
    Engine sresult" where
  "startEngine scriptSig scriptPubKey witness sigPops pkPops vm =
     (let vm = vm\<lparr>scripts := [sigPops, pkPops], scriptIdx := (if length scriptSig = 0 then scriptIdx vm + 1 else scriptIdx vm)\<rparr>;
          p2sh = hasFlag vm ScriptBip16 \<and> (isScriptHash pkPops \<or> isHTLCWithScriptHash pkPops)
      in if p2sh \<and> \<not> isPushOnly sigPops then scriptError ErrNotPushOnly
         else setWitnessProgram scriptSig scriptPubKey witness (setMinimalData (vm\<lparr>bip16 := p2sh\<rparr>)))"

definition NewEngine :: "bytes \<Rightarrow> MsgTx \<Rightarrow> int \<Rightarrow> u32 \<Rightarrow> SigCache option \<Rightarrow> TxSigHashes option \<Rightarrow> int \<Rightarrow>
    Engine sresult" where
  "NewEngine scriptPubKey t i fl sc hc amount =
     (if i < 0 \<or> i \<ge> int (length (TxIns t)) then scriptError ErrInvalidIndex
      else
        let txIn = TxIns t ! nat i; scriptSig = SignatureScript txIn
        in if length scriptSig = 0 \<and> length scriptPubKey = 0 then scriptError ErrEvalFalse
           else
             let vm = newEngineState fl sc hc amount t i
             in if hasFlag vm ScriptVerifyCleanStack \<and> (\<not> hasFlag vm ScriptBip16 \<and> \<not> hasFlag vm ScriptVerifyWitness)
                then scriptError ErrInvalidFlags
                else if hasFlag vm ScriptVerifySigPushOnly \<and> \<not> IsPushOnlyScript scriptSig
                then scriptError ErrNotPushOnly
                else bindE (loadScript scriptSig) (\<lambda>sigPops. bindE (loadScript scriptPubKey) (\<lambda>pkPops.
                  startEngine scriptSig scriptPubKey (Witness txIn) sigPops pkPops vm)))"

section \<open>Frame and termination\<close>

lemma keeps_executeOpcode: "succE (executeOpcode e pop vm) (\<lambda>vm'. fixed_part vm' = fixed_part vm)"
proof -
  have h: "fixed_part vm' = fixed_part vm \<Longrightarrow>
      succE (opfunc e v op vm') (\<lambda>vm''. fixed_part vm'' = fixed_part vm)" for v op vm'
    using keeps_opfunc [of e v] by (metis keeps_def)
  show ?thesis
    unfolding executeOpcode_def countOp_def Let_def
    by (auto intro!: h succE_all [where m = "checkMinimalDataPush p" for p])
qed

lemma CheckErrorCondition_frame:
  "succE (CheckErrorCondition f vm) (\<lambda>vm'. \<exists>s. vm' = vm\<lparr>dstack := s\<rparr>)"
  unfolding CheckErrorCondition_def by (auto simp: split_beta intro!: succE_all)

definition budget :: "Engine \<Rightarrow> nat" where
  "budget vm = length (scripts vm) + (if scriptIdx vm \<le> 1 then 2 else if scriptIdx vm = 2 then 1 else 0) - scriptIdx vm"

lemma verifyWitnessProgram_frame:
  "succE (verifyWitnessProgram e w vm) (\<lambda>vm'. scriptIdx vm' = scriptIdx vm \<and> scriptOff vm' = scriptOff vm \<and>
     length (scripts vm') \<le> Suc (length (scripts vm)))"
  unfolding verifyWitnessProgram_def loadWitnessProgram_def
  by (auto simp: SetStack_def appendScript_def Let_def intro!: succE_all)

lemma switchScript_frame:
  "succE (switchScript e vm) (\<lambda>vm'. scriptIdx vm' = scriptIdx vm + 1 \<and> scriptOff vm' = scriptOff vm \<and>
     length (scripts vm') \<le> length (scripts vm) + (if scriptIdx vm = 1 \<or> scriptIdx vm = 2 then 1 else 0))"
proof -
  note c = succE_weaken [OF CheckErrorCondition_frame]
  note w = succE_weaken [OF verifyWitnessProgram_frame]
  show ?thesis unfolding switchScript_def
    by (auto simp: Let_def SetStack_def appendScript_def intro!: c w succE_all [where m = "getE a b" for a b]
        succE_all [where m = "parseE a" for a] succE_all [where m = "curTxIn a" for a])
qed

lemma dropAlt_fixed [simp]: "fixed_part (dropAlt vm) = fixed_part vm"
  by (simp add: dropAlt_def split: sum.splits)

lemma dropAlt_simps [simp]:
  "scripts (dropAlt vm) = scripts vm" "scriptIdx (dropAlt vm) = scriptIdx vm"
  by (simp_all add: dropAlt_def split: sum.splits)

lemma nextScript_budget:
  "scriptIdx vm < length (scripts vm) \<Longrightarrow> succE (nextScript e vm) (\<lambda>(d, vm'). \<not> d \<longrightarrow> budget vm' < budget vm)"
  unfolding nextScript_def
  by (auto simp: Let_def budget_def intro!: succE_weaken [OF switchScript_frame])

lemma Step_budget:
  assumes "Step e vm = Inr (False, vm')"
  shows "budget vm' < budget vm \<or> budget vm' = budget vm \<and>
    length (scripts vm' ! scriptIdx vm') - scriptOff vm' < length (scripts vm ! scriptIdx vm) - scriptOff vm"
proof -
  let ?vm = "vm\<lparr>scriptOff := scriptOff vm + 1\<rparr>"
  have pc: "scriptIdx vm < length (scripts vm)" "scriptOff vm < length (scripts vm ! scriptIdx vm)"
    using assms by (auto simp: Step_def validPC_def split: if_splits)
  with assms obtain vm1 where x: "executeOpcode e (scripts vm ! scriptIdx vm ! scriptOff vm) ?vm = Inr vm1"
    and r: "(if scriptOff vm1 \<ge> length (scripts vm1 ! scriptIdx vm1) then nextScript e vm1 else Inr (False, vm1)) =
      Inr (False, vm')"
    by (auto simp: Step_def validPC_def bindE_Inr_iff split: if_splits)
  have f: "scripts vm1 = scripts vm" "scriptIdx vm1 = scriptIdx vm" "scriptOff vm1 = scriptOff vm + 1"
    using succE_D [OF keeps_executeOpcode x] by (auto dest: fixed_part_eqD)
  show ?thesis
  proof (cases "scriptOff vm1 \<ge> length (scripts vm1 ! scriptIdx vm1)")
    case True
    with r have n: "nextScript e vm1 = Inr (False, vm')" by simp
    have "budget vm1 = budget vm" using f by (simp add: budget_def)
    with succE_D [OF nextScript_budget n] f pc show ?thesis by simp
  next
    case False
    with r f pc show ?thesis by (auto simp: budget_def)
  qed
qed

function Execute :: "env \<Rightarrow> Engine \<Rightarrow> Engine sresult" where
  "Execute e vm =
     (case Step e vm of Inl er \<Rightarrow> Inl er
      | Inr (done, vm') \<Rightarrow> if done then CheckErrorCondition True vm' else Execute e vm')"
  by pat_completeness auto

termination
  by (relation "measures [\<lambda>(e, vm). budget vm, \<lambda>(e, vm). length (scripts vm ! scriptIdx vm) - scriptOff vm]")
     (auto dest: Step_budget)

declare Execute.simps [simp del]

end
