(* ===== verification/VMSafety.thy ===== *)
theory VMSafety
  imports ScriptVM
begin

text \<open>
  Safety of the script engine. The invariant \<open>vm_inv\<close> of the states between two steps bounds the
  stacks and their elements, keeps the program counter valid, and keeps what the pay-to-script-hash
  branch of \<^verbatim>\<open>Step\<close> relies on when it indexes the saved stack. Every engine that \<^verbatim>\<open>NewEngine\<close> returns
  satisfies it, every step keeps it, and from it no step panics. A potential bounds the number of
  steps of a run.
\<close>

section \<open>Single opcodes\<close>

lemma okE_succE: "okE m P \<Longrightarrow> succE m Q \<Longrightarrow> okE m (\<lambda>a. P a \<and> Q a)"
  by (cases m) (auto simp: okE_def)

text \<open>Only the data pushes read the data of an opcode.\<close>

definition ignoresData :: "handler \<Rightarrow> bool" where
  "ignoresData h \<longleftrightarrow> (\<forall>op d vm. h (op\<lparr>op_data := d\<rparr>) vm = h op vm)"

lemma ignoresData_const: "ignoresData (\<lambda>op. f)"
  by (simp add: ignoresData_def)

lemma ignoresData_opcodeNop: "ignoresData opcodeNop"
  by (simp add: ignoresData_def opcodeNop_def)

lemma ignoresData_opfunc:
  assumes "v > OP_16"
  shows "ignoresData (opfunc e v)"
proof -
  have n: "\<not> v \<le> OP_PUSHDATA4" using less_le_trans [OF assms, of 78] by auto
  show ?thesis
  unfolding opfunc_def if_not_P [OF n]
  by (intro if_intro [of _ ignoresData] ignoresData_opcodeNop; simp add: ignoresData_def handler_defs
      opcodeReserved_def opcodeInvalid_def opcodeDisabled_def opcodeIf_def opcodeNotIf_def opcodeElse_def
      opcodeEndif_def opcodeVerify_def opcodeReturn_def opcodeToAltStack_def opcodeFromAltStack_def
      opcodeEqualVerify_def opcodeNumEqualVerify_def opcodeCodeSeparator_def opcodeCheckSig_def
      opcodeCheckSigVerify_def opcodeCheckMultiSig_def opcodeCheckMultiSigVerify_def
      opcodeCheckLockTimeVerify_def opcodeCheckSequenceVerify_def opcodeInputAge_def)
qed

lemma okE_opfunc:
  assumes "env_ok e" "ready n vm" "n + 3 < 2 ^ 31" "op_value op > OP_16 \<or> length (op_data op) \<le> 520"
  shows "okE (opfunc e (op_value op) op vm) (ready (n + 3))"
proof (cases "op_value op > OP_16")
  case True
  have "okE (opfunc e (op_value op) (op\<lparr>op_data := []\<rparr>) vm) (ready (n + 3))"
    using safeH_opfunc [OF assms(1), of "op_value op"] assms by (simp add: safeH_def)
  with ignoresData_opfunc [OF True, of e] show ?thesis by (simp add: ignoresData_def)
next
  case False
  with safeH_opfunc [OF assms(1), of "op_value op"] assms show ?thesis by (auto simp: safeH_def)
qed

lemma okE_checkMinimalDataPush: "okE (checkMinimalDataPush pop) (\<lambda>_. True)"
  by (simp add: checkMinimalDataPush_def Let_def)

lemma okE_executeOpcode:
  assumes "env_ok e" "ready n vm" "n + 3 < 2 ^ 31"
  shows "okE (executeOpcode e pop vm) (ready (n + 3))"
proof -
  have h: "okE (opfunc e (op_value pop) pop vm') (ready (n + 3))"
    if "ready n vm'" "op_value pop > OP_16 \<or> length (op_data pop) \<le> 520" for vm'
    using assms that by (intro okE_opfunc)
  show ?thesis
    unfolding executeOpcode_def countOp_def Let_def MaxScriptElementSize_def
    using assms(2) ready_plus3 [OF assms(2)]
    by (auto intro!: h okE_trivial [OF okE_checkMinimalDataPush])
qed

lemma isBranchExecuting_simps [simp]:
  "isBranchExecuting (vm\<lparr>scriptOff := k\<rparr>) = isBranchExecuting vm"
  "isBranchExecuting (vm\<lparr>numOps := n\<rparr>) = isBranchExecuting vm"
  "isBranchExecuting (vm\<lparr>dstack := s\<rparr>) = isBranchExecuting vm"
  "condStack vm = [] \<Longrightarrow> isBranchExecuting vm"
  by (simp_all add: isBranchExecuting_def)

lemma executeOpcode_success:
  assumes "executeOpcode e pop vm = Inr vm'"
  obtains k where "isBranchExecuting vm \<or> isConditional pop" "opfunc e (op_value pop) pop (vm\<lparr>numOps := k\<rparr>) = Inr vm'"
    "op_value pop > OP_16 \<or> k = numOps vm"
  | k where "\<not> isBranchExecuting vm" "\<not> isConditional pop" "vm' = vm\<lparr>numOps := k\<rparr>"
proof -
  from assms obtain vm1 where c: "countOp pop vm = Inr vm1"
    and r: "if \<not> isBranchExecuting vm1 \<and> \<not> isConditional pop then vm' = vm1 else opfunc e (op_value pop) pop vm1 = Inr vm'"
    by (auto simp: executeOpcode_def bindE_Inr_iff split: if_splits)
  from c obtain k where k: "vm1 = vm\<lparr>numOps := k\<rparr>" "op_value pop > OP_16 \<or> k = numOps vm"
    by (cases "op_value pop > OP_16") (auto simp: countOp_def Let_def split: if_splits)
  then have "isBranchExecuting vm1 = isBranchExecuting vm" by (simp add: isBranchExecuting_def)
  with r k that(1) [of k] that(2) [of k] show thesis by (simp split: if_splits)
qed

section \<open>Pushes\<close>

lemma push_opfunc:
  assumes "v \<le> OP_16" "opfunc e v op vm = Inr vm'"
  shows "\<exists>x. vm' = vm\<lparr>dstack := PushByteArray (dstack vm) x\<rparr>"
  using assms unfolding opfunc_def
  by (auto simp: handler_defs onD_def opcodeReserved_def PushInt_def bindE_Inr_iff split: if_splits)

lemma push_executeOpcode:
  assumes "op_value pop \<le> OP_16" "condStack vm = []" "executeOpcode e pop vm = Inr vm'"
  shows "\<exists>x. vm' = vm\<lparr>dstack := PushByteArray (dstack vm) x\<rparr>"
  using assms(3)
proof (cases rule: executeOpcode_success)
  case (1 k)
  with assms push_opfunc [OF assms(1) 1(2)] show ?thesis by (auto simp: not_less)
qed (use assms in \<open>simp add: isBranchExecuting_def\<close>)

section \<open>A pay-to-script-hash output spent with an empty signature script\<close>

text \<open>
  With an empty signature script the saved stack is empty, and \<^verbatim>\<open>Step\<close> would index it out of range
  at the end of the public key script. It does not get there: the states below are all there are.
\<close>

inductive emptyRun :: "parsedOpcode list \<Rightarrow> nat \<Rightarrow> nat \<Rightarrow> OpCond list \<Rightarrow> bool" where
  script_hash: "isScriptHash pops \<Longrightarrow> emptyRun pops 0 0 []"
| age: "isHTLCWithScriptHash pops \<Longrightarrow> emptyRun pops 0 0 []"
| lock: "isHTLCWithScriptHash pops \<Longrightarrow> emptyRun pops 1 1 []"
| greater: "isHTLCWithScriptHash pops \<Longrightarrow> emptyRun pops 2 2 []"
| branch: "isHTLCWithScriptHash pops \<Longrightarrow> emptyRun pops 3 1 []"
| unlocked: "isHTLCWithScriptHash pops \<Longrightarrow> emptyRun pops 4 0 [OpCondTrue]"
| locked: "isHTLCWithScriptHash pops \<Longrightarrow> k \<in> {4, 5, 6} \<Longrightarrow> emptyRun pops k 0 [OpCondFalse]"
| otherwise: "isHTLCWithScriptHash pops \<Longrightarrow> emptyRun pops 7 0 [OpCondFalse]"
| return: "isHTLCWithScriptHash pops \<Longrightarrow> emptyRun pops 8 0 [OpCondTrue]"

definition emptySigRun :: "Engine \<Rightarrow> bool" where
  "emptySigRun vm \<longleftrightarrow> emptyRun (scripts vm ! 1) (scriptOff vm) (length (stk (dstack vm))) (condStack vm)"

lemma isHTLCWithScriptHash_ops:
  "isHTLCWithScriptHash pops \<longleftrightarrow> length pops = 10 \<and> op_value (pops ! 0) = OP_INPUTAGE \<and>
     isNumber (op_value (pops ! 1)) \<and> op_value (pops ! 2) = OP_GREATERTHAN \<and> op_value (pops ! 3) = OP_IF \<and>
     op_value (pops ! 4) = OP_HASH160 \<and> op_value (pops ! 5) = OP_DATA_20 \<and> op_value (pops ! 6) = OP_EQUAL \<and>
     op_value (pops ! 7) = OP_ELSE \<and> op_value (pops ! 8) = OP_RETURN \<and> op_value (pops ! 9) = OP_ENDIF"
  by (auto simp: isHTLCWithScriptHash_def isHTLC_def Let_def isOpCode_def)

lemma emptySigRun_off: "emptySigRun vm \<Longrightarrow> scriptOff vm < length (scripts vm ! 1)"
  by (auto simp: emptySigRun_def isHTLCWithScriptHash_ops isScriptHash_def elim!: emptyRun.cases)

text \<open>What the opcodes of the template do to the depth of the data stack.\<close>

lemma hash160_empty: "stk (dstack vm) = [] \<Longrightarrow> opfunc e OP_HASH160 op vm \<noteq> Inr vm'"
  by (simp add: opfunc_def opcodeHash160_def onD_def hash1_def)

lemma succ_InputAge:
  "opfunc e OP_INPUTAGE op vm = Inr vm' \<Longrightarrow> \<exists>b. vm' = vm\<lparr>dstack := PushByteArray (dstack vm) b\<rparr>"
  by (auto simp: opfunc_def opcodeInputAge_def onD_def PushInt_def bindE_Inr_iff)

lemma succ_Pop: "PopByteArray s = Inr (b, s') \<Longrightarrow> length (stk s) < 2 ^ 31 \<Longrightarrow> s = s'\<lparr>stk := stk s' @ [b]\<rparr>"
  by (cases "stk s" rule: rev_cases) (auto simp: stack_fits_def)

lemma succ_PopInt: "PopInt s = Inr (v, s') \<Longrightarrow> length (stk s) < 2 ^ 31 \<Longrightarrow>
    \<exists>b. s = s'\<lparr>stk := stk s' @ [b]\<rparr> \<and> makeScriptNum b (verifyMinimalData s) defaultScriptNumLen = Inr v"
  by (auto simp: PopInt_def bindE_Inr_iff split_beta dest!: succ_Pop)

lemma succ_num2:
  assumes "onD (num2 f) vm = Inr vm'" "length (stk (dstack vm)) < 2 ^ 31"
  obtains base a b x y r where "stk (dstack vm) = base @ [a, b]"
    "makeScriptNum a (verifyMinimalData (dstack vm)) defaultScriptNumLen = Inr x"
    "makeScriptNum b (verifyMinimalData (dstack vm)) defaultScriptNumLen = Inr y"
    "Bytes (f y x) = Inr r" "vm' = vm\<lparr>dstack := (dstack vm)\<lparr>stk := base @ [r]\<rparr>\<rparr>"
proof -
  from assms(1) obtain v0 s0 v1 s1 s2 where p: "PopInt (dstack vm) = Inr (v0, s0)" "PopInt s0 = Inr (v1, s1)"
      "PushInt s1 (f v0 v1) = Inr s2" "vm' = vm\<lparr>dstack := s2\<rparr>"
    by (auto simp: onD_def num2_def bindE_Inr_iff split_beta)
  obtain b where b: "dstack vm = s0\<lparr>stk := stk s0 @ [b]\<rparr>"
      "makeScriptNum b (verifyMinimalData (dstack vm)) defaultScriptNumLen = Inr v0"
    using succ_PopInt [OF p(1)] assms(2) by blast
  then have "length (stk s0) < 2 ^ 31" using assms(2) by simp
  then obtain a where a: "s0 = s1\<lparr>stk := stk s1 @ [a]\<rparr>" "makeScriptNum a (verifyMinimalData s0) defaultScriptNumLen = Inr v1"
    using succ_PopInt [OF p(2)] by blast
  have vm0: "verifyMinimalData (dstack vm) = verifyMinimalData s0" by (simp add: b(1))
  obtain r where r: "Bytes (f v0 v1) = Inr r" "s2 = s1\<lparr>stk := stk s1 @ [r]\<rparr>"
    using p(3) by (auto simp: PushInt_def PushByteArray_def bindE_Inr_iff)
  show thesis
  proof (rule that [of "stk s1" a b v1 v0 r])
    show "stk (dstack vm) = stk s1 @ [a, b]" using b a by simp
    show "vm' = vm\<lparr>dstack := (dstack vm)\<lparr>stk := stk s1 @ [r]\<rparr>\<rparr>" using p(4) r(2) a(1) b(1) by simp
  qed (use a b r vm0 in simp_all)
qed

lemma succ_popIfBool:
  "popIfBool vm = Inr (c, vm') \<Longrightarrow> length (stk (dstack vm)) < 2 ^ 31 \<Longrightarrow>
     \<exists>b s. stk (dstack vm) = stk s @ [b] \<and> c = asBool b \<and> vm' = vm\<lparr>dstack := s\<rparr>"
  by (auto simp: popIfBool_def PopBool_def bindE_Inr_iff split_beta dest!: succ_Pop split: if_splits)

lemma succ_If:
  assumes "opfunc e OP_IF op vm = Inr vm'" "isBranchExecuting vm" "length (stk (dstack vm)) < 2 ^ 31"
  shows "\<exists>b s. stk (dstack vm) = stk s @ [b] \<and>
    vm' = vm\<lparr>dstack := s, condStack := condStack vm @ [if asBool b then OpCondTrue else OpCondFalse]\<rparr>"
  using assms by (fastforce simp: opfunc_def opcodeIf_def bindE_Inr_iff pushCond_def dest!: succ_popIfBool)

lemma succ_Else:
  "opfunc e OP_ELSE op vm = Inr vm' \<Longrightarrow> condStack vm = c @ [OpCondFalse] \<Longrightarrow> vm' = vm\<lparr>condStack := c @ [OpCondTrue]\<rparr>"
  by (simp add: opfunc_def opcodeElse_def Let_def)

lemma no_Return: "opfunc e OP_RETURN op vm \<noteq> Inr vm'"
  by (simp add: opfunc_def opcodeReturn_def)

lemma number_push: "isNumber v \<Longrightarrow> v \<le> OP_16"
  by (auto simp: isNumber_def isSmallInt_def intro: order_trans)

lemma emptySigRun_step:
  assumes run: "emptySigRun vm" "length (stk (dstack vm)) < 2 ^ 31"
    and x: "executeOpcode e (scripts vm ! 1 ! scriptOff vm) (vm\<lparr>scriptOff := scriptOff vm + 1\<rparr>) = Inr vm'"
  shows "emptySigRun vm'"
proof -
  let ?pop = "scripts vm ! 1 ! scriptOff vm"
  have scr: "scripts vm' = scripts vm" "scriptOff vm' = Suc (scriptOff vm)"
    using succE_D [OF keeps_executeOpcode x] by (auto dest: fixed_part_eqD)
  have d: "isBranchExecuting vm \<or> isConditional ?pop \<Longrightarrow>
      \<exists>k. opfunc e (op_value ?pop) ?pop (vm\<lparr>scriptOff := Suc (scriptOff vm), numOps := k\<rparr>) = Inr vm'"
    and hid: "\<not> isBranchExecuting vm \<Longrightarrow> \<not> isConditional ?pop \<Longrightarrow> dstack vm' = dstack vm \<and> condStack vm' = condStack vm"
    using x by (auto elim!: executeOpcode_success)
  note s = emptySigRun_def isBranchExecuting_def isConditional_def isHTLCWithScriptHash_ops isScriptHash_def
  show ?thesis using run(1) [unfolded emptySigRun_def]
  proof (cases rule: emptyRun.cases)
    case script_hash with d show ?thesis by (auto simp: s hash160_empty)
  next
    case age with d show ?thesis by (auto simp: s scr emptyRun.simps dest!: succ_InputAge)
  next
    case lock with d show ?thesis by (auto simp: s scr emptyRun.simps dest!: push_opfunc [OF number_push, rotated])
  next
    case greater
    with d obtain k where "onD (num2 (\<lambda>v0 v1. if v1 > v0 then 1 else 0)) (vm\<lparr>scriptOff := Suc (scriptOff vm), numOps := k\<rparr>) = Inr vm'"
      by (auto simp: s opfunc_def opcodeGreaterThan_def)
    then show ?thesis by (rule succ_num2) (use greater run(2) scr in \<open>auto simp: s emptyRun.simps\<close>)
  next
    case branch
    with d obtain k where "opfunc e OP_IF ?pop (vm\<lparr>scriptOff := Suc (scriptOff vm), numOps := k\<rparr>) = Inr vm'"
      by (auto simp: s)
    from succ_If [OF this] branch run(2) obtain b t where "stk t = []"
        "condStack vm' = [if asBool b then OpCondTrue else OpCondFalse]" "dstack vm' = t"
      by auto
    with branch scr show ?thesis by (cases "asBool b") (auto simp: emptySigRun_def emptyRun.simps)
  next
    case unlocked with d show ?thesis by (auto simp: s hash160_empty)
  next
    case locked
    then have c: "dstack vm' = dstack vm" "condStack vm' = condStack vm"
      using hid by (auto simp: isBranchExecuting_def isConditional_def isHTLCWithScriptHash_ops)
    from locked have "Suc (scriptOff vm) \<in> {4, 5, 6} \<or> Suc (scriptOff vm) = 7" by auto
    with locked show ?thesis unfolding emptySigRun_def scr c by (elim disjE) (simp_all add: emptyRun.intros)
  next
    case otherwise with d show ?thesis by (auto simp: s scr emptyRun.simps dest!: succ_Else [where c = "[]"])
  next
    case return with d show ?thesis by (auto simp: s no_Return)
  qed
qed

section \<open>The invariant between steps\<close>

definition curWitness :: "Engine \<Rightarrow> bytes list" where
  "curWitness vm = Witness (TxIns (tx vm) ! nat (txIdx vm))"

text \<open>The bounds on the stacks, which do not depend on the program counter.\<close>

definition bounded :: "nat \<Rightarrow> Engine \<Rightarrow> bool" where
  "bounded W vm \<longleftrightarrow> length (stk (dstack vm)) \<le> W \<and> length (stk (astack vm)) \<le> W \<and>
     small (dstack vm) \<and> small (astack vm) \<and>
     0 \<le> txIdx vm \<and> txIdx vm < int (length (TxIns (tx vm))) \<and>
     (\<forall>ti \<in> set (TxIns (tx vm)). \<bar>Age ti\<bar> < 2 ^ 63) \<and>
     length (savedFirstStack vm) \<le> W \<and> (\<forall>b \<in> set (savedFirstStack vm). length b \<le> 520) \<and>
     length (curWitness vm) \<le> W"

definition p2sh_inv :: "Engine \<Rightarrow> bool" where
  "p2sh_inv vm \<longleftrightarrow> (bip16 vm \<longrightarrow>
     (scriptIdx vm = 0 \<longrightarrow> isPushOnly (scripts vm ! 0) \<and> condStack vm = [] \<and>
        (scriptOff vm > 0 \<longrightarrow> stk (dstack vm) \<noteq> [])) \<and>
     (scriptIdx vm = 1 \<and> savedFirstStack vm = [] \<longrightarrow> emptySigRun vm))"

definition vm_inv :: "nat \<Rightarrow> Engine \<Rightarrow> bool" where
  "vm_inv W vm \<longleftrightarrow> bounded W vm \<and> p2sh_inv vm \<and>
     length (scripts vm) = max 2 (Suc (scriptIdx vm)) \<and>
     scriptOff vm < length (scripts vm ! scriptIdx vm) \<and> lastCodeSep vm \<le> length (scripts vm ! scriptIdx vm)"

lemma vm_inv_ready: "vm_inv W vm \<Longrightarrow> ready W (vm\<lparr>scriptOff := scriptOff vm + 1\<rparr>)"
  by (auto simp: vm_inv_def bounded_def ready_def)

lemma bounded_simps [simp]:
  "bounded W (vm\<lparr>scriptIdx := i\<rparr>) = bounded W vm" "bounded W (vm\<lparr>scriptOff := i\<rparr>) = bounded W vm"
  "bounded W (vm\<lparr>numOps := n\<rparr>) = bounded W vm" "bounded W (vm\<lparr>lastCodeSep := i\<rparr>) = bounded W vm"
  "bounded W (vm\<lparr>scripts := sc\<rparr>) = bounded W vm" "bounded W (vm\<lparr>witnessProgram := wp\<rparr>) = bounded W vm"
  by (simp_all add: bounded_def curWitness_def)

lemma bounded_SetStack:
  "bounded W vm \<Longrightarrow> W < 2 ^ 31 \<Longrightarrow> length data \<le> W \<Longrightarrow> \<forall>b \<in> set data. length b \<le> 520 \<Longrightarrow> bounded W (SetStack data vm)"
  by (auto simp: bounded_def curWitness_def SetStack_def setStack_eq stack_fits_def small_def)

lemma dropAlt_eq: "length (stk (astack vm)) < 2 ^ 31 \<Longrightarrow> dropAlt vm = vm\<lparr>astack := (astack vm)\<lparr>stk := []\<rparr>\<rparr>"
  using DropN_all [of "astack vm"] unfolding dropAlt_def
  by (cases "DropN (astack vm) (Depth (astack vm))") (auto simp: stack_fits_def)

lemma bounded_dropAlt: "bounded W vm \<Longrightarrow> W < 2 ^ 31 \<Longrightarrow> bounded W (dropAlt vm)"
  by (auto simp: dropAlt_eq bounded_def curWitness_def small_def)

lemma parse_length: "parseScript s = (pops, None) \<Longrightarrow> length pops \<le> length s"
proof (induction "length s" arbitrary: s pops rule: less_induct)
  case less
  show ?case
  proof (cases s)
    case (Cons instr rest)
    have IH: "length x \<le> length rest" if "parseScript (drop k rest) = (x, None)" for k x
      using less.hyps [of "drop k rest"] that Cons by fastforce
    show ?thesis
      using less.prems IH [of 0] unfolding Cons parseScript.simps(2) [of instr rest] Let_def
      by (auto simp: apfst_def map_prod_def split: if_splits prod.splits dest!: IH)
  qed (use less.prems in simp)
qed

lemma okE_CheckErrorCondition:
  assumes "bounded W vm" "W < 2 ^ 31" "\<And>s. bounded W (vm\<lparr>dstack := s\<rparr>) \<Longrightarrow> P (vm\<lparr>dstack := s\<rparr>)"
  shows "okE (CheckErrorCondition f vm) P"
proof -
  have s: "length (stk (dstack vm)) < 2 ^ 31" "small (dstack vm)" using assms(1,2) by (simp_all add: bounded_def)
  have "bounded W (vm\<lparr>dstack := s\<rparr>)" if "length (stk (dstack vm)) = Suc (length (stk s))" "small s" for s
    using assms(1) that by (simp add: bounded_def curWitness_def)
  with s assms(3) show ?thesis
    unfolding CheckErrorCondition_def by (auto simp: split_beta intro!: okE_PopBool)
qed

lemma okE_parseE: "(\<And>pops. parseScript s = (pops, None) \<Longrightarrow> P pops) \<Longrightarrow> okE (parseE s) P"
  by (simp add: parseE_def split: prod.splits option.splits)

lemma okE_payToPubKeyHashScript: "(\<And>s. P s) \<Longrightarrow> okE (payToPubKeyHashScript h) P"
  by (simp add: payToPubKeyHashScript_def builtScript_def)

lemma GetStack_bounded: "bounded W vm \<Longrightarrow> W < 2 ^ 31 \<Longrightarrow> GetStack vm = stk (dstack vm)"
  by (simp add: GetStack_def getStack_eq stack_fits_def bounded_def)

lemma okE_loadWitnessProgram:
  assumes "bounded W vm" "W < 2 ^ 31" "length data \<le> W"
    and "\<And>pops data. length data \<le> W \<Longrightarrow> P (SetStack data (appendScript pops vm))"
  shows "okE (loadWitnessProgram e p data vm) P"
  unfolding loadWitnessProgram_def Let_def
  using assms by (auto intro!: okE_payToPubKeyHashScript okE_parseE)

text \<open>The elements of the witness are only checked after the stack is set, so the bound on them holds again at the end.\<close>

lemma okE_verifyWitnessProgram:
  assumes b: "bounded W vm" "W < 2 ^ 31"
  shows "okE (verifyWitnessProgram e (curWitness vm) vm) (bounded W)"
proof -
  have w: "isWitnessVersionActive (SetStack data (appendScript pops vm)) 0 = isWitnessVersionActive vm 0" for data pops
    by (simp add: isWitnessVersionActive_def SetStack_def appendScript_def)
  have g: "GetStack (SetStack data (appendScript pops vm)) = data" if "length data \<le> W" for data pops
    using that b by (simp add: GetStack_def SetStack_def appendScript_def setStack_eq getStack_eq stack_fits_def bounded_def)
  have "bounded W (SetStack data (appendScript pops vm))"
    if "length data \<le> W" "\<forall>x \<in> set data. length x \<le> 520" for data pops
    using that b by (intro bounded_SetStack) (simp_all add: appendScript_def)
  moreover have "length (curWitness vm) \<le> W" using b by (simp add: bounded_def)
  ultimately show ?thesis
    unfolding verifyWitnessProgram_def
    using b by (auto simp: w g list_ex_iff not_less MaxScriptElementSize_def
        isWitnessVersionActive_def [of "vm\<lparr>witnessProgram := None\<rparr>"] intro!: okE_loadWitnessProgram)
qed

lemma okE_switchScript:
  assumes b: "bounded W vm" "W < 2 ^ 31" and s1: "bip16 vm \<Longrightarrow> scriptIdx vm = 1 \<Longrightarrow> savedFirstStack vm \<noteq> []"
  shows "okE (switchScript e vm) (bounded W)"
proof -
  have saved: "bounded W (vm\<lparr>scriptIdx := i, savedFirstStack := GetStack vm\<rparr>)" for i
    using b(1) unfolding GetStack_bounded [OF b] by (simp add: bounded_def curWitness_def small_def)
  have reload: "bounded W (SetStack (take (length sv - 1) sv) (appendScript pops vm'))"
    if "bounded W vm'" "savedFirstStack vm' = sv" for vm' pops sv
    using that b(2) by (intro bounded_SetStack) (auto simp: appendScript_def bounded_def curWitness_def dest: in_set_takeD)
  have wit: "okE (curTxIn vm') (\<lambda>ti. okE (verifyWitnessProgram e (Witness ti) vm') (bounded W))" if "bounded W vm'" for vm'
    using okE_verifyWitnessProgram [OF that b(2)] that
    by (simp add: curTxIn_def getE_def curWitness_def bounded_def nat_less_iff)
  show ?thesis unfolding switchScript_def Let_def
    using b saved s1
    by (auto intro!: okE_CheckErrorCondition okE_getE okE_parseE wit reload [simplified])
qed

lemma switchScript_first:
  "scriptIdx vm = 0 \<Longrightarrow> switchScript e vm =
     Inr (if bip16 vm then vm\<lparr>scriptIdx := 1, savedFirstStack := GetStack vm\<rparr> else vm\<lparr>scriptIdx := 1\<rparr>)"
  by (simp add: switchScript_def)

lemma okE_nextScript:
  assumes b: "bounded W vm" "W < 2 ^ 31" and l: "length (scripts vm) = max 2 (Suc (scriptIdx vm))"
    and s0: "bip16 vm \<Longrightarrow> scriptIdx vm = 0 \<Longrightarrow> stk (dstack vm) \<noteq> []"
    and s1: "bip16 vm \<Longrightarrow> scriptIdx vm = 1 \<Longrightarrow> savedFirstStack vm \<noteq> []"
  shows "okE (nextScript e vm) (\<lambda>(d, vm'). bounded W vm' \<and> (\<not> d \<longrightarrow> vm_inv W vm'))"
proof -
  define vm0 where "vm0 = (dropAlt vm)\<lparr>numOps := 0, scriptOff := 0\<rparr>"
  have f: "scripts vm0 = scripts vm" "scriptIdx vm0 = scriptIdx vm" "bip16 vm0 = bip16 vm"
      "savedFirstStack vm0 = savedFirstStack vm" "scriptOff vm0 = 0" "stk (dstack vm0) = stk (dstack vm)"
    by (simp_all add: vm0_def dropAlt_def split: sum.splits)
  have b0: "bounded W vm0" using b by (simp add: vm0_def bounded_dropAlt)
  have fr: "succE (switchScript e vm0) (\<lambda>vm'. scriptIdx vm' = Suc (scriptIdx vm) \<and> scriptOff vm' = 0 \<and>
      length (scripts vm') \<le> Suc (scriptIdx vm'))"
    by (rule succE_weaken [OF switchScript_frame]) (auto simp: f l max_def split: if_splits)
  have p: "succE (switchScript e vm0) (\<lambda>vm'. bip16 vm' \<longrightarrow> scriptIdx vm' = 1 \<longrightarrow> savedFirstStack vm' \<noteq> [])"
  proof (cases "scriptIdx vm0 = 0")
    case True
    with s0 f show ?thesis by (simp add: switchScript_first GetStack_bounded [OF b0 b(2)])
  next
    case False
    then show ?thesis using f by (intro succE_weaken [OF fr]) auto
  qed
  have "okE (switchScript e vm0) (bounded W)"
    using s1 f by (intro okE_switchScript b b0) auto
  from okE_succE [OF okE_succE [OF this fr] p]
  show ?thesis unfolding nextScript_def vm0_def [symmetric]
    by (auto simp: Let_def vm_inv_def p2sh_inv_def elim!: okE_weaken)
qed

lemma p2sh_inv_step:
  assumes inv: "vm_inv W vm" "W < 2 ^ 31"
    and x: "executeOpcode e (scripts vm ! scriptIdx vm ! scriptOff vm) (vm\<lparr>scriptOff := scriptOff vm + 1\<rparr>) = Inr vm1"
  shows "p2sh_inv vm1" "bip16 vm1 \<Longrightarrow> scriptIdx vm1 = 0 \<Longrightarrow> stk (dstack vm1) \<noteq> []"
proof -
  note f = fixed_part_eqD [OF succE_D [OF keeps_executeOpcode x], simplified]
  have push: "stk (dstack vm1) \<noteq> [] \<and> condStack vm1 = []" if "bip16 vm" "scriptIdx vm = 0"
  proof -
    from inv(1) that have "isPushOnly (scripts vm ! 0)" "condStack vm = []" "scriptOff vm < length (scripts vm ! 0)"
      by (simp_all add: vm_inv_def p2sh_inv_def)
    then have "op_value (scripts vm ! scriptIdx vm ! scriptOff vm) \<le> OP_16"
      using that by (simp add: isPushOnly_def list_all_length not_less)
    from push_executeOpcode [OF this _ x] \<open>condStack vm = []\<close> show ?thesis by auto
  qed
  have run: "emptySigRun vm1" if "bip16 vm" "scriptIdx vm = 1" "savedFirstStack vm = []"
    using inv x that by (intro emptySigRun_step [of vm e vm1]) (auto simp: vm_inv_def p2sh_inv_def bounded_def)
  show "p2sh_inv vm1" "bip16 vm1 \<Longrightarrow> scriptIdx vm1 = 0 \<Longrightarrow> stk (dstack vm1) \<noteq> []"
    using inv(1) push run f by (auto simp: p2sh_inv_def vm_inv_def)
qed

lemma okE_Step:
  assumes e: "env_ok e" and inv: "vm_inv W vm" and W: "1000 \<le> W" "W \<le> 2 ^ 29"
  shows "okE (Step e vm) (\<lambda>(d, vm'). bounded W vm' \<and> (\<not> d \<longrightarrow> vm_inv W vm'))"
proof -
  have pc: "validPC vm = Inr ()" using inv by (simp add: validPC_def vm_inv_def)
  let ?x = "executeOpcode e (scripts vm ! scriptIdx vm ! scriptOff vm) (vm\<lparr>scriptOff := scriptOff vm + 1\<rparr>)"
  have "okE (if to_int32 (Depth (dstack vm1) + Depth (astack vm1)) > MaxStackSize then scriptError ErrStackOverflow
        else if scriptOff vm1 \<ge> length (scripts vm1 ! scriptIdx vm1) then nextScript e vm1 else Inr (False, vm1))
      (\<lambda>(d, vm'). bounded W vm' \<and> (\<not> d \<longrightarrow> vm_inv W vm'))"
    if x: "?x = Inr vm1" and r: "ready (W + 3) vm1" for vm1
  proof (cases "to_int32 (Depth (dstack vm1) + Depth (astack vm1)) > MaxStackSize")
    case False
    note f = fixed_part_eqD [OF succE_D [OF keeps_executeOpcode x], simplified]
    have l: "length (stk (dstack vm1)) + length (stk (astack vm1)) \<le> 1000"
      using False r W by (simp add: ready_def MaxStackSize_def stack_fits_def)
    have b: "bounded W vm1" using l r W inv by (simp add: bounded_def ready_def vm_inv_def curWitness_def f)
    have p: "p2sh_inv vm1" "bip16 vm1 \<Longrightarrow> scriptIdx vm1 = 0 \<Longrightarrow> stk (dstack vm1) \<noteq> []"
      using p2sh_inv_step [OF inv _ x] W by simp_all
    have s: "length (scripts vm1) = max 2 (Suc (scriptIdx vm1))" using inv by (simp add: f vm_inv_def)
    show ?thesis
    proof (cases "scriptOff vm1 \<ge> length (scripts vm1 ! scriptIdx vm1)")
      case True
      have "savedFirstStack vm1 \<noteq> []" if "bip16 vm1" "scriptIdx vm1 = 1"
        using p(1) emptySigRun_off [of vm1] that True by (auto simp: p2sh_inv_def)
      with True False b s p W show ?thesis by (simp add: okE_nextScript)
    next
      case off: False
      with False b p s r show ?thesis by (simp add: vm_inv_def ready_def)
    qed
  qed simp
  with okE_executeOpcode [OF e vm_inv_ready [OF inv], of "scripts vm ! scriptIdx vm ! scriptOff vm"] W
  show ?thesis unfolding Step_def pc by (auto elim!: okE_weaken)
qed

lemma okE_Execute:
  assumes "env_ok e" "vm_inv W vm" "1000 \<le> W" "W \<le> 2 ^ 29"
  shows "okE (Execute e vm) (bounded W)"
  using assms(1,2)
proof (induction e vm rule: Execute.induct)
  case (1 e vm)
  note st = okE_Step [OF "1.prems"(1,2) assms(3,4)]
  show ?case
  proof (cases "Step e vm")
    case (Inl er)
    with st show ?thesis by (simp add: Execute.simps [of e vm] okE_def)
  next
    case (Inr p)
    obtain d vm' where p: "p = (d, vm')" by force
    with Inr st have s: "bounded W vm'" "\<not> d \<Longrightarrow> vm_inv W vm'" by auto
    show ?thesis
    proof (cases d)
      case True
      with Inr p s assms(4) show ?thesis
        by (auto simp: Execute.simps [of e vm] intro!: okE_CheckErrorCondition)
    next
      case False
      with "1.IH" [OF Inr p [symmetric]] s "1.prems" Inr p show ?thesis by (simp add: Execute.simps [of e vm])
    qed
  qed
qed

section \<open>New engines\<close>

lemma setWitnessProgram_frame:
  "succE (setWitnessProgram sg pk w vm) (\<lambda>vm'. \<exists>v p. vm' = vm\<lparr>witnessVersion := v, witnessProgram := p\<rparr>)"
proof -
  have "\<exists>v p. vm = vm\<lparr>witnessVersion := v, witnessProgram := p\<rparr>"
    by (rule exI [of _ "witnessVersion vm"], rule exI [of _ "witnessProgram vm"]) simp
  moreover have "\<exists>v p. vm\<lparr>witnessVersion := a, witnessProgram := b\<rparr> = vm\<lparr>witnessVersion := v, witnessProgram := p\<rparr>" for a b
    by blast
  ultimately show ?thesis
    unfolding setWitnessProgram_def
    by (auto split: option.splits simp: split_beta intro!: succE_all [where m = "findWitnessProgram a b c d" for a b c d]
        succE_all [where m = "ExtractWitnessProgramInfo p" for p])
qed

lemma setMinimalData_simps [simp]:
  "scripts (setMinimalData vm) = scripts vm" "scriptIdx (setMinimalData vm) = scriptIdx vm"
  "scriptOff (setMinimalData vm) = scriptOff vm" "lastCodeSep (setMinimalData vm) = lastCodeSep vm"
  "stk (dstack (setMinimalData vm)) = stk (dstack vm)" "stk (astack (setMinimalData vm)) = stk (astack vm)"
  "condStack (setMinimalData vm) = condStack vm" "savedFirstStack (setMinimalData vm) = savedFirstStack vm"
  "numOps (setMinimalData vm) = numOps vm" "tx (setMinimalData vm) = tx vm" "txIdx (setMinimalData vm) = txIdx vm"
  "flags (setMinimalData vm) = flags vm" "sigCache (setMinimalData vm) = sigCache vm"
  "hashCache (setMinimalData vm) = hashCache vm" "inputAmount (setMinimalData vm) = inputAmount vm"
  "bip16 (setMinimalData vm) = bip16 vm"
  by (simp_all add: setMinimalData_def)

lemma parse_nonempty: "parseScript s = (pops, None) \<Longrightarrow> s \<noteq> [] \<Longrightarrow> pops \<noteq> []"
  using parse_unparse by fastforce

lemma loadScript_parse: "loadScript s = Inr pops \<Longrightarrow> parseScript s = (pops, None) \<and> length s \<le> 10000"
  by (auto simp: loadScript_def parseE_def MaxScriptSize_def split: if_splits prod.splits option.splits)

text \<open>What a new engine looks like.\<close>

lemma NewEngine_success:
  assumes "NewEngine pk t i fl sc hc amount = Inr vm"
  obtains sigPops pkPops where "0 \<le> i" "i < int (length (TxIns t))"
    "loadScript (SignatureScript (TxIns t ! nat i)) = Inr sigPops" "loadScript pk = Inr pkPops"
    "SignatureScript (TxIns t ! nat i) \<noteq> [] \<or> pk \<noteq> []"
    "scripts vm = [sigPops, pkPops]" "scriptIdx vm = (if SignatureScript (TxIns t ! nat i) = [] then 1 else 0)"
    "scriptOff vm = 0" "lastCodeSep vm = 0" "stk (dstack vm) = []" "stk (astack vm) = []" "condStack vm = []"
    "savedFirstStack vm = []" "numOps vm = 0" "tx vm = t" "txIdx vm = i" "flags vm = fl" "sigCache vm = sc"
    "hashCache vm = hc" "inputAmount vm = amount"
    "bip16 vm \<Longrightarrow> isPushOnly sigPops \<and> (isScriptHash pkPops \<or> isHTLCWithScriptHash pkPops)"
proof -
  let ?sg = "SignatureScript (TxIns t ! nat i)" and ?w = "Witness (TxIns t ! nat i)" and ?vm = "newEngineState fl sc hc amount t i"
  from assms obtain sigPops pkPops where i: "0 \<le> i" "i < int (length (TxIns t))" "?sg \<noteq> [] \<or> pk \<noteq> []"
    and l: "loadScript ?sg = Inr sigPops" "loadScript pk = Inr pkPops"
    and v: "startEngine ?sg pk ?w sigPops pkPops ?vm = Inr vm"
    by (simp add: NewEngine_def Let_def bindE_Inr_iff split: if_split_asm) blast+
  from v obtain b vm0 where s: "setWitnessProgram ?sg pk ?w (setMinimalData vm0) = Inr vm"
    and b: "b \<Longrightarrow> isPushOnly sigPops \<and> (isScriptHash pkPops \<or> isHTLCWithScriptHash pkPops)"
    and vm0: "vm0 = ?vm\<lparr>scripts := [sigPops, pkPops], scriptIdx := (if ?sg = [] then 1 else 0), bip16 := b\<rparr>"
    by (auto simp: startEngine_def Let_def newEngineState_def split: if_splits)
  from succE_D [OF setWitnessProgram_frame s]
  obtain v p where vm: "vm = (setMinimalData vm0)\<lparr>witnessVersion := v, witnessProgram := p\<rparr>" by blast
  show thesis
    by (rule that [OF i(1,2) l i(3)]) (use b in \<open>simp_all add: vm vm0 newEngineState_def\<close>)
qed

lemma NewEngine_not_Panic: "NewEngine pk t i fl sc hc amount \<noteq> Inl Panic"
proof -
  have "okE (NewEngine pk t i fl sc hc amount) (\<lambda>_. True)"
    unfolding NewEngine_def startEngine_def setWitnessProgram_def findWitnessProgram_def loadScript_def
      ExtractWitnessProgramInfo_def Let_def
    by (intro okE_control okE_parseE; auto split: option.splits intro!: okE_parseE)
  then show ?thesis by auto
qed

lemma NewEngine_inv:
  assumes "NewEngine pk t i fl sc hc amount = Inr vm" "\<forall>ti \<in> set (TxIns t). \<bar>Age ti\<bar> < 2 ^ 63"
    and "length (Witness (TxIns t ! nat i)) \<le> W"
  shows "vm_inv W vm"
  using assms(1)
proof (rule NewEngine_success, goal_cases)
  case (1 sigPops pkPops)
  then have "sigPops \<noteq> []" if "SignatureScript (TxIns t ! nat i) \<noteq> []"
    using parse_nonempty loadScript_parse that by blast
  moreover have "pkPops \<noteq> []" if "SignatureScript (TxIns t ! nat i) = []"
    using 1 parse_nonempty loadScript_parse that by blast
  ultimately show ?case
    using 1 assms(2,3)
    by (auto simp: vm_inv_def bounded_def p2sh_inv_def small_def curWitness_def emptySigRun_def
        intro: emptyRun.intros)
qed

section \<open>Runs\<close>

text \<open>\<open>steps e vm k vm'\<close>: \<open>k\<close> calls of \<^verbatim>\<open>Step\<close> that did not finish lead from \<open>vm\<close> to \<open>vm'\<close>.\<close>

inductive steps :: "env \<Rightarrow> Engine \<Rightarrow> nat \<Rightarrow> Engine \<Rightarrow> bool" for e vm where
  none: "steps e vm 0 vm"
| more: "steps e vm k vm1 \<Longrightarrow> Step e vm1 = Inr (False, vm2) \<Longrightarrow> steps e vm (Suc k) vm2"

lemma steps_inv:
  assumes "env_ok e" "vm_inv W vm" "1000 \<le> W" "W \<le> 2 ^ 29" "steps e vm k vm'"
  shows "vm_inv W vm'"
  using assms(5)
proof induction
  case (more k vm1 vm2)
  from okE_Step [OF assms(1) more.IH assms(3,4)] more.hyps(2) show ?case by simp
qed (rule assms(2))

text \<open>The opcodes that can still run, with the scripts that may be loaded later.\<close>

definition extras :: "Engine \<Rightarrow> nat" where
  "extras vm = (if bip16 vm \<and> scriptIdx vm \<le> 1 then 520 else 0) +
     (if witnessProgram vm \<noteq> None \<and> (scriptIdx vm \<le> 1 \<or> scriptIdx vm = 2 \<and> bip16 vm) then 10000 else 0)"

definition opsFrom :: "nat \<Rightarrow> Engine \<Rightarrow> nat" where
  "opsFrom i vm = length (concat (drop i (scripts vm)))"

definition remaining :: "Engine \<Rightarrow> nat" where
  "remaining vm = opsFrom (scriptIdx vm) vm - scriptOff vm + extras vm"

lemma payToPubKeyHash_length: "length h = 20 \<Longrightarrow> succE (payToPubKeyHashScript h) (\<lambda>s. length s \<le> 10000)"
  by (simp add: payToPubKeyHashScript_def builtScript_def AddOp_def AddData_def addData_def Let_def
      NewScriptBuilder_def canonicalDataSize_def MaxScriptSize_def MaxScriptElementSize_def)

lemma succE_parseE: "(\<And>pops. length pops \<le> length s \<Longrightarrow> P pops) \<Longrightarrow> succE (parseE s) P"
  by (simp add: parseE_def parse_length split: prod.splits option.splits)

lemma verifyWitnessProgram_scripts:
  "succE (verifyWitnessProgram e w vm) (\<lambda>vm'. scriptIdx vm' = scriptIdx vm \<and> bip16 vm' = bip16 vm \<and>
     (scripts vm' = scripts vm \<or> (\<exists>pops. scripts vm' = scripts vm @ [pops] \<and> length pops \<le> 10000)))"
  unfolding verifyWitnessProgram_def loadWitnessProgram_def
  by (auto simp: SetStack_def appendScript_def Let_def MaxScriptSize_def
      intro!: succE_parseE succE_weaken [OF payToPubKeyHash_length])

lemma switchScript_remaining:
  assumes "length (scripts vm) = max 2 (Suc (scriptIdx vm))" "\<forall>b \<in> set (savedFirstStack vm). length b \<le> 520"
  shows "succE (switchScript e vm) (\<lambda>vm'.
    opsFrom (scriptIdx vm') vm' + extras vm' \<le> opsFrom (Suc (scriptIdx vm)) vm + extras vm)"
proof -
  have saved: "succE (getE (savedFirstStack vm) (length (savedFirstStack vm) - Suc 0)) (\<lambda>s. length s \<le> 520)"
    using assms(2) by (simp add: getE_def)
  note c = succE_weaken [OF CheckErrorCondition_frame]
  note w = succE_weaken [OF verifyWitnessProgram_scripts]
  show ?thesis unfolding switchScript_def Let_def
    using assms(1) 
    by (auto simp: opsFrom_def extras_def SetStack_def appendScript_def
        intro!: c w succE_weaken [OF saved] succE_parseE succE_all [where m = "curTxIn a" for a])
qed

lemma opsFrom_step: "i < length (scripts vm) \<Longrightarrow> opsFrom i vm = length (scripts vm ! i) + opsFrom (Suc i) vm"
  by (simp add: opsFrom_def Cons_nth_drop_Suc [symmetric])

lemma nextScript_remaining:
  assumes "length (scripts vm) = max 2 (Suc (scriptIdx vm))" "\<forall>b \<in> set (savedFirstStack vm). length b \<le> 520"
  shows "succE (nextScript e vm) (\<lambda>(d, vm'). remaining vm' \<le> opsFrom (Suc (scriptIdx vm)) vm + extras vm)"
proof -
  define vm0 where "vm0 = (dropAlt vm)\<lparr>numOps := 0, scriptOff := 0\<rparr>"
  have f: "scripts vm0 = scripts vm" "scriptIdx vm0 = scriptIdx vm" "bip16 vm0 = bip16 vm"
      "savedFirstStack vm0 = savedFirstStack vm" "witnessProgram vm0 = witnessProgram vm"
    by (simp_all add: vm0_def dropAlt_def split: sum.splits)
  have skip: "remaining (vm'\<lparr>scriptIdx := Suc (scriptIdx vm'), lastCodeSep := 0\<rparr>) \<le> opsFrom (scriptIdx vm') vm' + extras vm'"
    if "scriptIdx vm' < length (scripts vm')" for vm'
    using opsFrom_step [OF that] by (auto simp: remaining_def opsFrom_def extras_def)
  have stay: "remaining (vm'\<lparr>lastCodeSep := 0\<rparr>) \<le> opsFrom (scriptIdx vm') vm' + extras vm'" for vm'
    by (simp add: remaining_def opsFrom_def extras_def)
  have "succE (switchScript e vm0) (\<lambda>vm'. opsFrom (scriptIdx vm') vm' + extras vm' \<le> opsFrom (Suc (scriptIdx vm)) vm + extras vm)"
    using switchScript_remaining [of vm0 e] assms by (simp add: f opsFrom_def extras_def)
  then show ?thesis unfolding nextScript_def vm0_def [symmetric]
    using skip stay by (auto simp: Let_def elim!: succE_weaken intro: order_trans)
qed

lemma Step_remaining:
  assumes inv: "vm_inv W vm" and st: "Step e vm = Inr (d, vm')"
  shows "remaining vm' < remaining vm"
proof -
  let ?vm = "vm\<lparr>scriptOff := scriptOff vm + 1\<rparr>"
  from st obtain vm1 where x: "executeOpcode e (scripts vm ! scriptIdx vm ! scriptOff vm) ?vm = Inr vm1"
    and r: "(if scriptOff vm1 \<ge> length (scripts vm1 ! scriptIdx vm1) then nextScript e vm1 else Inr (False, vm1)) =
      Inr (d, vm')"
    by (auto simp: Step_def bindE_Inr_iff split: if_splits)
  note f = fixed_part_eqD [OF succE_D [OF keeps_executeOpcode x], simplified]
  have l: "length (scripts vm1) = max 2 (Suc (scriptIdx vm1))" "\<forall>b \<in> set (savedFirstStack vm1). length b \<le> 520"
    and off: "scriptOff vm < length (scripts vm ! scriptIdx vm)" "scriptIdx vm < length (scripts vm)"
    using inv by (simp_all add: f vm_inv_def bounded_def)
  have e: "extras vm1 = extras vm" "opsFrom i vm1 = opsFrom i vm" for i by (simp_all add: f extras_def opsFrom_def)
  note o = opsFrom_step [OF off(2)]
  show ?thesis
  proof (cases "scriptOff vm1 \<ge> length (scripts vm1 ! scriptIdx vm1)")
    case True
    with r have "remaining vm' \<le> opsFrom (Suc (scriptIdx vm)) vm + extras vm"
      using succE_D [OF nextScript_remaining [OF l]] by (fastforce simp: e f)
    with off(1) o show ?thesis by (simp add: remaining_def)
  next
    case False
    with r have v: "vm' = vm1" by simp
    show ?thesis using False off(1) o e unfolding v by (simp add: remaining_def f)
  qed
qed

lemma steps_remaining:
  assumes "env_ok e" "vm_inv W vm" "1000 \<le> W" "W \<le> 2 ^ 29" "steps e vm k vm'"
  shows "remaining vm' + k \<le> remaining vm"
  using assms(5)
proof induction
  case (more k vm1 vm2)
  from Step_remaining [OF steps_inv [OF assms(1-4) more.hyps(1)] more.hyps(2)] more.IH show ?case by simp
qed simp

lemma NewEngine_remaining:
  assumes "NewEngine pk t i fl sc hc amount = Inr vm"
  shows "remaining vm \<le> 30520"
  using assms
proof (rule NewEngine_success, goal_cases)
  case (1 sigPops pkPops)
  then have "length sigPops \<le> 10000" "length pkPops \<le> 10000"
    using loadScript_parse parse_length order_trans by metis+
  with 1 show ?case by (simp add: remaining_def opsFrom_def extras_def)
qed

section \<open>Properties\<close>

text \<open>C1. Script execution never panics and always returns. For every public key script, transaction, input
  index, flags and cache, with hash functions of the documented output lengths and a witness of at
  most \<open>2\<^sup>29\<close> items, creating an engine and executing it gives an error or success: no index of
  a stack, script or saved stack is out of range, whatever the scripts contain. (That it returns is
  the totality of \<^const>\<open>Execute\<close>.)\<close>

theorem engine_no_panic:
  assumes "env_ok e" "\<forall>ti \<in> set (TxIns t). - (2 ^ 31) \<le> Age ti \<and> Age ti < 2 ^ 31"
    and "length (Witness (TxIns t ! nat i)) \<le> 2 ^ 29"
  shows "bindE (NewEngine pk t i fl sc hc amount) (Execute e) \<noteq> Inl Panic"
proof (cases "NewEngine pk t i fl sc hc amount")
  case (Inl er)
  then show ?thesis using NewEngine_not_Panic [of pk t i fl sc hc amount] by simp
next
  case (Inr vm)
  have "\<forall>ti \<in> set (TxIns t). \<bar>Age ti\<bar> < 2 ^ 63" using assms(2) by fastforce
  from okE_Execute [OF assms(1) NewEngine_inv [OF Inr this assms(3)]] Inr show ?thesis
    by (auto simp: okE_iff)
qed

definition sampleEnv :: env where
  "sampleEnv = \<lparr>sha256 = (\<lambda>_. replicate 32 0), sha1 = (\<lambda>_. replicate 20 0), ripemd160 = (\<lambda>_. replicate 20 0),
     ParsePubKey = (\<lambda>_. Some (1, 2)), ParseDERSignature = (\<lambda>_. Some (3, 4)), ParseSignature = (\<lambda>_. Some (3, 4)),
     Verify = (\<lambda>_ _ _. True), mapStart = (\<lambda>_. 0)\<rparr>"

lemma sampleEnv_ok: "env_ok sampleEnv"
  by (simp add: env_ok_def sampleEnv_def)

theorem engine_no_panic_witness:
  "env_ok sampleEnv \<and> list_all (\<lambda>ti. - (2 ^ 31) \<le> Age ti \<and> Age ti < 2 ^ 31) (TxIns sample_tx) \<and>
   length (Witness (TxIns sample_tx ! nat 0)) \<le> 2 ^ 29 \<and>
   bindE (NewEngine [0x51] sample_tx 0 0 None None 0) (Execute sampleEnv) \<noteq> Inl Panic"
proof -
  have "\<forall>ti \<in> set (TxIns sample_tx). - (2 ^ 31) \<le> Age ti \<and> Age ti < 2 ^ 31"
    "length (Witness (TxIns sample_tx ! nat 0)) \<le> 2 ^ 29"
    by (simp_all add: sample_tx_def)
  with engine_no_panic [of sampleEnv sample_tx 0] sampleEnv_ok show ?thesis unfolding list_all_iff by blast
qed

text \<open>C30. Script execution is short. Fewer than 30,520 opcodes run between the creation of an engine and
  its end, whatever the scripts do: two scripts of at most 10,000 bytes, a pay-to-script-hash
  script of at most 520 and a witness script of at most 10,000.\<close>

theorem engine_step_bound:
  assumes "env_ok e" "\<forall>ti \<in> set (TxIns t). - (2 ^ 31) \<le> Age ti \<and> Age ti < 2 ^ 31"
    and "length (Witness (TxIns t ! nat i)) \<le> 2 ^ 29"
    and "NewEngine pk t i fl sc hc amount = Inr vm" "steps e vm k vm'"
  shows "k < 30520"
proof -
  have a: "\<forall>ti \<in> set (TxIns t). \<bar>Age ti\<bar> < 2 ^ 63" using assms(2) by fastforce
  have W: "(1000 :: nat) \<le> 2 ^ 29" by simp
  note inv = NewEngine_inv [OF assms(4) a assms(3)]
  have "vm_inv (2 ^ 29) vm'" using steps_inv [OF assms(1) inv W _ assms(5)] by simp
  then have "remaining vm' > 0"
    using opsFrom_step [of "scriptIdx vm'" vm'] by (auto simp: vm_inv_def remaining_def)
  with steps_remaining [OF assms(1) inv W _ assms(5)] NewEngine_remaining [OF assms(4)] show ?thesis by simp
qed

text \<open>The transaction that spends an output whose script pushes two numbers, and a run of two steps.\<close>

definition sampleEngine :: Engine where
  "sampleEngine = projr (NewEngine [0x51, 0x51] sample_tx 0 0 None None 0)"

definition sampleStep :: Engine where
  "sampleStep = snd (projr (Step sampleEnv sampleEngine))"

lemma sample_run:
  "NewEngine [0x51, 0x51] sample_tx 0 0 None None 0 = Inr sampleEngine"
  "steps sampleEnv sampleEngine 1 sampleStep"
proof -
  have "\<not> isl (NewEngine [0x51, 0x51] sample_tx 0 0 None None 0)" by code_simp
  then show "NewEngine [0x51, 0x51] sample_tx 0 0 None None 0 = Inr sampleEngine"
    unfolding sampleEngine_def by (cases "NewEngine [0x51, 0x51] sample_tx 0 0 None None 0") simp_all
  have "case Step sampleEnv sampleEngine of Inl _ \<Rightarrow> False | Inr (d, _) \<Rightarrow> \<not> d" by code_simp
  then have "Step sampleEnv sampleEngine = Inr (False, sampleStep)"
    unfolding sampleStep_def by (auto split: sum.splits prod.splits)
  from steps.more [OF steps.none this] show "steps sampleEnv sampleEngine 1 sampleStep" by simp
qed

theorem engine_step_bound_witness:
  "env_ok sampleEnv \<and> NewEngine [0x51, 0x51] sample_tx 0 0 None None 0 = Inr sampleEngine \<and>
   steps sampleEnv sampleEngine 1 sampleStep \<and> (1 :: nat) < 30520"
proof -
  have "\<forall>ti \<in> set (TxIns sample_tx). - (2 ^ 31) \<le> Age ti \<and> Age ti < 2 ^ 31"
    "length (Witness (TxIns sample_tx ! nat 0)) \<le> 2 ^ 29"
    by (simp_all add: sample_tx_def)
  with engine_step_bound [OF sampleEnv_ok _ _ sample_run] sampleEnv_ok sample_run show ?thesis by blast
qed

text \<open>C31. Resource limits hold in every state of a run: the program counter points to an opcode, every item
  on either stack has at most 520 bytes, and neither stack has more than 1,000 items, or as many
  as the witness that was just loaded.\<close>

theorem engine_resource_limits:
  assumes "env_ok e" "\<forall>ti \<in> set (TxIns t). - (2 ^ 31) \<le> Age ti \<and> Age ti < 2 ^ 31"
    and "length (Witness (TxIns t ! nat i)) \<le> 2 ^ 29"
    and "NewEngine pk t i fl sc hc amount = Inr vm" "steps e vm k vm'"
  shows "validPC vm' = Inr () \<and>
    (\<forall>b \<in> set (stk (dstack vm')) \<union> set (stk (astack vm')). length b \<le> 520) \<and>
    length (stk (dstack vm')) \<le> max 1000 (length (Witness (TxIns t ! nat i))) \<and>
    length (stk (astack vm')) \<le> max 1000 (length (Witness (TxIns t ! nat i)))"
proof -
  let ?W = "max 1000 (length (Witness (TxIns t ! nat i)))"
  have a: "\<forall>ti \<in> set (TxIns t). \<bar>Age ti\<bar> < 2 ^ 63" using assms(2) by fastforce
  have "vm_inv ?W vm" by (rule NewEngine_inv [OF assms(4) a]) simp
  then have "vm_inv ?W vm'" by (rule steps_inv [OF assms(1) _ _ _ assms(5)]) (use assms(3) in simp_all)
  then show ?thesis by (auto simp: vm_inv_def bounded_def small_def validPC_def max_def split: if_splits)
qed

theorem engine_resource_limits_witness:
  "env_ok sampleEnv \<and> NewEngine [0x51, 0x51] sample_tx 0 0 None None 0 = Inr sampleEngine \<and>
   steps sampleEnv sampleEngine 1 sampleStep \<and> validPC sampleStep = Inr ()"
proof -
  have "\<forall>ti \<in> set (TxIns sample_tx). - (2 ^ 31) \<le> Age ti \<and> Age ti < 2 ^ 31"
    "length (Witness (TxIns sample_tx ! nat 0)) \<le> 2 ^ 29"
    by (simp_all add: sample_tx_def)
  with engine_resource_limits [OF sampleEnv_ok _ _ sample_run] sampleEnv_ok sample_run show ?thesis by blast
qed

end
