(* ===== verification/VMSpec.thy ===== *)
theory VMSpec
  imports VMSafety
begin

text \<open>
  What the script engine decides for some public key scripts: a script that starts with
  \<^verbatim>\<open>OP_RETURN\<close> is never spent, and a time-locked script is not spent before its lock has expired.
  The lemmas follow a run through the signature script to the start of the public key script.
\<close>

section \<open>From the signature script to the public key script\<close>

lemma steps_Cons:
  assumes "Step e vm = Inr (False, vm1)" "steps e vm1 k vm2"
  shows "steps e vm (Suc k) vm2"
  using assms(2)
proof induction
  case none
  show ?case using steps.more [OF steps.none assms(1)] .
qed (rule steps.more)

lemma Step_success:
  assumes "Step e vm = Inr (d, vm')"
  obtains vm1 where "scriptIdx vm < length (scripts vm)" "scriptOff vm < length (scripts vm ! scriptIdx vm)"
    "executeOpcode e (scripts vm ! scriptIdx vm ! scriptOff vm) (vm\<lparr>scriptOff := scriptOff vm + 1\<rparr>) = Inr vm1"
    "fixed_part vm1 = fixed_part (vm\<lparr>scriptOff := scriptOff vm + 1\<rparr>)"
    "if scriptOff vm + 1 \<ge> length (scripts vm ! scriptIdx vm) then nextScript e vm1 = Inr (d, vm') else \<not> d \<and> vm' = vm1"
proof -
  from assms obtain vm1 where pc: "scriptIdx vm < length (scripts vm)" "scriptOff vm < length (scripts vm ! scriptIdx vm)"
    and x: "executeOpcode e (scripts vm ! scriptIdx vm ! scriptOff vm) (vm\<lparr>scriptOff := scriptOff vm + 1\<rparr>) = Inr vm1"
    and r: "if scriptOff vm1 \<ge> length (scripts vm1 ! scriptIdx vm1) then nextScript e vm1 = Inr (d, vm') else \<not> d \<and> vm' = vm1"
    by (auto simp: Step_def validPC_def bindE_Inr_iff split: if_splits)
  have "fixed_part vm1 = fixed_part (vm\<lparr>scriptOff := scriptOff vm + 1\<rparr>)" using succE_D [OF keeps_executeOpcode x] .
  moreover from fixed_part_eqD [OF this, simplified] r
  have "if scriptOff vm + 1 \<ge> length (scripts vm ! scriptIdx vm) then nextScript e vm1 = Inr (d, vm') else \<not> d \<and> vm' = vm1"
    by simp
  ultimately show thesis using that pc x by blast
qed

text \<open>The part of an engine that stays from its creation.\<close>

definition input_part :: "Engine \<Rightarrow> _" where
  "input_part vm = (tx vm, txIdx vm, flags vm, hashCache vm, bip16 vm, inputAmount vm)"

lemma nextScript_first:
  assumes "nextScript e vm = Inr (d, vm')" "scriptIdx vm = 0" "length (scripts vm) = 2" "scripts vm ! 1 \<noteq> []"
  shows "\<not> d \<and> scriptIdx vm' = 1 \<and> scriptOff vm' = 0 \<and> condStack vm' = [] \<and> scripts vm' = scripts vm \<and>
    input_part vm' = input_part vm"
  using assms
  by (auto simp: nextScript_def Let_def switchScript_first dropAlt_def input_part_def split: if_splits sum.splits)

lemma Execute_to_pk:
  assumes "Execute e vm = Inr r" "scriptIdx vm = 0" "length (scripts vm) = 2" "scripts vm ! 1 \<noteq> []"
  shows "\<exists>vm1 k. steps e vm k vm1 \<and> Execute e vm1 = Inr r \<and> scriptIdx vm1 = 1 \<and> scriptOff vm1 = 0 \<and>
    condStack vm1 = [] \<and> scripts vm1 = scripts vm \<and> input_part vm1 = input_part vm"
  using assms
proof (induction e vm rule: Execute.induct)
  case (1 e vm)
  from "1.prems"(1) obtain d vm' where st: "Step e vm = Inr (d, vm')"
    and r: "if d then CheckErrorCondition True vm' = Inr r else Execute e vm' = Inr r"
    by (auto simp: Execute.simps [of e vm] split: sum.splits prod.splits if_splits)
  from st obtain vm1 where x: "fixed_part vm1 = fixed_part (vm\<lparr>scriptOff := scriptOff vm + 1\<rparr>)"
    and n: "if scriptOff vm + 1 \<ge> length (scripts vm ! scriptIdx vm) then nextScript e vm1 = Inr (d, vm') else \<not> d \<and> vm' = vm1"
    by (rule Step_success) blast
  note f = fixed_part_eqD [OF x, simplified]
  show ?case
  proof (cases "scriptOff vm + 1 \<ge> length (scripts vm ! scriptIdx vm)")
    case True
    with n nextScript_first [of e vm1 d vm'] f "1.prems"
    have v: "\<not> d" "scriptIdx vm' = 1" "scriptOff vm' = 0" "condStack vm' = []" "scripts vm' = scripts vm"
      "input_part vm' = input_part vm1" by auto
    have "steps e vm 1 vm'" using steps.more [OF steps.none] st v(1) by simp
    with v r f show ?thesis by (auto simp: input_part_def)
  next
    case False
    with n have v: "\<not> d" "vm' = vm1" by auto
    with "1.IH" [OF st, of d vm'] r f "1.prems" obtain vm2 k where h: "steps e vm' k vm2" "Execute e vm2 = Inr r"
      "scriptIdx vm2 = 1" "scriptOff vm2 = 0" "condStack vm2 = []" "scripts vm2 = scripts vm" "input_part vm2 = input_part vm1"
      by auto
    from steps_Cons [OF _ h(1)] st v(1) have "steps e vm (Suc k) vm2" by simp
    with h f show ?thesis by (auto simp: input_part_def)
  qed
qed

text \<open>A successful execution passes through the start of a non-empty public key script.\<close>

lemma run_to_pk:
  assumes new: "NewEngine pk t i fl sc hc amount = Inr vm" and ex: "Execute e vm = Inr r"
    and pops: "parseScript pk = (pops, None)" "pops \<noteq> []"
  obtains vm1 k where "steps e vm k vm1" "Execute e vm1 = Inr r" "scriptIdx vm1 = 1" "scriptOff vm1 = 0"
    "condStack vm1 = []" "length (scripts vm1) = 2" "scripts vm1 ! 1 = pops" "tx vm1 = t" "txIdx vm1 = i"
    "flags vm1 = fl"
  using new
proof (rule NewEngine_success, goal_cases)
  case (1 sigPops pkPops)
  then have pk: "pkPops = pops" using loadScript_parse [of pk pkPops] pops by simp
  show thesis
  proof (cases "scriptIdx vm = 0")
    case True
    with Execute_to_pk [OF ex] 1 pk pops obtain vm1 k where "steps e vm k vm1" "Execute e vm1 = Inr r"
      "scriptIdx vm1 = 1" "scriptOff vm1 = 0" "condStack vm1 = []" "scripts vm1 = scripts vm" "input_part vm1 = input_part vm"
      by auto
    with 1(1) [of k vm1] 1(2-) pk show thesis by (simp add: input_part_def)
  next
    case False
    with 1(1) [OF steps.none ex] 1(2-) pk show thesis by (simp split: if_splits)
  qed
qed

lemma Execute_Step: "Execute e vm = Inr r \<Longrightarrow> \<exists>d vm'. Step e vm = Inr (d, vm') \<and> (\<not> d \<longrightarrow> Execute e vm' = Inr r)"
  by (auto simp: Execute.simps [of e vm] split: sum.splits prod.splits if_splits)

lemma no_Step_Return:
  assumes "scripts vm ! scriptIdx vm ! scriptOff vm = pop" "op_value pop = OP_RETURN" "isBranchExecuting vm"
  shows "Step e vm \<noteq> Inr (d, vm')"
proof
  assume "Step e vm = Inr (d, vm')"
  then show False
    by (elim Step_success executeOpcode_success) (use assms no_Return in auto)
qed

section \<open>Unspendable outputs\<close>

text \<open>C32. An output that \<^verbatim>\<open>IsUnspendable\<close> prunes from the UTXO set can never be spent: no transaction,
  signature script, witness, flags or cache make the engine accept it.\<close>

theorem unspendable_rejected:
  assumes "IsUnspendable pk"
  shows "bindE (NewEngine pk t i fl sc hc amount) (Execute e) \<noteq> Inr r"
proof
  assume "bindE (NewEngine pk t i fl sc hc amount) (Execute e) = Inr r"
  then obtain vm where new: "NewEngine pk t i fl sc hc amount = Inr vm" and ex: "Execute e vm = Inr r"
    by (auto simp: bindE_Inr_iff)
  from new obtain pops where "loadScript pk = Inr pops" by (rule NewEngine_success)
  then have p: "parseScript pk = (pops, None)" using loadScript_parse by blast
  with assms have ret: "pops \<noteq> []" "op_value (pops ! 0) = OP_RETURN" by (auto simp: IsUnspendable_def parseE_def)
  from new ex p ret(1) show False
    by (rule run_to_pk) (use no_Step_Return ret(2) Execute_Step in \<open>force simp: isBranchExecuting_def\<close>)
qed

theorem unspendable_rejected_witness:
  "IsUnspendable [0x6a, 0x51] \<and>
   bindE (NewEngine [0x6a, 0x51] sample_tx 0 0 None None 0) (Execute sampleEnv) \<noteq> Inr sampleEngine"
proof -
  have "IsUnspendable [0x6a, 0x51]" by code_simp
  with unspendable_rejected [of "[0x6a, 0x51]"] show ?thesis by blast
qed

section \<open>Time-locked outputs\<close>

text \<open>The shape of the opcodes that \<^verbatim>\<open>parseScript\<close> returns.\<close>

lemma parse_shape:
  assumes "parseScript s = (pops, None)" "pop \<in> set pops"
  shows "opcode_length (op_value pop) = 1 \<and> op_data pop = [] \<or>
    1 < opcode_length (op_value pop) \<and> length (op_data pop) = nat (opcode_length (op_value pop)) - 1 \<or>
    opcode_length (op_value pop) < 1"
  using assms
proof (induction "length s" arbitrary: s pops rule: less_induct)
  case less
  show ?case
  proof (cases s)
    case (Cons instr rest)
    have IH: ?thesis if "parseScript (drop k rest) = (x, None)" "pop \<in> set x" for k x
      using less.hyps [of "drop k rest"] that Cons by fastforce
    from less.prems IH [of 0] show ?thesis
      unfolding Cons parseScript.simps(2) [of instr rest] Let_def
      by (auto simp: apfst_def map_prod_def split: if_splits prod.splits dest!: IH)
  qed (use less.prems in simp)
qed

lemma parse_data:
  assumes "parseScript s = (pops, None)" "pop \<in> set pops" "op_data pop \<noteq> []"
  shows "op_value pop \<le> OP_PUSHDATA4"
  using parse_shape [OF assms(1,2)] assms(3)
  by (auto simp: opcode_length_def split: if_splits intro: order_trans [of _ 75])

text \<open>The opcodes between the condition and \<^verbatim>\<open>OP_ELSE\<close> of a time-locked script are skipped when the lock holds.\<close>

lemma isHTLC_ops:
  assumes "fst (isHTLC pops)"
  shows "length pops \<in> {9, 10, 12}" "op_value (pops ! 0) = OP_INPUTAGE" "isNumber (op_value (pops ! 1))"
    "op_value (pops ! 2) = OP_GREATERTHAN" "op_value (pops ! 3) = OP_IF"
    "op_value (pops ! (length pops - 3)) = OP_ELSE" "op_value (pops ! (length pops - 2)) = OP_RETURN"
  using assms by (auto simp: isHTLC_def Let_def isOpCode_def split: if_splits)

lemma isHTLC_hidden:
  assumes "fst (isHTLC pops)" "parseScript s = (pops, None)" "4 \<le> k" "k < length pops - 3"
  shows "\<not> isConditional (pops ! k)"
proof -
  have d: "\<not> isConditional (pops ! j)" if "length (op_data (pops ! j)) = n" "0 < n" "j < length pops" for j n
    using parse_data [OF assms(2) nth_mem [OF that(3)]] that(1,2) by (fastforce simp: isConditional_def)
  have "length pops = 9 \<and> k \<in> {4, 5} \<or> length pops = 10 \<and> k \<in> {4, 5, 6} \<or> length pops = 12 \<and> k \<in> {4, 5, 6, 7, 8}"
    using isHTLC_ops(1) [OF assms(1)] assms(3,4) by auto
  then show ?thesis
    using assms(1) d [of 4 33] d [of 4 65] d [of 5 20] d [of 5 32]
    by (elim disjE; auto simp: isHTLC_def Let_def isOpCode_def isConditional_def split: if_splits)
qed

text \<open>The states of a run of a time-locked script whose lock holds, with the data stack and the conditions.\<close>

inductive lockRun :: "nat \<Rightarrow> int \<Rightarrow> int \<Rightarrow> nat \<Rightarrow> bytes list \<Rightarrow> OpCond list \<Rightarrow> bool" for l age lock where
  start: "lockRun l age lock 0 s []"
| aged: "snum_val a = age \<Longrightarrow> lockRun l age lock 1 (s @ [a]) []"
| number: "snum_val a = age \<Longrightarrow> snum_val b = lock \<Longrightarrow> lockRun l age lock 2 (s @ [a, b]) []"
| compared: "\<not> asBool f \<Longrightarrow> lockRun l age lock 3 (s @ [f]) []"
| hidden: "4 \<le> k \<Longrightarrow> k + 3 < l \<Longrightarrow> lockRun l age lock k s [OpCondFalse]"
| otherwise: "k + 3 = l \<Longrightarrow> lockRun l age lock k s [OpCondFalse]"
| return: "k + 2 = l \<Longrightarrow> lockRun l age lock k s [OpCondTrue]"

definition lockNum :: "parsedOpcode \<Rightarrow> int" where
  "lockNum pop = (if isSmallInt (op_value pop) then asSmallInt (op_value pop) else snum_val (op_data pop))"

lemma Bytes_val: "\<bar>n\<bar> < 2 ^ 63 \<Longrightarrow> Bytes n = Inr b \<Longrightarrow> snum_val b = n"
  using Bytes_spec [of n] by (auto simp: abs_less_iff)

lemma number_value:
  assumes "isNumber (op_value op)" "opfunc e (op_value op) op vm = Inr vm'"
  shows "\<exists>b. vm' = vm\<lparr>dstack := PushByteArray (dstack vm) b\<rparr> \<and> snum_val b = lockNum op"
proof -
  let ?v = "op_value op"
  consider "?v = OP_0" | "?v \<noteq> OP_0" "?v \<le> OP_DATA_4" "\<not> isSmallInt ?v" | "OP_1 \<le> ?v" "?v \<le> OP_16"
    using assms(1) by (auto simp: isNumber_def isSmallInt_def)
  then show ?thesis
  proof cases
    case 1
    with assms(2) show ?thesis
      by (auto simp: opfunc_def opcodeFalse_def onD_def lockNum_def isSmallInt_def asSmallInt_def snum_val_def)
  next
    case 2
    moreover from 2 have "?v \<le> OP_PUSHDATA4" by (auto intro: order_trans)
    ultimately show ?thesis using assms(2)
      by (auto simp: opfunc_def opcodePushData_def onD_def lockNum_def)
  next
    case 3
    then have n: "\<not> ?v \<le> OP_PUSHDATA4" "?v \<noteq> OP_0" "?v \<noteq> OP_1NEGATE" "?v \<noteq> OP_RESERVED"
      using order_trans [of OP_1 ?v OP_PUSHDATA4] by auto
    have u: "\<bar>uint (?v - 80)\<bar> < 2 ^ 63" using uint_u8_bounds [of "?v - 80"] by simp
    from n assms(2) 3 u show ?thesis
      by (auto simp: opfunc_def opcodeN_def onD_def PushInt_def bindE_Inr_iff lockNum_def isSmallInt_def
          asSmallInt_def Bytes_val)
  qed
qed

lemma age_value:
  assumes "opfunc e OP_INPUTAGE op vm = Inr vm'" "\<bar>Age (TxIns (tx vm) ! nat (txIdx vm))\<bar> < 2 ^ 63"
  shows "\<exists>b. vm' = vm\<lparr>dstack := PushByteArray (dstack vm) b\<rparr> \<and> snum_val b = Age (TxIns (tx vm) ! nat (txIdx vm))"
  using assms by (auto simp: opfunc_def opcodeInputAge_def curTxIn_def getE_def onD_def PushInt_def bindE_Inr_iff
      Bytes_val split: if_splits)

lemma greater_false:
  assumes "opfunc e OP_GREATERTHAN op vm = Inr vm'" "stk (dstack vm) = s @ [a, b]" "length (stk (dstack vm)) < 2 ^ 31"
    and "snum_val a \<le> snum_val b"
  shows "vm' = vm\<lparr>dstack := (dstack vm)\<lparr>stk := s @ [[]]\<rparr>\<rparr>"
proof -
  from assms(1) have "onD (num2 (\<lambda>v0 v1. if v1 > v0 then 1 else 0)) vm = Inr vm'"
    by (simp add: opfunc_def opcodeGreaterThan_def)
  then show ?thesis
  proof (rule succ_num2 [OF _ assms(3)])
    fix base x y u v r
    assume h: "stk (dstack vm) = base @ [x, y]" "makeScriptNum x (verifyMinimalData (dstack vm)) defaultScriptNumLen = Inr u"
      "makeScriptNum y (verifyMinimalData (dstack vm)) defaultScriptNumLen = Inr v"
      "Bytes (if u > v then 1 else 0) = Inr r" "vm' = vm\<lparr>dstack := (dstack vm)\<lparr>stk := base @ [r]\<rparr>\<rparr>"
    have "u = snum_val x" "v = snum_val y"
      using h(2,3) makeScriptNum_InrD(1) [of 4] by (simp_all add: defaultScriptNumLen_def)
    with h(1,4,5) assms(2,4) show ?thesis by (simp add: Bytes_def)
  qed
qed

lemma lockRun_step:
  assumes htlc: "fst (isHTLC pops)" "parseScript s = (pops, None)"
    and run: "lockRun (length pops) age (lockNum (pops ! 1)) (scriptOff vm) (stk (dstack vm)) (condStack vm)"
    and vm: "\<bar>age\<bar> < 2 ^ 63" "age \<le> lockNum (pops ! 1)" "age = Age (TxIns (tx vm) ! nat (txIdx vm))"
      "length (stk (dstack vm)) < 2 ^ 31"
    and x: "executeOpcode e (pops ! scriptOff vm) (vm\<lparr>scriptOff := scriptOff vm + 1\<rparr>) = Inr vm'"
  shows "lockRun (length pops) age (lockNum (pops ! 1)) (Suc (scriptOff vm)) (stk (dstack vm')) (condStack vm')"
proof -
  note ops = isHTLC_ops [OF htlc(1)]
  let ?pop = "pops ! scriptOff vm"
  have d: "isBranchExecuting vm \<or> isConditional ?pop \<Longrightarrow>
      \<exists>k. opfunc e (op_value ?pop) ?pop (vm\<lparr>scriptOff := Suc (scriptOff vm), numOps := k\<rparr>) = Inr vm'"
    and hid: "\<not> isBranchExecuting vm \<Longrightarrow> \<not> isConditional ?pop \<Longrightarrow> dstack vm' = dstack vm \<and> condStack vm' = condStack vm"
    using x by (auto elim!: executeOpcode_success)
  from run show ?thesis
  proof (cases rule: lockRun.cases)
    case start
    with d ops vm show ?thesis by (auto dest!: age_value intro: lockRun.aged [of _ _ _ _ "stk (dstack vm)", simplified])
  next
    case (aged a t)
    with d obtain k where "opfunc e (op_value (pops ! 1)) (pops ! 1) (vm\<lparr>scriptOff := Suc 1, numOps := k\<rparr>) = Inr vm'" by auto
    from number_value [OF ops(3) this] aged show ?thesis by (auto intro: lockRun.number [unfolded numeral_2_eq_2])
  next
    case (number a b t)
    with d ops obtain k where "opfunc e OP_GREATERTHAN (pops ! 2) (vm\<lparr>scriptOff := 3, numOps := k\<rparr>) = Inr vm'" by auto
    from greater_false [OF this, of t a b] number vm show ?thesis
      by (auto intro: lockRun.compared [of "[]", simplified])
  next
    case (compared f t)
    with d ops obtain k where "opfunc e OP_IF (pops ! 3) (vm\<lparr>scriptOff := 4, numOps := k\<rparr>) = Inr vm'" by auto
    from succ_If [OF this] compared vm ops(1) show ?thesis
      by (auto simp: lockRun.hidden)
  next
    case hidden
    then have "\<not> isConditional ?pop" by (intro isHTLC_hidden [OF htlc]) simp_all
    with hid hidden(1) have c: "dstack vm' = dstack vm" "condStack vm' = [OpCondFalse]"
      by (simp_all add: isBranchExecuting_def)
    from hidden have "Suc (scriptOff vm) + 3 < length pops \<or> Suc (scriptOff vm) + 3 = length pops" by auto
    with hidden c show ?thesis by (auto simp: lockRun.hidden lockRun.otherwise)
  next
    case otherwise
    then have k: "scriptOff vm = length pops - 3" by simp
    with d ops obtain j where "opfunc e OP_ELSE ?pop (vm\<lparr>scriptOff := Suc (scriptOff vm), numOps := j\<rparr>) = Inr vm'"
      by (auto simp: isConditional_def)
    from succ_Else [OF this, of "[]"] otherwise show ?thesis by (simp add: lockRun.return)
  next
    case return
    then have "scriptOff vm = length pops - 2" by simp
    with d ops return no_Return show ?thesis by (auto simp: isBranchExecuting_def)
  qed
qed

lemma lockRun_off: "lockRun l age lock k s c \<Longrightarrow> 9 \<le> l \<Longrightarrow> Suc k < l"
  by (auto elim!: lockRun.cases)

lemma ExtractHTLCLockTime_lockNum:
  assumes "parseScript pk = (pops, None)" "fst (isHTLC pops)" "ExtractHTLCLockTime pk = Inr lock"
  shows "lock = lockNum (pops ! 1)"
proof (cases "isSmallInt (op_value (pops ! 1))")
  case True
  have "0 \<le> asSmallInt v" "asSmallInt v < 256" for v
    using uint_u8_bounds [of "v - 80"] by (simp_all add: asSmallInt_def)
  from to_int32_id [OF order_trans [OF _ this(1)] less_trans [OF this(2)]]
  have "to_int32 (asSmallInt v) = asSmallInt v" for v by simp
  with True assms show ?thesis
    by (auto simp: ExtractHTLCLockTime_def parseE_def lockNum_def split: if_splits)
next
  case False
  let ?pop = "pops ! 1"
  note ops = isHTLC_ops [OF assms(2)]
  from ops(3) False have v: "OP_DATA_1 \<le> op_value ?pop" "op_value ?pop \<le> OP_DATA_4" by (auto simp: isNumber_def)
  then have "op_value ?pop \<noteq> 0" "op_value ?pop \<le> 75" using order_trans [OF v(2), of 75] by auto
  then have ol: "opcode_length (op_value ?pop) = uint (op_value ?pop) + 1" "uint (op_value ?pop) \<noteq> 0"
    by (auto simp: opcode_length_def word_uint_eq_iff)
  have "?pop \<in> set pops" using ops(1) by auto
  from parse_shape [OF assms(1) this] ol uint_u8_bounds(1) [of "op_value ?pop"]
  have l: "length (op_data ?pop) = unat (op_value ?pop)"
    by (simp add: nat_add_distrib)
  have "unat (op_value ?pop) \<le> 4" using v(2) by (simp add: word_le_nat_alt)
  with l snum_range [of "op_data ?pop" 4] have r: "\<bar>snum_val (op_data ?pop)\<bar> < 2 ^ 31" by simp
  from False assms obtain n where n: "makeScriptNum (op_data ?pop) True 5 = Inr n" "lock = to_int32 n"
    by (auto simp: ExtractHTLCLockTime_def parseE_def bindE_Inr_iff split: if_splits)
  from makeScriptNum_InrD(1) [of 5] n(1) have "n = snum_val (op_data ?pop)" by simp
  with n(2) r False show ?thesis by (simp add: lockNum_def to_int32_id abs_less_iff)
qed

lemma locked_never_succeeds:
  assumes "env_ok e" "1000 \<le> W" "W \<le> 2 ^ 29"
    and htlc: "parseScript pk = (pops, None)" "fst (isHTLC pops)" "age \<le> lockNum (pops ! 1)" "\<bar>age\<bar> < 2 ^ 63"
    and "vm_inv W vm" "scriptIdx vm = 1" "scripts vm ! 1 = pops" "Age (TxIns (tx vm) ! nat (txIdx vm)) = age"
    and "lockRun (length pops) age (lockNum (pops ! 1)) (scriptOff vm) (stk (dstack vm)) (condStack vm)"
  shows "Execute e vm \<noteq> Inr r"
  using assms(1,8-)
proof (induction e vm rule: Execute.induct)
  case (1 e vm)
  show ?case
  proof
    assume "Execute e vm = Inr r"
    from Execute_Step [OF this] obtain d vm' where st: "Step e vm = Inr (d, vm')" and n: "\<not> d \<longrightarrow> Execute e vm' = Inr r" by blast
    have off: "Suc (scriptOff vm) < length pops"
      using lockRun_off [OF "1.prems"(6)] isHTLC_ops(1) [OF htlc(2)] by auto
    from st obtain vm1 where x: "executeOpcode e (pops ! scriptOff vm) (vm\<lparr>scriptOff := scriptOff vm + 1\<rparr>) = Inr vm1"
        "fixed_part vm1 = fixed_part (vm\<lparr>scriptOff := scriptOff vm + 1\<rparr>)" and v: "\<not> d" "vm' = vm1"
      using off "1.prems"(3,4) by (auto elim!: Step_success)
    note f = fixed_part_eqD [OF x(2), simplified]
    have inv: "vm_inv W vm'" using okE_Step [OF "1.prems"(1,2) assms(2,3)] st v by simp
    have "length (stk (dstack vm)) < 2 ^ 31" using "1.prems"(2) assms(3) by (simp add: vm_inv_def bounded_def)
    from lockRun_step [OF htlc(2,1) "1.prems"(6) htlc(4,3) "1.prems"(5) [symmetric] this x(1)]
    have "lockRun (length pops) age (lockNum (pops ! 1)) (scriptOff vm') (stk (dstack vm')) (condStack vm')"
      using f v by simp
    from "1.IH" [OF st refl v(1) "1.prems"(1) inv _ _ _ this] f v "1.prems"(3-5) n show False by simp
  qed
qed

lemma htlc_locked:
  assumes "env_ok e" "\<forall>ti \<in> set (TxIns t). - (2 ^ 31) \<le> Age ti \<and> Age ti < 2 ^ 31"
    and "length (Witness (TxIns t ! nat i)) \<le> 2 ^ 29"
    and "parseE pk = Inr pops" "fst (isHTLC pops)" "ExtractHTLCLockTime pk = Inr lock" "Age (TxIns t ! nat i) \<le> lock"
  shows "bindE (NewEngine pk t i fl sc hc amount) (Execute e) \<noteq> Inr r"
proof
  assume "bindE (NewEngine pk t i fl sc hc amount) (Execute e) = Inr r"
  then obtain vm where new: "NewEngine pk t i fl sc hc amount = Inr vm" and ex: "Execute e vm = Inr r"
    by (auto simp: bindE_Inr_iff)
  have p: "parseScript pk = (pops, None)" using assms(4) by (auto simp: parseE_def split: prod.splits option.splits)
  have age: "\<forall>ti \<in> set (TxIns t). \<bar>Age ti\<bar> < 2 ^ 63" using assms(2) by fastforce
  from new have "TxIns t ! nat i \<in> set (TxIns t)" by (rule NewEngine_success) simp
  with age have a: "\<bar>Age (TxIns t ! nat i)\<bar> < 2 ^ 63" by blast
  have W: "(1000 :: nat) \<le> 2 ^ 29" by simp
  note inv = NewEngine_inv [OF new age assms(3)]
  have "pops \<noteq> []" using isHTLC_ops(1) [OF assms(5)] by auto
  from new ex p this show False
  proof (rule run_to_pk)
    fix vm1 k
    assume s: "steps e vm k vm1" and r: "Execute e vm1 = Inr r" "scriptIdx vm1 = 1" "scriptOff vm1 = 0" "condStack vm1 = []"
      "scripts vm1 ! 1 = pops" "tx vm1 = t" "txIdx vm1 = i"
    have "vm_inv (2 ^ 29) vm1" using steps_inv [OF assms(1) inv W _ s] by simp
    with locked_never_succeeds [OF assms(1) W _ p assms(5) _ a, of vm1 r] r assms(7)
      ExtractHTLCLockTime_lockNum [OF p assms(5,6)] lockRun.start show False by simp
  qed
qed

section \<open>Properties\<close>

text \<open>C2. A time lock cannot be bypassed: as long as the age of the spent output does not exceed the lock
  period that \<^verbatim>\<open>ExtractHTLCLockTime\<close> reads from a time-locked script, the engine accepts no
  signature script, witness, flags or cache, for any of the inner script classes.\<close>

theorem htlc_time_lock:
  assumes "env_ok e" "\<forall>ti \<in> set (TxIns t). - (2 ^ 31) \<le> Age ti \<and> Age ti < 2 ^ 31"
    and "length (Witness (TxIns t ! nat i)) \<le> 2 ^ 29"
    and "parseE pk = Inr pops" "fst (isHTLC pops)" "ExtractHTLCLockTime pk = Inr lock" "Age (TxIns t ! nat i) \<le> lock"
  shows "bindE (NewEngine pk t i fl sc hc amount) (Execute e) \<noteq> Inr r"
  by (rule htlc_locked [OF assms])

text \<open>A pay-to-pubkey-hash output locked for five blocks.\<close>

definition sampleLock :: bytes where
  "sampleLock = [0xb3, 0x55, 0xa0, 0x63, 0x76, 0xa9, 0x14] @ replicate 20 9 @ [0x88, 0xac, 0x67, 0x6a, 0x68]"

theorem htlc_time_lock_witness:
  "ExtractHTLCLockTime sampleLock = Inr 5 \<and> fst (isHTLC (projr (parseE sampleLock))) \<and>
   Age (TxIns sample_tx ! nat 0) \<le> 5 \<and>
   bindE (NewEngine sampleLock sample_tx 0 0 None None 0) (Execute sampleEnv) \<noteq> Inr sampleEngine"
proof -
  have l: "ExtractHTLCLockTime sampleLock = Inr 5" by code_simp
  have h: "fst (isHTLC (projr (parseE sampleLock)))" by code_simp
  have "\<not> isl (parseE sampleLock)" by code_simp
  then have p: "parseE sampleLock = Inr (projr (parseE sampleLock))" by (cases "parseE sampleLock") simp_all
  have "\<forall>ti \<in> set (TxIns sample_tx). - (2 ^ 31) \<le> Age ti \<and> Age ti < 2 ^ 31"
    "length (Witness (TxIns sample_tx ! nat 0)) \<le> 2 ^ 29" "Age (TxIns sample_tx ! nat 0) \<le> 5"
    by (simp_all add: sample_tx_def)
  with htlc_time_lock [OF sampleEnv_ok, of sample_tx 0, OF _ _ p h l] l h show ?thesis by blast
qed

end
