(* ===== verification/CacheTransparency.thy ===== *)
theory CacheTransparency
  imports VMSpec
begin

text \<open>
  The signature cache does not change what the engine decides. A handler that does not read the
  cache commutes with replacing it (\<open>blind\<close>); the signature handlers are simulated, as long as the
  cache holds valid signatures only, by their runs without a cache.
\<close>

section \<open>Handlers that do not read the cache\<close>

abbreviation setCache :: "SigCache option \<Rightarrow> Engine \<Rightarrow> Engine" where
  "setCache c vm \<equiv> vm\<lparr>sigCache := c\<rparr>"

lemma setCache_updates [simp]:
  "(setCache c vm)\<lparr>dstack := s\<rparr> = setCache c (vm\<lparr>dstack := s\<rparr>)" "(setCache c vm)\<lparr>astack := s\<rparr> = setCache c (vm\<lparr>astack := s\<rparr>)"
  "(setCache c vm)\<lparr>condStack := cs\<rparr> = setCache c (vm\<lparr>condStack := cs\<rparr>)" "(setCache c vm)\<lparr>numOps := n\<rparr> = setCache c (vm\<lparr>numOps := n\<rparr>)"
  "(setCache c vm)\<lparr>lastCodeSep := k\<rparr> = setCache c (vm\<lparr>lastCodeSep := k\<rparr>)"
  "(setCache c vm)\<lparr>scriptOff := k\<rparr> = setCache c (vm\<lparr>scriptOff := k\<rparr>)" "(setCache c vm)\<lparr>scriptIdx := k\<rparr> = setCache c (vm\<lparr>scriptIdx := k\<rparr>)"
  "(setCache c vm)\<lparr>scripts := ps\<rparr> = setCache c (vm\<lparr>scripts := ps\<rparr>)"
  "(setCache c vm)\<lparr>savedFirstStack := l\<rparr> = setCache c (vm\<lparr>savedFirstStack := l\<rparr>)" "(setCache c vm)\<lparr>bip16 := b\<rparr> = setCache c (vm\<lparr>bip16 := b\<rparr>)"
  "(setCache c vm)\<lparr>witnessVersion := v\<rparr> = setCache c (vm\<lparr>witnessVersion := v\<rparr>)"
  "(setCache c vm)\<lparr>witnessProgram := p\<rparr> = setCache c (vm\<lparr>witnessProgram := p\<rparr>)"
  by simp_all

lemma setCache_flags [simp]:
  "hasFlag (setCache c vm) f = hasFlag vm f" "isBranchExecuting (setCache c vm) = isBranchExecuting vm"
  "isWitnessVersionActive (setCache c vm) n = isWitnessVersionActive vm n"
  by (simp_all add: hasFlag_def isBranchExecuting_def isWitnessVersionActive_def)

lemma setCache_reads [simp]:
  "curTxIn (setCache c vm) = curTxIn vm" "subScript (setCache c vm) = subScript vm"
  "signatureHash e (setCache c vm) s ht = signatureHash e vm s ht" "parseSig e (setCache c vm) b = parseSig e vm b"
  "checkHashTypeEncoding (setCache c vm) ht = checkHashTypeEncoding vm ht"
  "checkSignatureEncoding (setCache c vm) b = checkSignatureEncoding vm b"
  "checkPubKeyEncoding (setCache c vm) b = checkPubKeyEncoding vm b"
  unfolding curTxIn_def subScript_def signatureHash_def parseSig_def checkHashTypeEncoding_def
    checkSignatureEncoding_def checkPubKeyEncoding_def setCache_flags by (simp_all cong: if_cong option.case_cong)

definition blind :: "(Engine \<Rightarrow> Engine sresult) \<Rightarrow> bool" where
  "blind f \<longleftrightarrow> (\<forall>vm c. f (setCache c vm) = map_sum id (setCache c) (f vm))"

lemma blindI: "(\<And>vm c. f (setCache c vm) = map_sum id (setCache c) (f vm)) \<Longrightarrow> blind f"
  by (simp add: blind_def)

lemma map_sum_bindE: "map_sum id g (bindE m f) = bindE m (\<lambda>a. map_sum id g (f a))"
  by (cases m) simp_all

lemma bindE_map_sum: "bindE (map_sum id g m) f = bindE m (\<lambda>x. f (g x))"
  by (cases m) simp_all

lemma map_sum_if: "map_sum id g (if c then x else y) = (if c then map_sum id g x else map_sum id g y)"
  by simp

lemma map_sum_id_eq: "(\<And>a. g (h a) = h a) \<Longrightarrow> map_sum id g (map_sum id h m) = map_sum id h m"
  by (cases m) simp_all

lemmas blind_simps = map_sum_bindE map_sum_if split_def Let_def

lemma blind_onD: "blind (onD f)"
  by (rule blindI) (simp add: onD_def blind_simps)

lemma blind_abstractVerify: "blind (abstractVerify c)"
  by (simp add: abstractVerify_def blind_onD)

lemma blind_bind: "blind f \<Longrightarrow> blind g \<Longrightarrow> blind (\<lambda>vm. bindE (f vm) g)"
proof (rule blindI)
  fix vm c
  assume "blind f" "blind g"
  then show "bindE (f (setCache c vm)) g = map_sum id (setCache c) (bindE (f vm) g)"
    by (cases "f vm") (simp_all add: blind_def)
qed

named_theorems blind_intros

lemma blind_stack_handlers [blind_intros]:
  "blind (opcodeFalse op)" "blind (opcodePushData op)" "blind (opcode1Negate op)" "blind (opcodeN op)"
  "blind (opcode2Drop op)" "blind (opcode2Dup op)" "blind (opcode3Dup op)" "blind (opcode2Over op)" "blind (opcode2Rot op)"
  "blind (opcode2Swap op)" "blind (opcodeIfDup op)" "blind (opcodeDepth op)" "blind (opcodeDrop op)" "blind (opcodeDup op)"
  "blind (opcodeNip op)" "blind (opcodeOver op)" "blind (opcodePick op)" "blind (opcodeRoll op)" "blind (opcodeRot op)"
  "blind (opcodeSwap op)" "blind (opcodeTuck op)" "blind (opcodeSize op)" "blind (opcodeEqual op)" "blind (opcode1Add op)"
  "blind (opcode1Sub op)" "blind (opcodeNegate op)" "blind (opcodeAbs op)" "blind (opcodeNot op)" "blind (opcode0NotEqual op)"
  "blind (opcodeAdd op)" "blind (opcodeSub op)" "blind (opcodeBoolAnd op)" "blind (opcodeBoolOr op)" "blind (opcodeNumEqual op)"
  "blind (opcodeNumNotEqual op)" "blind (opcodeLessThan op)" "blind (opcodeGreaterThan op)" "blind (opcodeLessThanOrEqual op)"
  "blind (opcodeGreaterThanOrEqual op)" "blind (opcodeMin op)" "blind (opcodeMax op)" "blind (opcodeWithin op)"
  "blind (opcodeRipemd160 e op)" "blind (opcodeSha1 e op)" "blind (opcodeSha256 e op)" "blind (opcodeHash160 e op)"
  "blind (opcodeHash256 e op)"
  unfolding handler_defs by (rule blind_onD)+

lemma blind_verify_handlers [blind_intros]:
  "blind (opcodeVerify op)" "blind (opcodeEqualVerify op)" "blind (opcodeNumEqualVerify op)"
  unfolding opcodeVerify_def [abs_def] opcodeEqualVerify_def [abs_def] opcodeNumEqualVerify_def [abs_def]
  by (intro blind_abstractVerify blind_bind blind_intros)+

lemma blind_other_handlers [blind_intros]:
  "blind (opcodeReserved op)" "blind (opcodeInvalid op)" "blind (opcodeDisabled op)" "blind (opcodeReturn op)"
  "blind (opcodeNop op)" "blind (opcodeToAltStack op)" "blind (opcodeFromAltStack op)" "blind (opcodeCodeSeparator op)"
  by (rule blindI; simp add: opcodeReserved_def opcodeInvalid_def opcodeDisabled_def opcodeReturn_def opcodeNop_def
      opcodeToAltStack_def opcodeFromAltStack_def opcodeCodeSeparator_def blind_simps cong: if_cong)+

lemma blind_InputAge [blind_intros]: "blind (opcodeInputAge op)"
  by (rule blindI) (simp add: opcodeInputAge_def blind_simps blind_onD [unfolded blind_def])

lemma blind_lock_handlers [blind_intros]: "blind (opcodeCheckLockTimeVerify op)" "blind (opcodeCheckSequenceVerify op)"
  by (rule blindI; simp add: opcodeCheckLockTimeVerify_def opcodeCheckSequenceVerify_def blind_simps cong: if_cong)+

lemma setCache_popIfBool: "popIfBool (setCache c vm) = map_sum id (\<lambda>(b, vm). (b, setCache c vm)) (popIfBool vm)"
  by (simp add: popIfBool_def blind_simps cong: if_cong)

lemma blind_conditionals [blind_intros]:
  "blind (opcodeIf op)" "blind (opcodeNotIf op)" "blind (opcodeElse op)" "blind (opcodeEndif op)"
  by (rule blindI; simp add: opcodeIf_def opcodeNotIf_def opcodeElse_def opcodeEndif_def pushCond_def
      blind_simps setCache_popIfBool bindE_map_sum cong: if_cong OpCond.case_cong split: OpCond.splits)+

section \<open>Simulation of an engine with a cache by one without\<close>

definition validCache :: "env \<Rightarrow> SigCache \<Rightarrow> bool" where
  "validCache e c \<longleftrightarrow> list_all (\<lambda>(h, sg, pk). Verify e sg h pk) (validSigs c)"

definition cacheOK :: "env \<Rightarrow> Engine \<Rightarrow> bool" where
  "cacheOK e vm \<longleftrightarrow> pred_option (validCache e) (sigCache vm)"

definition sim :: "env \<Rightarrow> Engine sresult \<Rightarrow> Engine sresult \<Rightarrow> bool" where
  "sim e m m0 \<longleftrightarrow> m0 = map_sum id (setCache None) m \<and> succE m (cacheOK e)"

lemma cacheOK_update [simp]:
  "cacheOK e (vm\<lparr>dstack := s\<rparr>) = cacheOK e vm" "cacheOK e (vm\<lparr>astack := s\<rparr>) = cacheOK e vm"
  "cacheOK e (vm\<lparr>numOps := n\<rparr>) = cacheOK e vm" "cacheOK e (vm\<lparr>scriptOff := k\<rparr>) = cacheOK e vm"
  by (simp_all add: cacheOK_def)

lemma sim_bind:
  assumes "sim e m m0" "\<And>vm. m = Inr vm \<Longrightarrow> cacheOK e vm \<Longrightarrow> sim e (f vm) (f0 (setCache None vm))"
  shows "sim e (bindE m f) (bindE m0 f0)"
  using assms by (cases m) (auto simp: sim_def)

lemma sim_same: "(\<And>a. sim e (f a) (f0 a)) \<Longrightarrow> sim e (bindE m f) (bindE m f0)"
  by (cases m) (auto simp: sim_def)

lemma sim_Inl: "sim e (Inl er) (Inl er)" and sim_Inr: "cacheOK e vm \<Longrightarrow> vm0 = setCache None vm \<Longrightarrow> sim e (Inr vm) (Inr vm0)"
  by (simp_all add: sim_def)

lemma sim_if: "(c \<Longrightarrow> sim e a a0) \<Longrightarrow> (\<not> c \<Longrightarrow> sim e b b0) \<Longrightarrow> sim e (if c then a else b) (if c then a0 else b0)"
  by simp

lemma sim_option:
  "sim e a a0 \<Longrightarrow> (\<And>y. sim e (f y) (f0 y)) \<Longrightarrow>
     sim e (case x of None \<Rightarrow> a | Some y \<Rightarrow> f y) (case x of None \<Rightarrow> a0 | Some y \<Rightarrow> f0 y)"
  by (cases x) simp_all

lemma blind_sim:
  assumes "blind f" "cacheOK e vm"
  shows "sim e (f vm) (f (setCache None vm))"
proof -
  have "f vm = map_sum id (setCache (sigCache vm)) (f vm)"
    using assms(1) [unfolded blind_def, rule_format, of "sigCache vm" vm] by simp
  then have e: "f vm = Inr vm' \<Longrightarrow> vm' = setCache (sigCache vm) vm'" for vm' by (cases "f vm") auto
  have "f vm = Inr vm' \<Longrightarrow> sigCache vm' = sigCache vm" for vm' by (subst e) simp_all
  with assms show ?thesis by (auto simp: sim_def blind_def succE_def cacheOK_def)
qed

text \<open>Every entry that \<^verbatim>\<open>Add\<close> puts into the cache was just verified.\<close>

lemma validCache_AddSig: "validCache e c \<Longrightarrow> Verify e sg h pk \<Longrightarrow> validCache e (AddSig e c h sg pk)"
  by (auto simp: validCache_def AddSig_def Let_def mapDelete_def list_all_iff)

lemma validCache_Exists: "validCache e c \<Longrightarrow> Exists c h sg pk \<Longrightarrow> Verify e sg h pk"
  by (auto simp: validCache_def Exists_def list_all_iff dest!: map_of_SomeD split: option.splits)

lemma verifyCached_sim:
  assumes "cacheOK e vm" "copyHash h = h"
  shows "verifyCached e (setCache None vm) h sg pk =
      (fst (verifyCached e vm h sg pk), setCache None (snd (verifyCached e vm h sg pk)))"
    "cacheOK e (snd (verifyCached e vm h sg pk))"
  using assms validCache_AddSig [of e _ sg h pk] validCache_Exists [of e _ h sg pk]
  by (auto simp: verifyCached_def Let_def cacheOK_def split: option.splits)

lemma copyHash_32: "length h = 32 \<Longrightarrow> copyHash h = h"
  by (simp add: copyHash_def)

lemma signatureHash_length: "env_ok e \<Longrightarrow> signatureHash e vm s ht = Inr h \<Longrightarrow> copyHash h = h"
  by (rule copyHash_32) (auto simp: signatureHash_def calcWitnessSignatureHash_def calcSignatureHash_def env_ok_def
      DoubleHashB_def zeroHash_def Let_def bindE_Inr_iff split: if_splits option.splits)

lemma sim_hash:
  assumes "env_ok e" "\<And>h. copyHash h = h \<Longrightarrow> sim e (f h) (f0 h)"
  shows "sim e (bindE (signatureHash e vm s ht) f) (bindE (signatureHash e vm s ht) f0)"
  using assms signatureHash_length [of e vm s ht] by (cases "signatureHash e vm s ht") (auto simp: sim_def)

lemma pushD_setCache [simp]: "pushD (setCache c vm) b = setCache c (pushD vm b)" "cacheOK e (pushD vm b) = cacheOK e vm"
  by (simp_all add: pushD_def)

text \<open>The end of \<^verbatim>\<open>opcodeCheckSig\<close>.\<close>

lemma sim_verified:
  assumes "cacheOK e vm" "copyHash h = h"
  shows "sim e
    (if \<not> fst (verifyCached e vm h sg pk) \<and> hasFlag (snd (verifyCached e vm h sg pk)) f \<and> P then scriptError ErrNullFail
     else Inr (pushD (snd (verifyCached e vm h sg pk)) (fst (verifyCached e vm h sg pk))))
    (if \<not> fst (verifyCached e (setCache None vm) h sg pk) \<and> hasFlag (snd (verifyCached e (setCache None vm) h sg pk)) f \<and> P
     then scriptError ErrNullFail
     else Inr (pushD (snd (verifyCached e (setCache None vm) h sg pk)) (fst (verifyCached e (setCache None vm) h sg pk))))"
  unfolding verifyCached_sim(1) [OF assms] using verifyCached_sim(2) [OF assms]
  by (simp add: sim_def)

lemma sim_CheckSig:
  assumes "env_ok e" "cacheOK e vm"
  shows "sim e (opcodeCheckSig e op vm) (opcodeCheckSig e op (setCache None vm))"
proof -
  have d: "dstack (setCache None vm) = dstack vm" by simp
  show ?thesis
    unfolding opcodeCheckSig_def Let_def split_beta setCache_updates setCache_reads setCache_flags d
    by (intro sim_same sim_verified sim_if sim_option sim_hash sim_Inl sim_Inr assms(1)) (simp_all add: assms(2))
qed

text \<open>The same for results with a flag.\<close>

definition simP :: "env \<Rightarrow> (bool \<times> Engine) sresult \<Rightarrow> (bool \<times> Engine) sresult \<Rightarrow> bool" where
  "simP e m m0 \<longleftrightarrow> m0 = map_sum id (apsnd (setCache None)) m \<and> succE m (\<lambda>(b, vm). cacheOK e vm)"

lemma simP_simps: "simP e (Inl er) (Inl er)" "simP e (Inr (b, vm)) (Inr (b, setCache None vm)) = cacheOK e vm"
  by (simp_all add: simP_def)

lemma simP_same: "(\<And>a. m = Inr a \<Longrightarrow> simP e (f a) (f0 a)) \<Longrightarrow> simP e (bindE m f) (bindE m f0)"
  by (cases m) (auto simp: simP_def)

lemma simP_if: "simP e a a0 \<Longrightarrow> simP e b b0 \<Longrightarrow> simP e (if c then a else b) (if c then a0 else b0)"
  by simp

lemma simP_option:
  "simP e a a0 \<Longrightarrow> (\<And>y. simP e (f y) (f0 y)) \<Longrightarrow>
     simP e (case x of None \<Rightarrow> a | Some y \<Rightarrow> f y) (case x of None \<Rightarrow> a0 | Some y \<Rightarrow> f0 y)"
  by (cases x) simp_all

lemma simP_bind:
  assumes "simP e m m0" "\<And>b vm. cacheOK e vm \<Longrightarrow> sim e (f b vm) (f0 b (setCache None vm))"
  shows "sim e (bindE m (\<lambda>p. f (fst p) (snd p))) (bindE m0 (\<lambda>p. f0 (fst p) (snd p)))"
  using assms by (cases m) (auto simp: simP_def sim_def)

lemma parseOnce_setCache: "parseOnce e (setCache c vm) si = parseOnce e vm si"
  unfolding parseOnce_def setCache_reads ..

lemma sim_multiSigLoop:
  assumes "env_ok e" "cacheOK e vm"
  shows "simP e (multiSigLoop e script pubKeys m k i j sigs vm) (multiSigLoop e script pubKeys m k i j sigs (setCache None vm))"
  using assms(2)
proof (induction m arbitrary: k i j sigs vm)
  case (Suc m)
  have v: "simP e
     (if fst (verifyCached e vm h sg pk) then multiSigLoop e script pubKeys m (k - 1) (i + 1) (j + 1) sigs' (snd (verifyCached e vm h sg pk))
      else multiSigLoop e script pubKeys m k (i + 1) j sigs' (snd (verifyCached e vm h sg pk)))
     (if fst (verifyCached e (setCache None vm) h sg pk)
      then multiSigLoop e script pubKeys m (k - 1) (i + 1) (j + 1) sigs' (snd (verifyCached e (setCache None vm) h sg pk))
      else multiSigLoop e script pubKeys m k (i + 1) j sigs' (snd (verifyCached e (setCache None vm) h sg pk)))"
    if "copyHash h = h" for h sg pk sigs'
    unfolding verifyCached_sim(1) [OF Suc.prems that] using Suc.IH [OF verifyCached_sim(2) [OF Suc.prems that]] by simp
  show ?case
    unfolding multiSigLoop.simps Let_def split_beta setCache_reads parseOnce_setCache
    by (intro simP_if simP_same simP_option v Suc.IH Suc.prems signatureHash_length [OF assms(1)])
       (simp_all add: simP_simps Suc.prems)
qed (simp add: simP_simps)

lemma sim_CheckMultiSig:
  assumes "env_ok e" "cacheOK e vm"
  shows "sim e (opcodeCheckMultiSig e op vm) (opcodeCheckMultiSig e op (setCache None vm))"
proof -
  have d: "dstack (setCache None vm) = dstack vm" "numOps (setCache None vm) = numOps vm" by simp_all
  have n: "numOps (setCache None v) = numOps v" "dstack (setCache None v) = dstack v" for v by simp_all
  show ?thesis
    unfolding opcodeCheckMultiSig_def Let_def split_beta d setCache_updates n setCache_reads setCache_flags
    by (intro sim_same sim_if sim_Inl simP_bind sim_multiSigLoop assms(1)) (simp_all add: assms(2) sim_def)
qed

definition simH :: "env \<Rightarrow> handler \<Rightarrow> bool" where
  "simH e h \<longleftrightarrow> (\<forall>op vm. cacheOK e vm \<longrightarrow> sim e (h op vm) (h op (setCache None vm)))"

lemma blind_simH: "(\<And>op. blind (h op)) \<Longrightarrow> simH e h"
  by (simp add: simH_def blind_sim)

lemma simH_verify: "simH e h \<Longrightarrow> simH e (\<lambda>op vm. bindE (h op vm) (abstractVerify c))"
  unfolding simH_def by (blast intro: sim_bind blind_sim [OF blind_abstractVerify])

lemma simH_signatures:
  assumes "env_ok e"
  shows "simH e (opcodeCheckSig e)" "simH e (opcodeCheckMultiSig e)" "simH e (opcodeCheckSigVerify e)"
    "simH e (opcodeCheckMultiSigVerify e)"
proof -
  show a: "simH e (opcodeCheckSig e)" "simH e (opcodeCheckMultiSig e)"
    using sim_CheckSig [OF assms] sim_CheckMultiSig [OF assms] by (simp_all add: simH_def)
  show "simH e (opcodeCheckSigVerify e)" "simH e (opcodeCheckMultiSigVerify e)"
    unfolding opcodeCheckSigVerify_def opcodeCheckMultiSigVerify_def by (intro simH_verify a)+
qed

lemma simH_opfunc: "env_ok e \<Longrightarrow> simH e (opfunc e v)"
  unfolding opfunc_def
  by (intro if_intro [of _ "simH e"] simH_signatures; (rule blind_simH, intro blind_intros)?)

section \<open>The engine\<close>

lemma sim_executeOpcode:
  assumes "env_ok e" "cacheOK e vm"
  shows "sim e (executeOpcode e pop vm) (executeOpcode e pop (setCache None vm))"
proof -
  have c: "sim e (countOp pop vm) (countOp pop (setCache None vm))"
    by (rule blind_sim [OF blindI assms(2)]) (simp add: countOp_def blind_simps cong: if_cong)
  have d: "dstack (setCache None v) = dstack v" for v by simp
  have h: "sim e (opfunc e v op vm') (opfunc e v op (setCache None vm'))" if "cacheOK e vm'" for v op vm'
    using simH_opfunc [OF assms(1)] that by (simp add: simH_def)
  show ?thesis unfolding executeOpcode_def
    by (intro sim_if sim_Inl sim_bind [OF c]) (simp only: setCache_flags d, intro sim_if sim_same h sim_Inr; simp)
qed

lemma setCache_moves [simp]:
  "SetStack d (setCache c vm) = setCache c (SetStack d vm)" "appendScript p (setCache c vm) = setCache c (appendScript p vm)"
  "GetStack (setCache c vm) = GetStack vm" "dropAlt (setCache c vm) = setCache c (dropAlt vm)"
  by (simp_all add: SetStack_def appendScript_def GetStack_def dropAlt_def split: sum.splits)

lemma blind_CheckErrorCondition: "blind (CheckErrorCondition f)"
  by (rule blindI) (simp add: CheckErrorCondition_def blind_simps cong: if_cong)

lemma blind_verifyWitnessProgram: "blind (verifyWitnessProgram e w)"
  by (rule blindI) (simp add: verifyWitnessProgram_def loadWitnessProgram_def blind_simps bindE_if bindE_assoc cong: if_cong)

lemma blindD: "blind f \<Longrightarrow> f (setCache c vm) = map_sum id (setCache c) (f vm)"
  by (simp add: blind_def)

lemma blind_switchScript: "blind (switchScript e)"
proof (rule blindI)
  fix vm c
  have i: "scriptIdx (setCache c vm) = scriptIdx vm" "bip16 (setCache c vm) = bip16 vm"
    "witnessProgram (setCache c vm) = witnessProgram vm" "savedFirstStack (setCache c v) = savedFirstStack v" for v
    by simp_all
  show "switchScript e (setCache c vm) = map_sum id (setCache c) (switchScript e vm)"
    unfolding switchScript_def Let_def i setCache_updates setCache_moves setCache_reads
      blindD [OF blind_CheckErrorCondition] blindD [OF blind_verifyWitnessProgram] bindE_map_sum
      map_sum_if map_sum_bindE by auto
qed

lemma sim_nextScript:
  assumes "cacheOK e vm"
  shows "simP e (nextScript e vm) (nextScript e (setCache None vm))"
proof -
  let ?vm = "(dropAlt vm)\<lparr>numOps := 0, scriptOff := 0\<rparr>"
  have i: "condStack (setCache None vm) = condStack vm" by simp
  have "cacheOK e (dropAlt vm)" using assms by (simp add: dropAlt_def split: sum.splits)
  then have s: "sim e (switchScript e ?vm) (switchScript e (setCache None ?vm))"
    by (intro blind_sim blind_switchScript) simp
  show ?thesis
  proof (cases "switchScript e ?vm")
    case (Inl er)
    with s have "switchScript e (setCache None ?vm) = Inl er" by (simp add: sim_def)
    with Inl show ?thesis
      unfolding nextScript_def setCache_moves setCache_updates i by (simp add: simP_def)
  next
    case (Inr v)
    with s have "switchScript e (setCache None ?vm) = Inr (setCache None v)" "cacheOK e v" by (simp_all add: sim_def)
    with Inr show ?thesis
      unfolding nextScript_def setCache_moves setCache_updates i by (simp add: simP_def Let_def cacheOK_def)
  qed
qed

lemma sim_Step:
  assumes "env_ok e" "cacheOK e vm"
  shows "simP e (Step e vm) (Step e (setCache None vm))"
proof -
  have v: "validPC (setCache None vm) = validPC vm" by (simp add: validPC_def)
  have i: "scripts (setCache None u) = scripts u" "scriptIdx (setCache None u) = scriptIdx u" "scriptOff (setCache None u) = scriptOff u"
    "dstack (setCache None u) = dstack u" "astack (setCache None u) = astack u" for u
    by simp_all
  let ?vm = "vm\<lparr>scriptOff := scriptOff vm + 1\<rparr>"
  have x: "sim e (executeOpcode e pop ?vm) (executeOpcode e pop (setCache None ?vm))" for pop
    by (rule sim_executeOpcode [OF assms(1)]) (simp add: assms(2))
  have b: "simP e (bindE m f) (bindE m0 f0)"
    if "sim e m m0" "\<And>u. cacheOK e u \<Longrightarrow> simP e (f u) (f0 (setCache None u))" for m m0 f f0
    using that by (cases m) (auto simp: simP_def sim_def)
  show ?thesis unfolding Step_def v i setCache_updates
    by (intro simP_same b [OF x]) (simp only: i, intro simP_if sim_nextScript; simp add: simP_simps)
qed

lemma sim_Execute:
  assumes "env_ok e" "cacheOK e vm"
  shows "sim e (Execute e vm) (Execute e (setCache None vm))"
  using assms
proof (induction e vm rule: Execute.induct)
  case (1 e vm)
  note st = sim_Step [OF "1.prems"]
  show ?case
  proof (cases "Step e vm")
    case (Inl er)
    with st have "Step e (setCache None vm) = Inl er" by (simp add: simP_def)
    with Inl show ?thesis by (simp add: Execute.simps [of e vm] Execute.simps [of e "setCache None vm"] sim_Inl)
  next
    case (Inr p)
    obtain d vm' where p: "p = (d, vm')" by force
    with Inr st have s: "Step e (setCache None vm) = Inr (d, setCache None vm')" "cacheOK e vm'" by (simp_all add: simP_def)
    from "1.IH" [OF Inr p [symmetric]] "1.prems"(1) s p Inr blind_sim [OF blind_CheckErrorCondition s(2)] show ?thesis
      by (simp add: Execute.simps [of e vm] Execute.simps [of e "setCache None vm"])
  qed
qed

lemma blind_startEngine: "blind (startEngine a b w p q)"
proof (rule blindI)
  fix vm c
  have m: "setMinimalData (setCache c v) = setCache c (setMinimalData v)" for v by (simp add: setMinimalData_def)
  have f: "findWitnessProgram a b w (setCache c v) = findWitnessProgram a b w v" for v by (simp add: findWitnessProgram_def)
  have w: "setWitnessProgram a b w (setCache c v) = map_sum id (setCache c) (setWitnessProgram a b w v)" for v
    by (simp add: setWitnessProgram_def f blind_simps cong: if_cong option.case_cong split: option.splits)
       (cases "findWitnessProgram a b w v"; auto simp: blind_simps split: option.splits)
  have i: "scriptIdx (setCache c vm) = scriptIdx vm" by simp
  show "startEngine a b w p q (setCache c vm) = map_sum id (setCache c) (startEngine a b w p q vm)"
    unfolding startEngine_def Let_def i setCache_updates setCache_flags m w by auto
qed

lemma NewEngine_setCache:
  "NewEngine pk t i fl sc hc amount = map_sum id (setCache sc) (NewEngine pk t i fl None hc amount)"
proof -
  have n: "newEngineState fl sc hc amount t i = setCache sc (newEngineState fl None hc amount t i)"
    by (simp add: newEngineState_def)
  show ?thesis
    unfolding NewEngine_def Let_def n setCache_flags blindD [OF blind_startEngine] map_sum_if map_sum_bindE by simp
qed

text \<open>C14. The signature cache does not influence validation. With a cache that holds valid signatures only,
  as \<^verbatim>\<open>Add\<close> keeps it, creating and executing an engine gives the same error or the same final
  engine as without a cache, up to the cache itself.\<close>

theorem cache_transparent:
  assumes "env_ok e" "validCache e c"
  shows "map_sum id (setCache None) (bindE (NewEngine pk t i fl (Some c) hc amount) (Execute e)) =
    bindE (NewEngine pk t i fl None hc amount) (Execute e)"
proof (cases "NewEngine pk t i fl None hc amount")
  case (Inr vm)
  then have "sigCache vm = None" by (rule NewEngine_success)
  then have v: "setCache None (setCache (Some c) vm) = vm" by simp
  have "cacheOK e (setCache (Some c) vm)" using assms(2) by (simp add: cacheOK_def)
  from sim_Execute [OF assms(1) this] v Inr show ?thesis
    by (simp add: NewEngine_setCache [of pk t i fl "Some c"] sim_def)
qed (simp add: NewEngine_setCache [of pk t i fl "Some c"])

definition sampleCache :: SigCache where
  "sampleCache = \<lparr>validSigs = [(replicate 32 0, (3, 4), (1, 2))], maxEntries = 1\<rparr>"

theorem cache_transparent_witness:
  "env_ok sampleEnv \<and> validCache sampleEnv sampleCache \<and>
   map_sum id (setCache None) (bindE (NewEngine [0xac] sample_tx 0 0 (Some sampleCache) None 0) (Execute sampleEnv)) =
   bindE (NewEngine [0xac] sample_tx 0 0 None None 0) (Execute sampleEnv)"
proof -
  have "validCache sampleEnv sampleCache" by (simp add: validCache_def sampleCache_def sampleEnv_def)
  with cache_transparent [OF sampleEnv_ok] sampleEnv_ok show ?thesis by blast
qed

lemma length_mapDelete:
  "distinct (map fst xs) \<Longrightarrow> k \<in> fst ` set xs \<Longrightarrow> Suc (length (mapDelete k xs)) = length xs"
proof (induction xs)
  case (Cons x xs)
  have "k \<notin> fst ` set ys \<Longrightarrow> mapDelete k ys = ys" for ys :: "('a \<times> 'b) list"
    by (induction ys) (auto simp: mapDelete_def)
  with Cons show ?case by (cases "fst x = k") (auto simp: mapDelete_def)
qed simp

lemma map_of_mapDelete: "map_of (mapDelete k xs) k' = (if k' = k then None else map_of xs k')"
  by (induction xs) (auto simp: mapDelete_def)

lemma mapDelete_less: "length (mapDelete k xs) \<le> length xs" "distinct (map fst xs) \<Longrightarrow> distinct (map fst (mapDelete k xs))"
    "k \<notin> fst ` set (mapDelete k xs)"
  by (auto simp: mapDelete_def distinct_map_filter)

text \<open>The cache keeps its bound and its keys distinct, remembers the entry just added, and never
  invents one: what it answers for another digest it answered before.\<close>

theorem sigcache_add:
  assumes "distinct (map fst (validSigs c))" "length (validSigs c) \<le> maxEntries c"
  shows "distinct (map fst (validSigs (AddSig e c h sg pk))) \<and>
    length (validSigs (AddSig e c h sg pk)) \<le> maxEntries (AddSig e c h sg pk) \<and>
    (0 < maxEntries c \<longrightarrow> Exists (AddSig e c h sg pk) h sg pk) \<and>
    (h' \<noteq> h \<longrightarrow> Exists (AddSig e c h sg pk) h' sg' pk' \<longrightarrow> Exists c h' sg' pk')"
proof (cases "maxEntries c = 0")
  case False
  define xs where "xs = (if length (validSigs c) + 1 > maxEntries c \<and> validSigs c \<noteq> []
    then mapDelete (fst (validSigs c ! (mapStart e (length (validSigs c)) mod length (validSigs c)))) (validSigs c)
    else validSigs c)"
  have a: "AddSig e c h sg pk = c\<lparr>validSigs := (h, sg, pk) # mapDelete h xs\<rparr>"
    using False by (simp add: AddSig_def Let_def xs_def)
  have d: "distinct (map fst xs)" using assms(1) by (simp add: xs_def mapDelete_less)
  have m: "map_of xs k = Some v \<Longrightarrow> map_of (validSigs c) k = Some v" for k v
    by (simp add: xs_def map_of_mapDelete split: if_splits)
  have "length xs + 1 \<le> maxEntries c"
  proof (cases "length (validSigs c) + 1 > maxEntries c")
    case True
    with assms(2) False have n: "validSigs c \<noteq> []" "length (validSigs c) = maxEntries c" by auto
    let ?k = "mapStart e (length (validSigs c)) mod length (validSigs c)"
    have "validSigs c ! ?k \<in> set (validSigs c)" using n(1) by simp
    then have "fst (validSigs c ! ?k) \<in> fst ` set (validSigs c)" by (rule imageI)
    from length_mapDelete [OF assms(1) this] n True show ?thesis by (simp add: xs_def)
  qed (simp add: xs_def)
  then have "length ((h, sg, pk) # mapDelete h xs) \<le> maxEntries c" using mapDelete_less(1) [of h xs] by simp
  moreover have "distinct (map fst ((h, sg, pk) # mapDelete h xs))"
    using mapDelete_less(2) [OF d, of h] mapDelete_less(3) [of h xs] by simp
  moreover have "h' \<noteq> h \<Longrightarrow> Exists (AddSig e c h sg pk) h' sg' pk' \<Longrightarrow> Exists c h' sg' pk'"
    using m by (auto simp: a Exists_def map_of_mapDelete split: option.splits)
  ultimately show ?thesis unfolding a by (simp add: Exists_def)
qed (use assms in \<open>simp add: AddSig_def\<close>)

theorem sigcache_add_witness:
  "distinct (map fst (validSigs sampleCache)) \<and> length (validSigs sampleCache) \<le> maxEntries sampleCache \<and>
   Exists (AddSig sampleEnv sampleCache [7] (5, 6) (1, 2)) [7] (5, 6) (1, 2)"
  using sigcache_add [of sampleCache sampleEnv "[7]" "(5, 6)" "(1, 2)"] by (simp add: sampleCache_def)

end
