(* ===== verification/Radix.thy ===== *)
theory Radix
  imports Prelude
begin

text \<open>
  Positional numerals: the digits of a natural number in some base, least significant digit
  first, and their value. \<^verbatim>\<open>big.Int.Bytes\<close> and \<^verbatim>\<open>big.Int.SetBytes\<close> of Go's \<^verbatim>\<open>math/big\<close> are the
  base-256 instance. The key lemma is that digits without a leading zero are determined by their
  value.
\<close>

section \<open>Digits and values\<close>

fun valLE :: "nat \<Rightarrow> nat list \<Rightarrow> nat" where
  "valLE b [] = 0"
| "valLE b (d # ds) = d + b * valLE b ds"

fun digitsLE :: "nat \<Rightarrow> nat \<Rightarrow> nat list" where
  "digitsLE b n = (if n = 0 \<or> b < 2 then [] else n mod b # digitsLE b (n div b))"

declare digitsLE.simps [simp del]

lemma digitsLE_0 [simp]: "digitsLE b 0 = []"
  by (simp add: digitsLE.simps)

lemma valLE_digitsLE: "2 \<le> b \<Longrightarrow> valLE b (digitsLE b n) = n"
proof (induction b n rule: digitsLE.induct)
  case (1 b n)
  then show ?case by (cases "n = 0") (simp_all add: digitsLE.simps [of b n])
qed

lemma digitsLE_less: "d \<in> set (digitsLE b n) \<Longrightarrow> d < b"
proof (induction b n rule: digitsLE.induct)
  case (1 b n)
  then show ?case by (cases "n = 0 \<or> b < 2") (auto simp: digitsLE.simps [of b n])
qed

lemma valLE_append: "valLE b (xs @ ys) = valLE b xs + b ^ length xs * valLE b ys"
  by (induction xs) (simp_all add: algebra_simps)

lemma valLE_less: "list_all (\<lambda>d. d < b) ds \<Longrightarrow> valLE b ds < b ^ length ds"
proof (induction ds)
  case (Cons d ds)
  then have "valLE b ds + 1 \<le> b ^ length ds" "d < b" by auto
  then have "b * (valLE b ds + 1) \<le> b * b ^ length ds" by (simp only: mult_le_mono2)
  with \<open>d < b\<close> show ?case by simp
qed simp

lemma valLE_eq_0: "valLE b ds = 0 \<Longrightarrow> 0 < b \<Longrightarrow> list_all (\<lambda>d. d = 0) ds"
  by (induction ds) auto

text \<open>A list of digits whose most significant one is not zero.\<close>

definition canonical :: "nat list \<Rightarrow> bool" where
  "canonical ds \<longleftrightarrow> ds = [] \<or> last ds \<noteq> 0"

lemma canonical_digitsLE: "canonical (digitsLE b n)"
proof (induction b n rule: digitsLE.induct)
  case (1 b n)
  show ?case
  proof (cases "n = 0 \<or> b < 2")
    case False
    then have "canonical (digitsLE b (n div b))" by (rule "1.IH")
    moreover have "n mod b \<noteq> 0" if "digitsLE b (n div b) = []"
    proof -
      have "n div b = 0" using that False by (auto simp: digitsLE.simps [of b "n div b"] split: if_splits)
      then have "n < b" using False by (simp add: div_eq_0_iff)
      with False show ?thesis by simp
    qed
    ultimately show ?thesis using False
      by (cases "digitsLE b (n div b) = []") (auto simp: digitsLE.simps [of b n] canonical_def)
  qed (simp add: digitsLE.simps [of b n] canonical_def)
qed

lemma digitsLE_valLE:
  "2 \<le> b \<Longrightarrow> list_all (\<lambda>d. d < b) ds \<Longrightarrow> canonical ds \<Longrightarrow> digitsLE b (valLE b ds) = ds"
proof (induction ds)
  case (Cons d ds)
  then have d: "d < b" and c: "canonical ds" by (auto simp: canonical_def split: if_splits)
  have "d + b * valLE b ds \<noteq> 0"
  proof
    assume "d + b * valLE b ds = 0"
    then have "list_all (\<lambda>d. d = 0) (d # ds)" using Cons.prems(1) valLE_eq_0 [of b "d # ds"] by simp
    then have "last (d # ds) = 0" using last_in_set [of "d # ds"] by (auto simp: list_all_iff)
    with Cons.prems(3) show False by (simp add: canonical_def)
  qed
  moreover have "(d + b * valLE b ds) div b = valLE b ds" "(d + b * valLE b ds) mod b = d" using d Cons.prems(1) by auto
  ultimately show ?case using Cons.prems Cons.IH c by (simp add: digitsLE.simps [of b "d + b * valLE b ds"])
qed (simp add: digitsLE.simps)

lemma length_digitsLE_le:
  assumes "2 \<le> b" "n < b ^ k"
  shows "length (digitsLE b n) \<le> k"
proof (rule ccontr)
  assume l: "\<not> length (digitsLE b n) \<le> k"
  obtain ds d where ds: "digitsLE b n = ds @ [d]" using l by (cases "digitsLE b n" rule: rev_cases) auto
  have "d \<noteq> 0" using canonical_digitsLE [of b n] by (simp add: ds canonical_def)
  have "b ^ k \<le> b ^ length ds" using l assms(1) by (simp add: ds power_increasing)
  also have "\<dots> \<le> b ^ length ds * d" using \<open>d \<noteq> 0\<close> by simp
  also have "\<dots> \<le> valLE b (digitsLE b n)" by (simp add: ds valLE_append)
  also have "\<dots> = n" by (rule valLE_digitsLE [OF assms(1)])
  finally show False using assms(2) by simp
qed

lemma length_digitsLE:
  assumes "2 \<le> b" "b ^ k \<le> n" "n < b ^ Suc k"
  shows "length (digitsLE b n) = Suc k"
proof -
  have "n < b ^ length (digitsLE b n)"
    using valLE_less [of b "digitsLE b n"] digitsLE_less [of _ b n] valLE_digitsLE [OF assms(1)] by (simp add: list_all_iff)
  then have "b ^ k < b ^ length (digitsLE b n)" using assms(2) by simp
  then have "k < length (digitsLE b n)" using assms(1) by (simp add: power_strict_increasing_iff)
  with length_digitsLE_le [OF assms(1,3)] show ?thesis by simp
qed

section \<open>Big integers and bytes\<close>

text \<open>\<^verbatim>\<open>big.Int.Bytes\<close>: the absolute value, big-endian, without leading zeros.\<close>

definition bigBytes :: "int \<Rightarrow> bytes" where
  "bigBytes n = rev (map of_nat (digitsLE 256 (nat \<bar>n\<bar>)))"

text \<open>\<^verbatim>\<open>big.Int.SetBytes\<close>.\<close>

definition bigSetBytes :: "bytes \<Rightarrow> int" where
  "bigSetBytes bs = int (valLE 256 (map unat (rev bs)))"

lemma bigSetBytes_nonneg [simp]: "0 \<le> bigSetBytes bs"
  by (simp add: bigSetBytes_def)

lemma unat_u8_bound: "unat (b :: u8) < 256"
  using unsigned_less [of b] by simp

lemma valLE_zeros: "valLE b (ds @ replicate k 0) = valLE b ds"
proof -
  have "valLE b (replicate k 0) = 0" by (induction k) simp_all
  then show ?thesis by (simp add: valLE_append)
qed

text \<open>The bytes of the number that a byte string denotes are the string without its leading zeros.\<close>

lemma dropWhile_zeros: "replicate (length (takeWhile (\<lambda>b. b = 0) bs)) 0 @ dropWhile (\<lambda>b. b = 0) bs = bs"
  by (induction bs) auto

lemma bigBytes_bigSetBytes: "bigBytes (bigSetBytes bs) = dropWhile (\<lambda>b. b = 0) bs"
proof -
  define cs k where "cs = dropWhile (\<lambda>b. b = 0) bs" and "k = length (takeWhile (\<lambda>b. b = 0) bs)"
  have bs: "bs = replicate k 0 @ cs" by (simp add: cs_def k_def dropWhile_zeros)
  have "canonical (map unat (rev cs))"
  proof (cases cs)
    case (Cons c cs')
    then have "c \<noteq> 0" using hd_dropWhile [of "\<lambda>b. b = 0" bs] by (simp add: cs_def)
    then show ?thesis by (simp add: Cons canonical_def unsigned_eq_0_iff)
  qed (simp add: canonical_def)
  moreover have "list_all (\<lambda>d. d < 256) (map unat (rev cs))" by (simp add: list_all_iff unat_u8_bound)
  ultimately have "digitsLE 256 (valLE 256 (map unat (rev cs))) = map unat (rev cs)"
    by (intro digitsLE_valLE) simp_all
  moreover have "bigSetBytes bs = int (valLE 256 (map unat (rev cs)))"
    by (subst bs) (simp add: bigSetBytes_def valLE_zeros)
  ultimately show ?thesis by (simp add: bigBytes_def rev_map o_def flip: cs_def)
qed

lemma bigSetBytes_bigBytes: "0 \<le> n \<Longrightarrow> bigSetBytes (bigBytes n) = n"
proof -
  assume n: "0 \<le> n"
  have "map unat (map (of_nat :: nat \<Rightarrow> u8) (digitsLE 256 k)) = digitsLE 256 k" for k
    using digitsLE_less [of _ 256 k] by (auto simp: map_idI unat_of_nat)
  then have "valLE 256 (map unat (map (of_nat :: nat \<Rightarrow> u8) (digitsLE 256 (nat n)))) = nat n"
    by (simp only: valLE_digitsLE)
  with n show ?thesis by (simp add: bigSetBytes_def bigBytes_def rev_map o_def)
qed

lemma length_bigBytes: "0 \<le> n \<Longrightarrow> n < 256 ^ k \<Longrightarrow> length (bigBytes n) \<le> k"
proof -
  assume "0 \<le> n" "n < 256 ^ k"
  then have "nat \<bar>n\<bar> < 256 ^ k" by (simp add: nat_less_iff)
  then show ?thesis by (simp add: bigBytes_def length_digitsLE_le)
qed

end
