(* ===== verification/Compress.thy ===== *)
theory Compress
  imports EngineState Radix
begin

text \<open>
  The database encodings of \<^verbatim>\<open>node/chaindata/compress.go\<close>: variable length quantities, the
  compression of public key scripts and amounts, and compressed transaction outputs. A function
  that fills a target slice returns the bytes it writes. Slices of a compressed script beyond its
  length are panics. The lemmas show that decoding inverts encoding and that the announced sizes
  are exact.
\<close>

section \<open>Variable length quantities\<close>

function sizeVLQ_loop :: "u64 \<Rightarrow> nat \<Rightarrow> nat" where
  "sizeVLQ_loop n sz = (if n > 0x7f then sizeVLQ_loop (drop_bit 7 n - 1) (sz + 1) else sz)"
  by pat_completeness auto

lemma vlq_decreases: "(n :: u64) > 0x7f \<Longrightarrow> unat (drop_bit 7 n - 1) < unat n"
proof -
  assume n: "n > 0x7f"
  have d: "unat (drop_bit 7 n) = unat n div 128" by (simp only: unat_drop_bit_eq) (simp add: drop_bit_eq_div)
  have u: "unat n > 127" using n by (simp add: word_less_nat_alt)
  then have "unat n div 128 \<ge> 1" by (simp add: Suc_leI)
  then have "drop_bit 7 n \<noteq> 0" using d by auto
  then have "unat (drop_bit 7 n - 1) = unat n div 128 - 1" using d by (simp add: unat_minus_one)
  with u show ?thesis by (simp add: div_le_dividend le_less_trans less_imp_diff_less)
qed

termination sizeVLQ_loop
  by (relation "measure (\<lambda>(n, sz). unat n)") (auto simp: vlq_decreases)

declare sizeVLQ_loop.simps [simp del]

definition serializeSizeVLQ :: "u64 \<Rightarrow> nat" where
  "serializeSizeVLQ n = sizeVLQ_loop n 1"

text \<open>The bytes in the order in which the loop of \<^verbatim>\<open>putVLQ\<close> writes them, the last one first.\<close>

function putVLQ_loop :: "bool \<Rightarrow> u64 \<Rightarrow> bytes" where
  "putVLQ_loop isFirst n =
     (let b = ucast (n AND 0x7f) OR (if isFirst then 0x00 else 0x80)
      in if n \<le> 0x7f then [b] else b # putVLQ_loop False (drop_bit 7 n - 1))"
  by pat_completeness auto

termination
  by (relation "measure (\<lambda>(b, n). unat n)") (auto simp: vlq_decreases not_le)

declare putVLQ_loop.simps [simp del]

definition putVLQ :: "u64 \<Rightarrow> bytes" where
  "putVLQ n = rev (putVLQ_loop True n)"

fun deserializeVLQ_loop :: "bytes \<Rightarrow> u64 \<Rightarrow> nat \<Rightarrow> u64 \<times> nat" where
  "deserializeVLQ_loop [] n sz = (n, sz)"
| "deserializeVLQ_loop (v # vs) n sz =
     (let n = push_bit 7 n OR ucast (v AND 0x7f)
      in if v AND 0x80 \<noteq> 0x80 then (n, sz + 1) else deserializeVLQ_loop vs (n + 1) (sz + 1))"

definition deserializeVLQ :: "bytes \<Rightarrow> u64 \<times> nat" where
  "deserializeVLQ serialized = deserializeVLQ_loop serialized 0 0"

section \<open>Round trip\<close>

lemma bits_7f: "bit (0x7f :: int) k \<longleftrightarrow> k < 7"
proof -
  have "bit (mask 7 :: int) k \<longleftrightarrow> k < 7" by (simp only: bit_mask_iff) simp
  then show ?thesis by (simp add: mask_eq_exp_minus_1)
qed

lemma bits_80: "bit (0x80 :: int) k \<longleftrightarrow> k = 7"
proof -
  have "bit (2 ^ 7 :: int) k \<longleftrightarrow> k = 7" by (simp only: bit_exp_iff) auto
  then show ?thesis by simp
qed

lemma vlq_byte:
  fixes n :: u64
  shows "(ucast (n AND 0x7f) OR 0x80 :: u8) AND 0x80 = 0x80" "(ucast (n AND 0x7f) :: u8) AND 0x80 = 0"
    "ucast ((ucast (n AND 0x7f) OR 0x80 :: u8) AND 0x7f) = n AND 0x7f"
    "ucast ((ucast (n AND 0x7f) :: u8) AND 0x7f) = n AND 0x7f"
  by (rule bit_word_eqI; auto simp: bit_simps bits_7f bits_80)+

lemma vlq_join: "push_bit 7 (drop_bit 7 n) OR (n AND 0x7f) = (n :: u64)"
  by (rule bit_word_eqI) (auto simp: bit_simps bits_7f)

lemma vlq_small: "n \<le> 0x7f \<Longrightarrow> n AND 0x7f = (n :: u64)"
proof -
  assume "n \<le> 0x7f"
  then have "unat n < 2 ^ 7" by (simp add: word_le_nat_alt)
  then have "take_bit 7 n = n" by (simp add: word_unat_eq_iff unsigned_take_bit_eq take_bit_nat_eq_self)
  moreover have "n AND 0x7f = take_bit 7 n" by (rule bit_word_eqI) (auto simp: bit_simps bits_7f)
  ultimately show ?thesis by simp
qed

lemma vlq_continue:
  "deserializeVLQ_loop (rev (putVLQ_loop False m) @ rest) 0 k =
     deserializeVLQ_loop rest (m + 1) (k + length (putVLQ_loop False m))"
proof (induction "unat m" arbitrary: m rest rule: less_induct)
  case less
  show ?case
  proof (cases "m \<le> 0x7f")
    case True
    with vlq_byte [of m] show ?thesis by (simp add: putVLQ_loop.simps [of False m] Let_def vlq_small)
  next
    case False
    with less.hyps [OF vlq_decreases [of m]] show ?thesis
      by (simp add: putVLQ_loop.simps [of False m] Let_def vlq_byte vlq_join)
  qed
qed

lemma VLQ_roundtrip: "deserializeVLQ (putVLQ n @ rest) = (n, length (putVLQ n))"
proof (cases "n \<le> 0x7f")
  case True
  with vlq_byte [of n] show ?thesis by (simp add: deserializeVLQ_def putVLQ_def putVLQ_loop.simps [of True n] Let_def vlq_small)
next
  case False
  then show ?thesis
    by (simp add: deserializeVLQ_def putVLQ_def putVLQ_loop.simps [of True n] Let_def vlq_byte vlq_continue vlq_join)
qed

lemma sizeVLQ_loop_length: "Suc (sizeVLQ_loop n k) = k + length (putVLQ_loop b n)"
proof (induction "unat n" arbitrary: n k b rule: less_induct)
  case less
  show ?case
  proof (cases "n \<le> 0x7f")
    case True
    then show ?thesis by (simp add: sizeVLQ_loop.simps [of n] putVLQ_loop.simps [of b n] Let_def not_less [symmetric])
  next
    case False
    have p: "length (putVLQ_loop b n) = Suc (length (putVLQ_loop False (drop_bit 7 n - 1)))"
      by (subst putVLQ_loop.simps) (simp add: Let_def False)
    have "sizeVLQ_loop n k = sizeVLQ_loop (drop_bit 7 n - 1) (Suc k)"
      by (subst sizeVLQ_loop.simps) (use False in \<open>simp add: not_le\<close>)
    with less [OF vlq_decreases [of n], of "Suc k" False] False p show ?thesis by simp
  qed
qed

lemma VLQ_size: "serializeSizeVLQ n = length (putVLQ n)"
  using sizeVLQ_loop_length [of n 1 True] by (simp add: serializeSizeVLQ_def putVLQ_def)

section \<open>Script compression\<close>

definition paddedAppend :: "nat \<Rightarrow> bytes \<Rightarrow> bytes \<Rightarrow> bytes" where
  "paddedAppend sz dst src = dst @ replicate (sz - length src) 0 @ src"

definition SerializeUncompressed :: "pubkey \<Rightarrow> bytes" where
  "SerializeUncompressed p = (case p of (x, y) \<Rightarrow> paddedAppend 32 (paddedAppend 32 [0x04] (bigBytes x)) (bigBytes y))"

abbreviation (input) OP_DATA_33 :: u8 where "OP_DATA_33 \<equiv> 0x21"
abbreviation (input) OP_DATA_65 :: u8 where "OP_DATA_65 \<equiv> 0x41"
abbreviation (input) cstPayToPubKeyHash :: u64 where "cstPayToPubKeyHash \<equiv> 0"
abbreviation (input) cstPayToScriptHash :: u64 where "cstPayToScriptHash \<equiv> 1"
abbreviation (input) cstPayToPubKeyComp2 :: u64 where "cstPayToPubKeyComp2 \<equiv> 2"
abbreviation (input) cstPayToPubKeyComp3 :: u64 where "cstPayToPubKeyComp3 \<equiv> 3"
abbreviation (input) cstPayToPubKeyUncomp4 :: u64 where "cstPayToPubKeyUncomp4 \<equiv> 4"
abbreviation (input) cstPayToPubKeyUncomp5 :: u64 where "cstPayToPubKeyUncomp5 \<equiv> 5"
abbreviation (input) numSpecialScripts :: u64 where "numSpecialScripts \<equiv> 6"

text \<open>The recognisers return the payload of a script they match. The names of those that the
  package \<^verbatim>\<open>txscript\<close> has too carry a suffix.\<close>

definition isPubKeyHash_db :: "bytes \<Rightarrow> bytes option" where
  "isPubKeyHash_db script =
     (if length script = 25 \<and> script ! 0 = OP_DUP \<and> script ! 1 = OP_HASH160 \<and> script ! 2 = OP_DATA_20 \<and>
         script ! 23 = OP_EQUALVERIFY \<and> script ! 24 = OP_CHECKSIG
      then Some (take 20 (drop 3 script)) else None)"

definition isScriptHash_db :: "bytes \<Rightarrow> bytes option" where
  "isScriptHash_db script =
     (if length script = 23 \<and> script ! 0 = OP_HASH160 \<and> script ! 1 = OP_DATA_20 \<and> script ! 22 = OP_EQUAL
      then Some (take 20 (drop 2 script)) else None)"

definition isPubKey_db :: "env \<Rightarrow> bytes \<Rightarrow> bytes option" where
  "isPubKey_db e script =
     (if length script = 35 \<and> script ! 0 = OP_DATA_33 \<and> script ! 34 = OP_CHECKSIG \<and>
         (script ! 1 = 0x02 \<or> script ! 1 = 0x03) \<and> ParsePubKey e (take 33 (drop 1 script)) \<noteq> None
      then Some (take 33 (drop 1 script))
      else if length script = 67 \<and> script ! 0 = OP_DATA_65 \<and> script ! 66 = OP_CHECKSIG \<and> script ! 1 = 0x04 \<and>
         ParsePubKey e (take 65 (drop 1 script)) \<noteq> None
      then Some (take 65 (drop 1 script))
      else None)"

definition compressedScriptSize :: "env \<Rightarrow> bytes \<Rightarrow> nat" where
  "compressedScriptSize e pkScript =
     (if isPubKeyHash_db pkScript \<noteq> None then 21
      else if isScriptHash_db pkScript \<noteq> None then 21
      else if isPubKey_db e pkScript \<noteq> None then 33
      else serializeSizeVLQ (of_nat (length pkScript) + numSpecialScripts) + length pkScript)"

text \<open>The result is a Go \<^verbatim>\<open>int\<close>, negative for sizes beyond \<open>2\<^sup>63\<close>.\<close>

definition decodeCompressedScriptSize :: "bytes \<Rightarrow> int" where
  "decodeCompressedScriptSize serialized =
     (case deserializeVLQ serialized of (scriptSize, bytesRead) \<Rightarrow>
        if bytesRead = 0 then 0
        else if scriptSize = cstPayToPubKeyHash then 21
        else if scriptSize = cstPayToScriptHash then 21
        else if scriptSize = cstPayToPubKeyComp2 \<or> scriptSize = cstPayToPubKeyComp3 \<or>
                scriptSize = cstPayToPubKeyUncomp4 \<or> scriptSize = cstPayToPubKeyUncomp5 then 33
        else sint (scriptSize - numSpecialScripts + of_nat bytesRead))"

definition putCompressedScript :: "env \<Rightarrow> bytes \<Rightarrow> bytes" where
  "putCompressedScript e pkScript =
     (let general = putVLQ (of_nat (length pkScript) + numSpecialScripts) @ pkScript
      in case isPubKeyHash_db pkScript of
        Some hash \<Rightarrow> ucast cstPayToPubKeyHash # hash
      | None \<Rightarrow>
      (case isScriptHash_db pkScript of
        Some hash \<Rightarrow> ucast cstPayToScriptHash # hash
      | None \<Rightarrow>
      (case isPubKey_db e pkScript of
        Some key \<Rightarrow>
          if key ! 0 = 0x02 \<or> key ! 0 = 0x03 then key ! 0 # take 32 (drop 1 key)
          else if key ! 0 = 0x04 then (key ! 0 OR (key ! 64 AND 0x01)) # take 32 (drop 1 key)
          else general
      | None \<Rightarrow> general)))"

datatype db_err = ErrDeserialize

type_synonym 'a db_result = "db_err failure + 'a"

text \<open>The slice \<^verbatim>\<open>s[from:from+n]\<close>.\<close>

definition sliceE :: "bytes \<Rightarrow> nat \<Rightarrow> nat \<Rightarrow> bytes db_result" where
  "sliceE s from n = (if from + n \<le> length s then Inr (take n (drop from s)) else Inl Panic)"

definition decompressScript :: "env \<Rightarrow> bytes \<Rightarrow> bytes db_result" where
  "decompressScript e s =
     (if length s = 0 then Inr []
      else case deserializeVLQ s of (encodedScriptSize, bytesRead) \<Rightarrow>
        if encodedScriptSize = cstPayToPubKeyHash then
          bindE (sliceE s bytesRead 20) (\<lambda>h. Inr ([OP_DUP, OP_HASH160, OP_DATA_20] @ h @ [OP_EQUALVERIFY, OP_CHECKSIG]))
        else if encodedScriptSize = cstPayToScriptHash then
          bindE (sliceE s bytesRead 20) (\<lambda>h. Inr ([OP_HASH160, OP_DATA_20] @ h @ [OP_EQUAL]))
        else if encodedScriptSize = cstPayToPubKeyComp2 \<or> encodedScriptSize = cstPayToPubKeyComp3 then
          bindE (sliceE s bytesRead 32) (\<lambda>x. Inr ([OP_DATA_33, ucast encodedScriptSize] @ x @ [OP_CHECKSIG]))
        else if encodedScriptSize = cstPayToPubKeyUncomp4 \<or> encodedScriptSize = cstPayToPubKeyUncomp5 then
          (case ParsePubKey e (take 33 (ucast (encodedScriptSize - 2) # drop 1 s @ replicate 32 0)) of
             None \<Rightarrow> Inr []
           | Some key \<Rightarrow> Inr (OP_DATA_65 # take 65 (SerializeUncompressed key @ replicate 65 0) @ [OP_CHECKSIG]))
        else
          let scriptSize = sint (encodedScriptSize - numSpecialScripts)
          in if scriptSize < 0 then Inl Panic else sliceE s bytesRead (nat scriptSize))"

section \<open>Amount compression\<close>

text \<open>The loop that strips factors of ten, and the one that puts them back.\<close>

function stripZeros :: "u64 \<Rightarrow> u64 \<Rightarrow> u64 \<times> u64" where
  "stripZeros amount exponent =
     (if amount mod 10 = 0 \<and> exponent < 9 then stripZeros (amount div 10) (exponent + 1) else (amount, exponent))"
  by pat_completeness auto

termination
proof (relation "measure (\<lambda>(a, k). 9 - unat k)")
  fix amount exponent :: u64
  assume "amount mod 10 = 0 \<and> exponent < 9"
  then have "unat exponent < 9" by (simp add: word_less_nat_alt)
  then have "unat (exponent + 1) = unat exponent + 1" by (simp add: unat_word_ariths)
  with \<open>unat exponent < 9\<close> show "((amount div 10, exponent + 1), amount, exponent) \<in> measure (\<lambda>(a, k). 9 - unat k)"
    by simp
qed simp

declare stripZeros.simps [simp del]

definition compressTxOutAmount :: "u64 \<Rightarrow> u64" where
  "compressTxOutAmount amount =
     (if amount = 0 then 0
      else case stripZeros amount 0 of (amount, exponent) \<Rightarrow>
        if exponent < 9 then
          let lastDigit = amount mod 10; amount = amount div 10
          in 1 + 10 * (9 * amount + lastDigit - 1) + exponent
        else 10 + 10 * (amount - 1))"

definition decompressTxOutAmount :: "u64 \<Rightarrow> u64" where
  "decompressTxOutAmount amount =
     (if amount = 0 then 0
      else
        let amount = amount - 1; exponent = amount mod 10; amount = amount div 10;
            n = (if exponent < 9 then amount div 9 * 10 + (amount mod 9 + 1) else amount + 1)
        in ((\<lambda>n. n * 10) ^^ unat exponent) n)"

section \<open>Compressed outputs\<close>

definition compressedTxOutSize :: "env \<Rightarrow> u64 \<Rightarrow> bytes \<Rightarrow> nat" where
  "compressedTxOutSize e amount pkScript = serializeSizeVLQ (compressTxOutAmount amount) + compressedScriptSize e pkScript"

definition putCompressedTxOut :: "env \<Rightarrow> u64 \<Rightarrow> bytes \<Rightarrow> bytes" where
  "putCompressedTxOut e amount pkScript = putVLQ (compressTxOutAmount amount) @ putCompressedScript e pkScript"

definition decodeCompressedTxOut :: "env \<Rightarrow> bytes \<Rightarrow> (u64 \<times> bytes \<times> nat) db_result" where
  "decodeCompressedTxOut e serialized =
     (case deserializeVLQ serialized of (compressedAmount, bytesRead) \<Rightarrow>
        if bytesRead \<ge> length serialized then Inl (Err ErrDeserialize)
        else
          let scriptSize = decodeCompressedScriptSize (drop bytesRead serialized)
          in if int (length (drop bytesRead serialized)) < scriptSize then Inl (Err ErrDeserialize)
             else if scriptSize < 0 then Inl Panic
             else bindE (decompressScript e (take (nat scriptSize) (drop bytesRead serialized))) (\<lambda>script.
               Inr (decompressTxOutAmount compressedAmount, script, bytesRead + nat scriptSize)))"

section \<open>Amounts survive compression\<close>

lemma stripZeros_spec:
  assumes "stripZeros a k = (a', k')" "unat k \<le> 9"
  shows "unat a = unat a' * 10 ^ (unat k' - unat k) \<and> unat k \<le> unat k' \<and> unat k' \<le> 9 \<and> (unat k' < 9 \<longrightarrow> unat a' mod 10 \<noteq> 0)"
  using assms
proof (induction a k rule: stripZeros.induct)
  case (1 a k)
  show ?case
  proof (cases "a mod 10 = 0 \<and> k < 9")
    case True
    then have k: "unat k < 9" by (simp add: word_less_nat_alt)
    then have s: "unat (k + 1) = Suc (unat k)" by (simp add: unat_word_ariths)
    have "unat (a mod 10) = 0" using True by simp
    then have d: "unat a = unat (a div 10) * 10" by (simp add: unat_mod unat_div mod_eq_0_iff_dvd)
    from 1(1) [OF True] 1(2) True s k
    have IH: "unat (a div 10) = unat a' * 10 ^ (unat k' - Suc (unat k))" "Suc (unat k) \<le> unat k'" "unat k' \<le> 9"
      "unat k' < 9 \<longrightarrow> unat a' mod 10 \<noteq> 0"
      by (simp_all add: stripZeros.simps [of a k])
    have "unat a' * 10 ^ (unat k' - Suc (unat k)) * 10 = unat a' * 10 ^ (unat k' - unat k)"
      using IH(2) by (simp flip: power_Suc2 add: mult.assoc Suc_diff_Suc)
    with d IH show ?thesis by simp
  next
    case False
    then have "a' = a" "k' = k" using 1(2) by (auto simp: stripZeros.simps [of a k])
    moreover have "unat k < 9 \<Longrightarrow> unat a mod 10 \<noteq> 0"
    proof
      assume "unat k < 9" "unat a mod 10 = 0"
      then have "unat (a mod 10) = 0" "k < 9" by (simp_all add: unat_mod word_less_nat_alt)
      with False show False by (simp add: unat_eq_zero)
    qed
    ultimately show ?thesis using 1(3) by simp
  qed
qed

lemma times_ten: "((\<lambda>n :: u64. n * 10) ^^ k) n = n * 10 ^ k"
  by (induction k) (simp_all add: mult.assoc mult.commute)

lemma unat_compress:
  assumes "unat a \<noteq> 0" "unat a \<le> 2 * 10 ^ 18" "stripZeros a 0 = (a', k)"
  shows "unat (compressTxOutAmount a) =
    (if unat k < 9 then 1 + 10 * (9 * (unat a' div 10) + unat a' mod 10 - 1) + unat k else 10 * unat a')"
proof -
  from stripZeros_spec [OF assms(3)] have s: "unat a = unat a' * 10 ^ unat k" "unat k \<le> 9" "unat k < 9 \<longrightarrow> unat a' mod 10 \<noteq> 0"
    by simp_all
  then have le: "unat a' \<le> unat a" "unat a' \<noteq> 0" using assms(1) by auto
  have k: "k < 9 \<longleftrightarrow> unat k < 9" by (simp add: word_less_nat_alt)
  have a: "a \<noteq> 0" using assms(1) by auto
  have q: "a' div 10 = of_nat (unat a' div 10)" "a' mod 10 = of_nat (unat a' mod 10)" "a' = of_nat (unat a')" "k = of_nat (unat k)"
    by (simp_all add: unat_div [of a' 10, simplified, symmetric] unat_mod [of a' 10, simplified, symmetric])
  show ?thesis
  proof (cases "unat k < 9")
    case True
    with s have d: "1 \<le> unat a' mod 10" by auto
    define C where "C = 1 + 10 * (9 * (unat a' div 10) + unat a' mod 10 - 1) + unat k"
    have c: "compressTxOutAmount a = of_nat C"
      using True a k assms(3) d q by (simp add: C_def compressTxOutAmount_def of_nat_diff)
    have "unat a' div 10 \<le> 2 * 10 ^ 17" "unat a' mod 10 < 10" using le assms(2) by simp_all
    then have "C < 2 ^ 64" unfolding C_def using True by simp
    then have "unat (compressTxOutAmount a) = C" unfolding c by (simp add: unat_of_nat)
    with True show ?thesis by (simp add: C_def)
  next
    case False
    have c: "compressTxOutAmount a = of_nat (10 * unat a')"
      using False a k assms(3) le(2) q by (simp add: compressTxOutAmount_def algebra_simps)
    have "unat k = 9" using s(2) False by simp
    then have "10 * unat a' < 2 ^ 64" using s(1) assms(2) by simp
    then have "unat (compressTxOutAmount a) = 10 * unat a'" unfolding c by (simp only: unat_of_nat) simp
    with False show ?thesis by simp
  qed
qed


lemma split_digits:
  fixes q r k :: nat
  assumes "1 \<le> r" "r < 10" "k < 9" "n = 10 * (9 * q + r - 1) + k"
  shows "n mod 10 = k" "n div 10 div 9 = q" "Suc (n div 10 mod 9) = r"
proof -
  define x where "x = r - 1"
  have x: "9 * q + r - 1 = 9 * q + x" "x < 9" "r = Suc x" using assms(1,2) by (simp_all add: x_def)
  have "n div 10 = 9 * q + x" using assms(3,4) x(1) by simp
  with x show "n div 10 div 9 = q" "Suc (n div 10 mod 9) = r" by simp_all
  show "n mod 10 = k" using assms(3,4) by simp
qed

lemma amount_roundtrip:
  assumes "unat a \<le> 2 * 10 ^ 18"
  shows "decompressTxOutAmount (compressTxOutAmount a) = a"
proof (cases "a = 0")
  case True
  then show ?thesis by (simp add: compressTxOutAmount_def decompressTxOutAmount_def)
next
  case False
  then have n0: "unat a \<noteq> 0" by (simp add: unat_eq_zero)
  obtain a' k where st: "stripZeros a 0 = (a', k)" by force
  from stripZeros_spec [OF st] have s: "unat a = unat a' * 10 ^ unat k" "unat k \<le> 9" "unat k < 9 \<longrightarrow> unat a' mod 10 \<noteq> 0"
    by simp_all
  define c where "c = compressTxOutAmount a"
  note u = unat_compress [OF n0 assms st, folded c_def]
  have a': "unat a' \<noteq> 0" using s(1) n0 by auto
  have c0: "c \<noteq> 0" using u a' by (auto split: if_splits)
  have m: "unat (c - 1) = unat c - 1" using c0 by (simp add: unat_minus_one)
  define n where "n = (if (c - 1) mod 10 < 9 then (c - 1) div 10 div 9 * 10 + ((c - 1) div 10 mod 9 + 1) else (c - 1) div 10 + 1)"
  have d: "n = a' \<and> unat ((c - 1) mod 10) = unat k"
  proof (cases "unat k < 9")
    case True
    have r: "1 \<le> unat a' mod 10" "unat a' mod 10 < 10" using s(3) True by (simp_all add: Suc_leI)
    have v: "unat (c - 1) = 10 * (9 * (unat a' div 10) + unat a' mod 10 - 1) + unat k" using u m True by simp
    note sp = split_digits [OF r True v]
    have k: "unat ((c - 1) mod 10) = unat k" using sp(1) by (simp add: unat_mod)
    have "(c - 1) div 10 div 9 * 10 + ((c - 1) div 10 mod 9 + 1) = of_nat (unat ((c - 1) div 10 div 9) * 10 + Suc (unat ((c - 1) div 10 mod 9)))"
      by simp
    also have "\<dots> = of_nat (unat a' div 10 * 10 + unat a' mod 10)"
      unfolding unat_div unat_mod using sp(2,3) by simp
    also have "\<dots> = a'" by (simp only: div_mult_mod_eq) simp
    finally show ?thesis using k True by (simp add: n_def word_less_nat_alt)
  next
    case False
    then have k9: "unat k = 9" using s(2) by simp
    have v: "unat (c - 1) = 10 * (unat a' - 1) + 9" using u m k9 a' by simp
    then have k: "unat ((c - 1) mod 10) = 9" by (simp add: unat_mod)
    have "(c - 1) div 10 + 1 = of_nat (Suc (unat ((c - 1) div 10)))" by simp
    also have "\<dots> = of_nat (unat a')" unfolding unat_div using v a' by simp
    finally show ?thesis using k k9 by (simp add: n_def word_less_nat_alt)
  qed
  then have "decompressTxOutAmount c = a' * 10 ^ unat k"
    using c0 by (simp add: decompressTxOutAmount_def Let_def times_ten n_def)
  also have "\<dots> = of_nat (unat a' * 10 ^ unat k)" by simp
  also have "\<dots> = a" unfolding s(1) [symmetric] by simp
  finally show ?thesis by (simp add: c_def)
qed

section \<open>Scripts survive compression\<close>

text \<open>The documented behaviour of the key parser that the compression of uncompressed keys relies on:
  a valid key is recovered from its abscissa and the parity of its ordinate.\<close>

definition keys_recover :: "env \<Rightarrow> bool" where
  "keys_recover e \<longleftrightarrow> (\<forall>key. length key = 65 \<and> key ! 0 = 0x04 \<and> ParsePubKey e key \<noteq> None \<longrightarrow>
     (\<exists>k. ParsePubKey e ((0x02 OR (key ! 64 AND 0x01)) # take 32 (drop 1 key)) = Some k \<and> SerializeUncompressed k = key))"

lemma VLQ_tag: "deserializeVLQ (0 # s) = (0, 1)" "deserializeVLQ (1 # s) = (1, 1)" "deserializeVLQ (2 # s) = (2, 1)"
  "deserializeVLQ (3 # s) = (3, 1)" "deserializeVLQ (4 # s) = (4, 1)" "deserializeVLQ (5 # s) = (5, 1)"
  by (simp_all add: deserializeVLQ_def)

lemma list_parts: "take n s @ take m (drop n s) @ drop (n + m) s = s"
  by (metis append_take_drop_id drop_drop add.commute)

lemma take_nth: "length s \<ge> 1 \<Longrightarrow> take 1 s = [s ! 0]" "length s \<ge> 2 \<Longrightarrow> take 2 s = [s ! 0, s ! 1]"
  "length s \<ge> 3 \<Longrightarrow> take 3 s = [s ! 0, s ! 1, s ! 2]"
  by (auto simp: numeral_2_eq_2 numeral_3_eq_3 Suc_le_length_iff)

lemma drop_nth: "length s = Suc n \<Longrightarrow> drop n s = [s ! n]" "length s = Suc (Suc n) \<Longrightarrow> drop n s = [s ! n, s ! Suc n]"
  by (simp_all add: Cons_nth_drop_Suc [symmetric])

lemma script_pubkeyhash:
  assumes "isPubKeyHash_db s = Some h"
  shows "length h = 20" "s = [OP_DUP, OP_HASH160, OP_DATA_20] @ h @ [OP_EQUALVERIFY, OP_CHECKSIG]"
proof -
  have h: "length s = 25" "h = take 20 (drop 3 s)" "s ! 0 = OP_DUP" "s ! 1 = OP_HASH160" "s ! 2 = OP_DATA_20"
    "s ! 23 = OP_EQUALVERIFY" "s ! 24 = OP_CHECKSIG"
    using assms by (auto simp: isPubKeyHash_db_def split: if_splits)
  then show "length h = 20" by simp
  show "s = [OP_DUP, OP_HASH160, OP_DATA_20] @ h @ [OP_EQUALVERIFY, OP_CHECKSIG]"
    using list_parts [of 3 s 20] take_nth(3) [of s] drop_nth(2) [of s 23] h by simp
qed

lemma script_scripthash:
  assumes "isScriptHash_db s = Some h"
  shows "length h = 20" "s = [OP_HASH160, OP_DATA_20] @ h @ [OP_EQUAL]"
proof -
  have h: "length s = 23" "h = take 20 (drop 2 s)" "s ! 0 = OP_HASH160" "s ! 1 = OP_DATA_20" "s ! 22 = OP_EQUAL"
    using assms by (auto simp: isScriptHash_db_def split: if_splits)
  then show "length h = 20" by simp
  show "s = [OP_HASH160, OP_DATA_20] @ h @ [OP_EQUAL]"
    using list_parts [of 2 s 20] take_nth(2) [of s] drop_nth(1) [of s 22] h by simp
qed

lemma script_pubkey:
  assumes "isPubKey_db e s = Some k"
  obtains "length k = 33" "k ! 0 = 0x02 \<or> k ! 0 = 0x03" "s = OP_DATA_33 # k @ [OP_CHECKSIG]"
  | "length k = 65" "k ! 0 = 0x04" "ParsePubKey e k \<noteq> None" "s = OP_DATA_65 # k @ [OP_CHECKSIG]"
proof -
  consider (c) "length s = 35" "k = take 33 (drop 1 s)" "s ! 0 = OP_DATA_33" "s ! 34 = OP_CHECKSIG" "s ! 1 = 2 \<or> s ! 1 = 3"
    | (u) "length s = 67" "k = take 65 (drop 1 s)" "s ! 0 = OP_DATA_65" "s ! 66 = OP_CHECKSIG" "s ! 1 = 4" "ParsePubKey e k \<noteq> None"
    using assms by (auto simp: isPubKey_db_def split: if_splits)
  then show thesis
  proof cases
    case c
    have e: "s = OP_DATA_33 # k @ [OP_CHECKSIG]"
      using list_parts [of 1 s 33] take_nth(1) [of s] drop_nth(1) [of s 34] c by simp
    have k: "length k = 33" "k ! 0 = s ! 1" using c(1,2) by simp_all
    show thesis by (rule that(1) [OF k(1) _ e]) (use k(2) c(5) in simp)
  next
    case u
    have e: "s = OP_DATA_65 # k @ [OP_CHECKSIG]"
      using list_parts [of 1 s 65] take_nth(1) [of s] drop_nth(1) [of s 66] u by simp
    have k: "length k = 65" "k ! 0 = s ! 1" using u(1,2) by simp_all
    show thesis by (rule that(2) [OF k(1) _ u(6) e]) (use k(2) u(5) in simp)
  qed
qed

lemma sint_small: "int n < 2 ^ 63 \<Longrightarrow> sint (of_nat n :: u64) = int n"
  by (simp add: signed_of_nat signed_take_bit_int_eq_self)

lemma general_size:
  assumes "length s < 2 ^ 62"
  shows "of_nat (length s) + numSpecialScripts \<notin> {0, 1, 2, 3, 4, 5 :: u64}"
    "k < 2 ^ 62 \<Longrightarrow> sint (of_nat (length s) + numSpecialScripts - numSpecialScripts + of_nat k :: u64) = int (length s + k)"
proof -
  have "unat (of_nat (length s + 6) :: u64) = length s + 6" by (simp only: unat_of_nat) (use assms in simp)
  then have u: "unat (of_nat (length s) + 6 :: u64) = length s + 6" by simp
  have "unat (c :: u64) \<le> 5" if "c \<in> {0, 1, 2, 3, 4, 5}" for c using that by auto
  with u show "of_nat (length s) + numSpecialScripts \<notin> {0, 1, 2, 3, 4, 5 :: u64}" by fastforce
  assume "k < 2 ^ 62"
  with assms have "int (length s + k) < 2 ^ 63" by simp
  then have "sint (of_nat (length s + k) :: u64) = int (length s + k)" by (rule sint_small)
  then show "sint (of_nat (length s) + numSpecialScripts - numSpecialScripts + of_nat k :: u64) = int (length s + k)" by simp
qed


lemma putVLQ_nonempty: "putVLQ n \<noteq> []"
  by (simp add: putVLQ_def putVLQ_loop.simps [of True n] Let_def)

lemma putVLQ_loop_short: "unat n < 128 ^ k \<Longrightarrow> 0 < k \<Longrightarrow> length (putVLQ_loop b n) \<le> k"
proof (induction k arbitrary: n b)
  case (Suc k)
  show ?case
  proof (cases "n \<le> 0x7f")
    case False
    then have "unat n > 127" by (simp add: word_less_nat_alt not_le)
    have k: "0 < k" using Suc.prems(1) \<open>unat n > 127\<close> by (cases k) simp_all
    have d: "unat (drop_bit 7 n) = unat n div 128" by (simp only: unat_drop_bit_eq) (simp add: drop_bit_eq_div)
    have "unat n div 128 \<noteq> 0" using \<open>unat n > 127\<close> by simp
    then have "drop_bit 7 n \<noteq> 0" using d by auto
    then have "unat (drop_bit 7 n - 1) < 128 ^ k"
      using d Suc.prems(1) by (simp add: unat_minus_one less_mult_imp_div_less mult.commute less_imp_diff_less)
    from Suc.IH [OF this k] show ?thesis by (subst putVLQ_loop.simps) (simp add: Let_def)
  qed (subst putVLQ_loop.simps, simp add: Let_def)
qed simp

lemma putVLQ_short: "length (putVLQ n) \<le> 10"
proof -
  have "unat n < 2 ^ LENGTH(64)" by (rule unsigned_less)
  then have "unat n < 128 ^ 10" by simp
  from putVLQ_loop_short [OF this, of True] show ?thesis by (simp add: putVLQ_def)
qed

lemma key_tag: "(4 :: u8) OR (b AND 1) = 4 \<and> (2 :: u8) OR (b AND 1) = 2 \<or> (4 :: u8) OR (b AND 1) = 5 \<and> (2 :: u8) OR (b AND 1) = 3"
  by (cases "odd b") (simp_all add: and_one_eq odd_iff_mod_2_eq_one even_iff_mod_2_eq_zero)

lemma script_roundtrip:
  assumes "keys_recover e" "length s < 2 ^ 62"
  shows "decompressScript e (putCompressedScript e s) = Inr s"
    "decodeCompressedScriptSize (putCompressedScript e s @ rest) = int (length (putCompressedScript e s))"
    "compressedScriptSize e s = length (putCompressedScript e s)"
    "putCompressedScript e s \<noteq> []"
proof -
  let ?P = "\<lambda>c. decompressScript e c = Inr s \<and> decodeCompressedScriptSize (c @ rest) = int (length c) \<and>
    compressedScriptSize e s = length c \<and> c \<noteq> []"
  let ?n = "of_nat (length s) + numSpecialScripts :: u64"
  have general: "?P (putVLQ ?n @ s)" if "isPubKeyHash_db s = None" "isScriptHash_db s = None" "isPubKey_db e s = None"
  proof -
    have l: "length (putVLQ ?n) < 2 ^ 62" using putVLQ_short [of ?n] by simp
    show ?thesis
      using general_size [OF assms(2)] general_size(2) [OF assms(2) l] general_size(2) [OF assms(2), of 0] that putVLQ_nonempty [of ?n]
      by (auto simp: decompressScript_def decodeCompressedScriptSize_def compressedScriptSize_def VLQ_roundtrip VLQ_size sliceE_def)
  qed
  have key: "?P c" if k: "isPubKey_db e s = Some k" "isPubKeyHash_db s = None" "isScriptHash_db s = None" and
    c: "c = (if k ! 0 = 0x02 \<or> k ! 0 = 0x03 then k ! 0 # take 32 (drop 1 k)
          else if k ! 0 = 0x04 then (k ! 0 OR (k ! 64 AND 0x01)) # take 32 (drop 1 k) else putVLQ ?n @ s)" for k c
    using k(1)
  proof (cases rule: script_pubkey)
    case 1
    then obtain f t where "k = f # t" "length t = 32" "f = 2 \<or> f = 3" by (cases k) auto
    with 1 k c show ?thesis
      by (auto simp: decompressScript_def decodeCompressedScriptSize_def compressedScriptSize_def VLQ_tag sliceE_def)
  next
    case 2
    then obtain k' where k': "ParsePubKey e ((0x02 OR (k ! 64 AND 0x01)) # take 32 (drop 1 k)) = Some k'" "SerializeUncompressed k' = k"
      using assms(1) by (auto simp: keys_recover_def)
    from 2 obtain t where "k = 4 # t" "length t = 64" by (cases k) auto
    with 2 k c k' key_tag [of "k ! 64"] show ?thesis
      by (auto simp: decompressScript_def decodeCompressedScriptSize_def compressedScriptSize_def VLQ_tag)
  qed
  have "?P (putCompressedScript e s)"
  proof (cases "isPubKeyHash_db s")
    case (Some h)
    with script_pubkeyhash [OF Some] show ?thesis
      by (simp add: putCompressedScript_def Let_def decompressScript_def decodeCompressedScriptSize_def
          compressedScriptSize_def VLQ_tag sliceE_def)
  next
    case None
    note n = this
    show ?thesis
    proof (cases "isScriptHash_db s")
      case (Some h)
      with n script_scripthash [OF Some] show ?thesis
        by (simp add: putCompressedScript_def Let_def decompressScript_def decodeCompressedScriptSize_def
            compressedScriptSize_def VLQ_tag sliceE_def)
    next
      case None
      show ?thesis
      proof (cases "isPubKey_db e s")
        case (Some k)
        show ?thesis by (rule key [OF Some n None]) (simp add: putCompressedScript_def Let_def n None Some)
      next
        case none: None
        from general [OF n None none] show ?thesis by (simp add: putCompressedScript_def Let_def n None none)
      qed
    qed
  qed
  then show "decompressScript e (putCompressedScript e s) = Inr s"
    "decodeCompressedScriptSize (putCompressedScript e s @ rest) = int (length (putCompressedScript e s))"
    "compressedScriptSize e s = length (putCompressedScript e s)"
    "putCompressedScript e s \<noteq> []" by blast+
qed


section \<open>Properties\<close>

lemma txout_roundtrip:
  assumes "keys_recover e" "length pkScript < 2 ^ 62" "unat amount \<le> 2 * 10 ^ 18"
  shows "decodeCompressedTxOut e (putCompressedTxOut e amount pkScript @ rest) =
      Inr (amount, pkScript, compressedTxOutSize e amount pkScript) \<and>
    length (putCompressedTxOut e amount pkScript) = compressedTxOutSize e amount pkScript"
proof -
  let ?c = "putCompressedScript e pkScript" and ?v = "putVLQ (compressTxOutAmount amount)"
  note s = script_roundtrip [OF assms(1,2)]
  have v: "deserializeVLQ (?v @ ?c @ rest) = (compressTxOutAmount amount, length ?v)" by (rule VLQ_roundtrip)
  show ?thesis
    using s(1,3,4) s(2) [of rest] amount_roundtrip [OF assms(3)]
    by (simp add: decodeCompressedTxOut_def putCompressedTxOut_def v compressedTxOutSize_def VLQ_size)
qed

text \<open>C15. Every output survives its database encoding: decoding what \<^verbatim>\<open>putCompressedTxOut\<close> writes, with
  anything after it, gives back the amount and the script and consumes exactly the bytes written,
  as many as \<^verbatim>\<open>compressedTxOutSize\<close> announces. The amount is bounded, because the compression of
  amounts a little above the bound wraps around.\<close>

theorem compressed_txout_roundtrip:
  assumes "keys_recover e" "length pkScript < 2 ^ 62" "unat amount \<le> 2 * 10 ^ 18"
  shows "decodeCompressedTxOut e (putCompressedTxOut e amount pkScript @ rest) =
      Inr (amount, pkScript, compressedTxOutSize e amount pkScript) \<and>
    length (putCompressedTxOut e amount pkScript) = compressedTxOutSize e amount pkScript"
  by (rule txout_roundtrip [OF assms])

text \<open>An environment whose only public key has both coordinates zero.\<close>

definition zeroKeyEnv :: env where
  "zeroKeyEnv = \<lparr>sha256 = (\<lambda>_. replicate 32 0), sha1 = (\<lambda>_. replicate 20 0), ripemd160 = (\<lambda>_. replicate 20 0),
     ParsePubKey = (\<lambda>k. if k = 4 # replicate 64 0 \<or> k = 2 # replicate 32 0 then Some (0, 0) else None),
     ParseDERSignature = (\<lambda>_. None), ParseSignature = (\<lambda>_. None), Verify = (\<lambda>_ _ _. True), mapStart = (\<lambda>_. 0)\<rparr>"

lemma zeroKeyEnv_recovers: "keys_recover zeroKeyEnv"
  by (auto simp: keys_recover_def zeroKeyEnv_def SerializeUncompressed_def paddedAppend_def bigBytes_def
      simp flip: replicate_add split: if_splits)

theorem compressed_txout_roundtrip_witness:
  "keys_recover zeroKeyEnv \<and>
   putCompressedTxOut zeroKeyEnv 5000000000 (0x41 # 4 # replicate 64 0 @ [0xac]) = [0x32, 4] @ replicate 32 0 \<and>
   decodeCompressedTxOut zeroKeyEnv ([0x32, 4] @ replicate 32 0 @ [1, 2]) =
     Inr (5000000000, 0x41 # 4 # replicate 64 0 @ [0xac], 34)"
proof -
  have p: "putCompressedTxOut zeroKeyEnv 5000000000 (0x41 # 4 # replicate 64 0 @ [0xac]) = [0x32, 4] @ replicate 32 0" by code_simp
  have s: "compressedTxOutSize zeroKeyEnv 5000000000 (0x41 # 4 # replicate 64 0 @ [0xac]) = 34" by code_simp
  have "length (0x41 # 4 # replicate 64 0 @ [0xac :: u8]) < 2 ^ 62" "unat (5000000000 :: u64) \<le> 2 * 10 ^ 18" by simp_all
  from compressed_txout_roundtrip [OF zeroKeyEnv_recovers this, of "[1, 2]"] p s zeroKeyEnv_recovers show ?thesis by simp
qed

end
