(* ===== verification/Base58.thy ===== *)
theory Base58
  imports Radix
begin

text \<open>
  The modified base58 encoding (\<^verbatim>\<open>jaxutil/base58\<close>) and its checksummed form, which addresses and
  private keys use. Strings are byte lists. The lemmas show that encoding and decoding are inverse
  to each other on byte strings and on strings over the alphabet, and how long an encoding is.
\<close>

section \<open>Encoding and decoding\<close>

definition alphabet :: bytes where
  "alphabet = str ''123456789ABCDEFGHJKLMNPQRSTUVWXYZabcdefghijkmnopqrstuvwxyz''"

abbreviation (input) alphabetIdx0 :: u8 where "alphabetIdx0 \<equiv> 0x31"

definition b58 :: "nat list" where
  "b58 =
     [255, 255, 255, 255, 255, 255, 255, 255, 255, 255, 255, 255, 255, 255, 255, 255,
      255, 255, 255, 255, 255, 255, 255, 255, 255, 255, 255, 255, 255, 255, 255, 255,
      255, 255, 255, 255, 255, 255, 255, 255, 255, 255, 255, 255, 255, 255, 255, 255,
      255, 0, 1, 2, 3, 4, 5, 6, 7, 8, 255, 255, 255, 255, 255, 255,
      255, 9, 10, 11, 12, 13, 14, 15, 16, 255, 17, 18, 19, 20, 21, 255,
      22, 23, 24, 25, 26, 27, 28, 29, 30, 31, 32, 255, 255, 255, 255, 255,
      255, 33, 34, 35, 36, 37, 38, 39, 40, 41, 42, 43, 255, 44, 45, 46,
      47, 48, 49, 50, 51, 52, 53, 54, 55, 56, 57, 255, 255, 255, 255, 255,
      255, 255, 255, 255, 255, 255, 255, 255, 255, 255, 255, 255, 255, 255, 255, 255,
      255, 255, 255, 255, 255, 255, 255, 255, 255, 255, 255, 255, 255, 255, 255, 255,
      255, 255, 255, 255, 255, 255, 255, 255, 255, 255, 255, 255, 255, 255, 255, 255,
      255, 255, 255, 255, 255, 255, 255, 255, 255, 255, 255, 255, 255, 255, 255, 255,
      255, 255, 255, 255, 255, 255, 255, 255, 255, 255, 255, 255, 255, 255, 255, 255,
      255, 255, 255, 255, 255, 255, 255, 255, 255, 255, 255, 255, 255, 255, 255, 255,
      255, 255, 255, 255, 255, 255, 255, 255, 255, 255, 255, 255, 255, 255, 255, 255,
      255, 255, 255, 255, 255, 255, 255, 255, 255, 255, 255, 255, 255, 255, 255, 255]"

text \<open>The loop over the characters from the last one; \<open>None\<close> is the early return on a character
  outside the alphabet.\<close>

fun decode58_loop :: "bytes \<Rightarrow> int \<Rightarrow> int \<Rightarrow> int option" where
  "decode58_loop [] answer j = Some answer"
| "decode58_loop (c # cs) answer j =
     (let tmp = b58 ! unat c
      in if tmp = 255 then None else decode58_loop cs (answer + j * int tmp) (j * 58))"

definition Decode58 :: "bytes \<Rightarrow> bytes" where
  "Decode58 b =
     (case decode58_loop (rev b) 0 1 of
        None \<Rightarrow> []
      | Some answer \<Rightarrow>
          replicate (length (takeWhile (\<lambda>c. c = alphabetIdx0) b)) 0 @ bigBytes answer)"

fun encode58_loop :: "nat \<Rightarrow> bytes" where
  "encode58_loop x = (if x > 0 then alphabet ! (x mod 58) # encode58_loop (x div 58) else [])"

declare encode58_loop.simps [simp del]

definition Encode58 :: "bytes \<Rightarrow> bytes" where
  "Encode58 b =
     rev (encode58_loop (nat (bigSetBytes b)) @
       replicate (length (takeWhile (\<lambda>i. i = 0) b)) alphabetIdx0)"

section \<open>Checksums\<close>

datatype base58_err = ErrChecksum | ErrInvalidFormat

definition checksum58 :: "(bytes \<Rightarrow> bytes) \<Rightarrow> bytes \<Rightarrow> bytes" where
  "checksum58 sha input = take 4 (sha (sha input))"

definition CheckEncode :: "(bytes \<Rightarrow> bytes) \<Rightarrow> bytes \<Rightarrow> u8 \<Rightarrow> bytes" where
  "CheckEncode sha input version =
     (let b = version # input in Encode58 (b @ checksum58 sha b))"

definition CheckDecode :: "(bytes \<Rightarrow> bytes) \<Rightarrow> bytes \<Rightarrow> base58_err failure + (bytes \<times> u8)" where
  "CheckDecode sha input =
     (let decoded = Decode58 input; n = length decoded - 4
      in if length decoded < 5 then Inl (Err ErrInvalidFormat)
         else if checksum58 sha (take n decoded) \<noteq> drop n decoded then Inl (Err ErrChecksum)
         else Inr (drop 1 (take n decoded), decoded ! 0))"

section \<open>Encoding and decoding are inverse\<close>

text \<open>The table inverts the alphabet, and marks every other character.\<close>

lemma alphabet_codes: "map unat alphabet = [49, 50, 51, 52, 53, 54, 55, 56, 57, 65, 66, 67, 68, 69, 70, 71, 72, 74, 75, 76, 77, 78, 80, 81, 82, 83, 84, 85, 86, 87, 88, 89, 90, 97, 98, 99, 100, 101, 102, 103, 104, 105, 106, 107, 109, 110, 111, 112, 113, 114, 115, 116, 117, 118, 119, 120, 121, 122]"
  by (simp add: alphabet_def str_def)

lemma b58_codes: "map (\<lambda>c. b58 ! c) (map unat alphabet) = [0..<58]"
  unfolding alphabet_codes b58_def by (simp add: upt_rec)

lemma b58_marks: "list_all (\<lambda>(n, d). d = 255 \<or> d < 58 \<and> map unat alphabet ! d = n) (enumerate 0 b58)"
  unfolding alphabet_codes b58_def by simp
lemma length_alphabet: "length alphabet = 58"
  using arg_cong [OF alphabet_codes, of length] by simp

lemma b58_alphabet: "d < 58 \<Longrightarrow> b58 ! unat (alphabet ! d) = d"
  using arg_cong [OF b58_codes, of "\<lambda>l. l ! d"] by (simp add: length_alphabet)

lemma alphabet_b58:
  assumes "b58 ! unat c \<noteq> 255"
  shows "b58 ! unat c < 58" "alphabet ! (b58 ! unat c) = c"
proof -
  have "unat c < length b58" using unat_u8_bound [of c] by (simp add: b58_def)
  then have "(unat c, b58 ! unat c) \<in> set (enumerate 0 b58)" by (simp add: in_set_enumerate_eq)
  then have "b58 ! unat c < 58 \<and> unat (alphabet ! (b58 ! unat c)) = unat c"
    using assms b58_marks by (auto simp: list_all_iff length_alphabet)
  then show "b58 ! unat c < 58" "alphabet ! (b58 ! unat c) = c" by (simp_all add: word_unat_eq_iff)
qed

lemma encode58_loop_digits: "encode58_loop x = map (\<lambda>d. alphabet ! d) (digitsLE 58 x)"
proof (induction x rule: encode58_loop.induct)
  case (1 x)
  then show ?case by (cases "x = 0") (simp_all add: encode58_loop.simps [of x] encode58_loop.simps [of 0] digitsLE.simps [of 58 x])
qed

lemma decode58_loop_digits:
  "list_all (\<lambda>d. d < 58) ds \<Longrightarrow> decode58_loop (map (\<lambda>d. alphabet ! d) ds) a j = Some (a + j * int (valLE 58 ds))"
  by (induction ds arbitrary: a j) (auto simp: b58_alphabet Let_def algebra_simps)

definition inAlphabet :: "bytes \<Rightarrow> bool" where
  "inAlphabet s \<longleftrightarrow> list_all (\<lambda>c. b58 ! unat c \<noteq> 255) s"

lemma inAlphabet_digits:
  assumes "inAlphabet s"
  obtains ds where "s = map (\<lambda>d. alphabet ! d) ds" "list_all (\<lambda>d. d < 58) ds"
proof
  show "s = map (\<lambda>d. alphabet ! d) (map (\<lambda>c. b58 ! unat c) s)" "list_all (\<lambda>d. d < 58) (map (\<lambda>c. b58 ! unat c) s)"
    using assms alphabet_b58 by (auto simp: inAlphabet_def list_all_iff intro: map_idI [symmetric])
qed

lemma alphabet_0: "alphabet ! 0 = alphabetIdx0"
  by (simp add: alphabet_def str_def)

lemma alphabet_eq_0: "d < 58 \<Longrightarrow> alphabet ! d = alphabetIdx0 \<longleftrightarrow> d = 0"
  using b58_alphabet [of d] b58_alphabet [of 0] by (auto simp: alphabet_0)

lemma takeWhile_replicate: "ys = [] \<or> hd ys \<noteq> x \<Longrightarrow> takeWhile (\<lambda>c. c = x) (replicate k x @ ys) = replicate k x"
  by (induction k) (cases ys; simp)+

lemma Encode58_digits:
  "Encode58 b = map (\<lambda>d. alphabet ! d)
     (rev (digitsLE 58 (nat (bigSetBytes b)) @ replicate (length (takeWhile (\<lambda>i. i = 0) b)) 0))"
  by (simp add: Encode58_def encode58_loop_digits alphabet_0 rev_map)

lemma Decode58_digits:
  assumes "list_all (\<lambda>d. d < 58) ds" "canonical ds"
  shows "Decode58 (map (\<lambda>d. alphabet ! d) (rev (ds @ replicate k 0))) = replicate k 0 @ bigBytes (int (valLE 58 ds))"
proof -
  have "decode58_loop (map (\<lambda>d. alphabet ! d) (ds @ replicate k 0)) 0 1 = Some (int (valLE 58 ds))"
    using assms(1) by (subst decode58_loop_digits) (auto simp: valLE_zeros list_all_iff)
  moreover have "takeWhile (\<lambda>c. c = alphabetIdx0) (map (\<lambda>d. alphabet ! d) (rev (ds @ replicate k 0))) = replicate k alphabetIdx0"
  proof -
    have "hd (map (\<lambda>d. alphabet ! d) (rev ds)) \<noteq> alphabetIdx0" if "ds \<noteq> []"
      using that assms last_in_set [of ds] by (simp add: hd_map hd_rev canonical_def list_all_iff alphabet_eq_0)
    then show ?thesis using takeWhile_replicate [of "map (\<lambda>d. alphabet ! d) (rev ds)" alphabetIdx0 k] by (auto simp: alphabet_0)
  qed
  ultimately show ?thesis by (simp add: Decode58_def rev_map)
qed

lemma Decode58_Encode58: "Decode58 (Encode58 b) = b"
proof -
  have "list_all (\<lambda>d. d < 58) (digitsLE 58 n)" for n using digitsLE_less [of _ 58 n] by (simp add: list_all_iff)
  then show ?thesis
    by (simp only: Encode58_digits Decode58_digits canonical_digitsLE valLE_digitsLE)
      (simp add: valLE_digitsLE bigBytes_bigSetBytes dropWhile_zeros)
qed

lemma zeros_split:
  obtains k es where "ds = es @ replicate k (0 :: nat)" "canonical es"
proof (induction ds arbitrary: thesis rule: rev_induct)
  case Nil
  show ?case by (rule Nil [of "[]" 0]) (simp_all add: canonical_def)
next
  case (snoc d ds)
  show ?case
  proof (cases "d = 0")
    case True
    obtain es k where "ds = es @ replicate k 0" "canonical es" by (rule snoc.IH)
    then show ?thesis using True snoc.prems [of es "Suc k"] by (simp flip: replicate_append_same)
  next
    case False
    then show ?thesis by (intro snoc.prems [of "ds @ [d]" 0]) (simp_all add: canonical_def)
  qed
qed

lemma bigBytes_hd: "bigBytes n = [] \<or> hd (bigBytes n) \<noteq> 0"
proof -
  let ?ds = "digitsLE 256 (nat \<bar>n\<bar>)"
  have "(of_nat (last ?ds) :: u8) \<noteq> 0" if "?ds \<noteq> []"
  proof -
    have "last ?ds < 256" "last ?ds \<noteq> 0"
      using that digitsLE_less [OF last_in_set [OF that]] canonical_digitsLE [of 256 "nat \<bar>n\<bar>"] by (auto simp: canonical_def)
    then show ?thesis by (simp add: word_unat_eq_iff unat_of_nat)
  qed
  then show ?thesis by (auto simp: bigBytes_def hd_rev last_map)
qed

lemma bigSetBytes_zeros: "bigSetBytes (replicate k 0 @ bs) = bigSetBytes bs"
  by (simp add: bigSetBytes_def valLE_zeros)

lemma Encode58_Decode58:
  assumes "inAlphabet s"
  shows "Encode58 (Decode58 s) = s"
proof -
  have "inAlphabet (rev s)" using assms by (simp add: inAlphabet_def)
  then obtain ds0 where "rev s = map (\<lambda>d. alphabet ! d) ds0" "list_all (\<lambda>d. d < 58) ds0" by (rule inAlphabet_digits)
  moreover obtain k ds where ds: "ds0 = ds @ replicate k 0" "canonical ds" by (rule zeros_split)
  ultimately have s: "s = map (\<lambda>d. alphabet ! d) (rev (ds @ replicate k 0))" and l: "list_all (\<lambda>d. d < 58) ds"
    by (simp_all add: rev_swap rev_map)
  define N where "N = valLE 58 ds"
  have D: "Decode58 s = replicate k 0 @ bigBytes (int N)" unfolding s N_def by (rule Decode58_digits [OF l ds(2)])
  have "takeWhile (\<lambda>i. i = 0) (Decode58 s) = replicate k 0"
    unfolding D by (rule takeWhile_replicate [OF bigBytes_hd])
  moreover have "bigSetBytes (Decode58 s) = int N"
    by (simp add: D bigSetBytes_zeros bigSetBytes_bigBytes)
  moreover have "digitsLE 58 N = ds" unfolding N_def by (rule digitsLE_valLE [OF _ l ds(2)]) simp
  ultimately show ?thesis by (simp add: Encode58_digits s)
qed

lemma Decode58_inAlphabet:
  assumes "Decode58 s \<noteq> []"
  shows "inAlphabet s"
proof -
  have "decode58_loop cs a j = None" if "\<not> inAlphabet cs" for cs a j
    using that by (induction cs arbitrary: a j) (auto simp: inAlphabet_def Let_def)
  moreover have "decode58_loop (rev s) 0 1 \<noteq> None" using assms by (auto simp: Decode58_def split: option.splits)
  ultimately have "inAlphabet (rev s)" by metis
  then show ?thesis by (simp add: inAlphabet_def)
qed

lemma CheckDecode_CheckEncode:
  assumes "\<forall>x. length (sha x) = 32"
  shows "CheckDecode sha (CheckEncode sha payload version) = Inr (payload, version)"
  using assms by (simp add: CheckDecode_def CheckEncode_def Let_def Decode58_Encode58 checksum58_def)

section \<open>Properties\<close>

text \<open>C20. The checksummed encoding is exact: \<^verbatim>\<open>CheckDecode\<close> returns a payload and a version for precisely
  one string, the one that \<^verbatim>\<open>CheckEncode\<close> makes of them, and reports an error for every other string.
  The hash function is any function with outputs of 32 bytes.\<close>

theorem base58check_exact:
  assumes "\<forall>x. length (sha x) = 32"
  shows "CheckDecode sha s = Inr (payload, version) \<longleftrightarrow> s = CheckEncode sha payload version"
proof
  assume "s = CheckEncode sha payload version"
  then show "CheckDecode sha s = Inr (payload, version)"
    by (simp add: CheckDecode_CheckEncode [OF assms])
next
  assume ok: "CheckDecode sha s = Inr (payload, version)"
  define d where "d = Decode58 s"
  have d: "\<not> length d < 5" "checksum58 sha (take (length d - 4) d) = drop (length d - 4) d"
    "payload = drop 1 (take (length d - 4) d)" "version = d ! 0"
    using ok by (simp_all add: CheckDecode_def Let_def d_def split: if_splits)
  have "take (length d - 4) d = version # payload"
    using d(1) by (cases d) (simp_all add: d(3,4) take_Cons')
  then have "d = (version # payload) @ checksum58 sha (version # payload)"
    using append_take_drop_id [of "length d - 4" d] d(2) by metis
  moreover have "s = Encode58 d"
    unfolding d_def by (rule Encode58_Decode58 [symmetric, OF Decode58_inAlphabet]) (use d(1) in \<open>auto simp: d_def\<close>)
  ultimately show "s = CheckEncode sha payload version" by (simp add: CheckEncode_def Let_def)
qed

theorem base58check_exact_witness:
  "CheckEncode (\<lambda>_. replicate 32 0) [1, 2, 3] 0 = str ''13DUyTaPdy'' \<and>
   CheckDecode (\<lambda>_. replicate 32 0) (str ''13DUyTaPdy'') = Inr ([1, 2, 3], 0)"
proof -
  have four_zeros: "replicate 4 (0 :: nat) = [0, 0, 0, 0]" by (simp add: numeral_eq_Suc)
  have "CheckEncode (\<lambda>_. replicate 32 0) [1, 2, 3] 0 = str ''13DUyTaPdy''"
    by (simp add: CheckEncode_def checksum58_def Encode58_def bigSetBytes_def encode58_loop.simps alphabet_def str_def Let_def
        four_zeros)
  then show ?thesis using base58check_exact [of "\<lambda>_. replicate 32 0" "str ''13DUyTaPdy''" "[1, 2, 3]" 0] by simp
qed

end
