(* ===== verification/Bech32.thy ===== *)
theory Bech32
  imports Prelude
begin

text \<open>
  The bech32 encoding of segregated witness addresses (\<^verbatim>\<open>jaxutil/bech32/bech32.go\<close>): the checksum,
  the conversion between groups of bits and the two directions of the encoding. Go's \<^verbatim>\<open>int\<close> in the
  checksum stays below 2 to the 30th and is an \<^typ>\<open>int\<close>; numbers of bits are at most 8 and are
  \<^typ>\<open>nat\<close>s. The lemmas show that the checksum of an encoding verifies, because the polynomial
  remainder is linear, and that both the regrouping of bits and the encoding can be undone.
\<close>

section \<open>Errors and characters\<close>

datatype bech32_err = InvalidLength | InvalidCharacter | MixedCase | InvalidSeparator | NotInCharset
  | ChecksumFailed | InvalidDataByte | InvalidBitGroup | IncompleteGroup

type_synonym 'a bech32_result = "bech32_err failure + 'a"

definition charset :: bytes where
  "charset = str ''qpzry9x8gf2tvdw0s3jn54khce6mua7l''"

text \<open>\<^verbatim>\<open>strings.ToLower\<close>, \<^verbatim>\<open>strings.ToUpper\<close> on ASCII, and \<^verbatim>\<open>strings.LastIndexByte\<close>.\<close>

definition toLower :: "bytes \<Rightarrow> bytes" where
  "toLower = map (\<lambda>c. if 0x41 \<le> c \<and> c \<le> 0x5a then c + 32 else c)"

definition toUpper :: "bytes \<Rightarrow> bytes" where
  "toUpper = map (\<lambda>c. if 0x61 \<le> c \<and> c \<le> 0x7a then c - 32 else c)"

definition lastIndexByte :: "bytes \<Rightarrow> u8 \<Rightarrow> int" where
  "lastIndexByte s c = int (length s) - 1 - int (length (takeWhile (\<lambda>x. x \<noteq> c) (rev s)))"

fun indexByte :: "bytes \<Rightarrow> u8 \<Rightarrow> nat option" where
  "indexByte [] c = None"
| "indexByte (x # xs) c = (if x = c then Some 0 else map_option Suc (indexByte xs c))"

fun toBytes :: "bytes \<Rightarrow> bytes bech32_result" where
  "toBytes [] = Inr []"
| "toBytes (c # cs) =
     (case indexByte charset c of
        None \<Rightarrow> Inl (Err NotInCharset)
      | Some index \<Rightarrow> bindE (toBytes cs) (\<lambda>bs. Inr (of_nat index # bs)))"

fun toChars :: "bytes \<Rightarrow> bytes bech32_result" where
  "toChars [] = Inr []"
| "toChars (b # bs) =
     (if unat b \<ge> length charset then Inl (Err InvalidDataByte)
      else bindE (toChars bs) (\<lambda>cs. Inr (charset ! unat b # cs)))"

section \<open>The checksum\<close>

definition gen :: "int list" where
  "gen = [0x3b6a57b2, 0x26508e6d, 0x1ea119fa, 0x3d4233dd, 0x2a1462b3]"

definition polymod_step :: "int \<Rightarrow> int \<Rightarrow> int" where
  "polymod_step chk v =
     (let b = drop_bit 25 chk
      in fold (\<lambda>i chk. if drop_bit i b AND 1 = 1 then chk XOR gen ! i else chk) [0..<5]
           (push_bit 5 (chk AND 0x1ffffff) XOR v))"

definition bech32Polymod :: "int list \<Rightarrow> int" where
  "bech32Polymod values = foldl polymod_step 1 values"

definition bech32HrpExpand :: "bytes \<Rightarrow> int list" where
  "bech32HrpExpand hrp =
     map (\<lambda>c. uint (drop_bit 5 c)) hrp @ [0] @ map (\<lambda>c. uint (c AND 31)) hrp"

definition bech32Checksum :: "bytes \<Rightarrow> bytes \<Rightarrow> bytes" where
  "bech32Checksum hrp data =
     (let polymod = bech32Polymod (bech32HrpExpand hrp @ map uint data @ [0, 0, 0, 0, 0, 0]) XOR 1
      in map (\<lambda>i. word_of_int (drop_bit (5 * (5 - i)) polymod AND 31)) [0..<6])"

definition bech32VerifyChecksum :: "bytes \<Rightarrow> bytes \<Rightarrow> bool" where
  "bech32VerifyChecksum hrp data \<longleftrightarrow> bech32Polymod (bech32HrpExpand hrp @ map uint data) = 1"

section \<open>Encoding and decoding\<close>

definition Encode32 :: "bytes \<Rightarrow> bytes \<Rightarrow> bytes bech32_result" where
  "Encode32 hrp data =
     bindE (toChars (data @ bech32Checksum hrp data)) (\<lambda>dataChars. Inr (hrp @ [0x31] @ dataChars))"

definition Decode32 :: "bytes \<Rightarrow> (bytes \<times> bytes) bech32_result" where
  "Decode32 bech =
     (if length bech < 8 \<or> length bech > 90 then Inl (Err InvalidLength)
      else if list_ex (\<lambda>c. c < 33 \<or> c > 126) bech then Inl (Err InvalidCharacter)
      else if bech \<noteq> toLower bech \<and> bech \<noteq> toUpper bech then Inl (Err MixedCase)
      else
        let bech = toLower bech; one = lastIndexByte bech 0x31
        in if one < 1 \<or> one + 7 > int (length bech) then Inl (Err InvalidSeparator)
           else
             let hrp = take (nat one) bech
             in bindE (toBytes (drop (nat one + 1) bech)) (\<lambda>decoded.
                  if \<not> bech32VerifyChecksum hrp decoded then Inl (Err ChecksumFailed)
                  else Inr (hrp, take (length decoded - 6) decoded)))"

section \<open>Regrouping bits\<close>

text \<open>The inner loop takes bits from the top of \<open>b\<close>; it starts and stays with \<open>filledBits < toBits\<close>,
  which makes every round take at least one bit.\<close>

function convert_loop :: "nat \<Rightarrow> u8 \<Rightarrow> nat \<Rightarrow> bytes \<times> u8 \<times> nat \<Rightarrow> bytes \<times> u8 \<times> nat" where
  "convert_loop toBits b remFromBits (regrouped, nextByte, filledBits) =
     (if remFromBits = 0 \<or> toBits \<le> filledBits then (regrouped, nextByte, filledBits)
      else
        let toExtract = min remFromBits (toBits - filledBits);
            nextByte = push_bit toExtract nextByte OR drop_bit (8 - toExtract) b;
            b = push_bit toExtract b; remFromBits = remFromBits - toExtract;
            filledBits = filledBits + toExtract
        in convert_loop toBits b remFromBits
             (if filledBits = toBits then (regrouped @ [nextByte], 0, 0) else (regrouped, nextByte, filledBits)))"
  by pat_completeness auto
termination
  by (relation "measure (\<lambda>(_, _, r, _). r)") auto

declare convert_loop.simps [simp del]

definition ConvertBits :: "bytes \<Rightarrow> nat \<Rightarrow> nat \<Rightarrow> bool \<Rightarrow> bytes bech32_result" where
  "ConvertBits data fromBits toBits pad =
     (if fromBits < 1 \<or> fromBits > 8 \<or> toBits < 1 \<or> toBits > 8 then Inl (Err InvalidBitGroup)
      else
        let (regrouped, nextByte, filledBits) =
              foldl (\<lambda>s b. convert_loop toBits (push_bit (8 - fromBits) b) fromBits s) ([], 0, 0) data;
            (regrouped, nextByte, filledBits) =
              (if pad \<and> filledBits > 0
               then (regrouped @ [push_bit (toBits - filledBits) nextByte], 0, 0)
               else (regrouped, nextByte, filledBits))
        in if filledBits > 0 \<and> (filledBits > 4 \<or> nextByte \<noteq> 0) then Inl (Err IncompleteGroup)
           else Inr regrouped)"

section \<open>Groups of bits\<close>

definition bitsMSB :: "nat \<Rightarrow> u8 \<Rightarrow> bool list" where
  "bitsMSB k w = map (\<lambda>i. bit w (k - Suc i)) [0..<k]"

definition topBits :: "nat \<Rightarrow> u8 \<Rightarrow> bool list" where
  "topBits k w = map (\<lambda>i. bit w (7 - i)) [0..<k]"

lemma length_bitsMSB [simp]: "length (bitsMSB k w) = k"
  by (simp add: bitsMSB_def)

lemma topBits_shift: "k \<le> 8 \<Longrightarrow> topBits k (push_bit (8 - k) w) = bitsMSB k w"
  by (auto simp: topBits_def bitsMSB_def bit_simps)

lemma topBits_drop: "e \<le> r \<Longrightarrow> r \<le> 8 \<Longrightarrow> topBits (r - e) (push_bit e b) = drop e (topBits r b)"
  by (rule nth_equalityI) (auto simp: topBits_def bit_simps add.commute)

lemma bitsMSB_extend:
  assumes "f + e \<le> 8" "e \<le> r" "r \<le> 8"
  shows "bitsMSB (f + e) (push_bit e n OR drop_bit (8 - e) b) = bitsMSB f n @ take e (topBits r b)"
proof (rule nth_equalityI)
  fix i assume "i < length (bitsMSB (f + e) (push_bit e n OR drop_bit (8 - e) b))"
  with assms show "bitsMSB (f + e) (push_bit e n OR drop_bit (8 - e) b) ! i = (bitsMSB f n @ take e (topBits r b)) ! i"
    by (auto simp: bitsMSB_def topBits_def nth_append bit_simps dest: bit_imp_le_length)
qed (use assms in \<open>simp add: topBits_def\<close>)

lemma bitsMSB_inject:
  assumes "bitsMSB k v = bitsMSB k w" "take_bit k v = v" "take_bit k w = w"
  shows "v = w"
proof (rule bit_word_eqI)
  fix n
  have "bit v n = bit w n" if "n < k"
    using arg_cong [OF assms(1), of "\<lambda>l. l ! (k - Suc n)"] that by (simp add: bitsMSB_def)
  then show "bit v n \<longleftrightarrow> bit w n" using assms(2,3) by (metis bit_take_bit_iff)
qed

lemma take_bit_extend:
  assumes "take_bit f n = n" "f + e \<le> 8"
  shows "take_bit (f + e) (push_bit e n OR drop_bit (8 - e) b) = push_bit e n OR drop_bit (8 - e) (b :: u8)"
proof (rule bit_word_eqI)
  fix k assume "k < LENGTH(8)"
  have "\<not> bit n (k - e)" if "f + e \<le> k" using assms(1) that by (metis add_le_imp_le_diff bit_take_bit_iff not_le)
  with assms(2) show "bit (take_bit (f + e) (push_bit e n OR drop_bit (8 - e) b)) k \<longleftrightarrow>
      bit (push_bit e n OR drop_bit (8 - e) b) k"
    by (cases "f + e \<le> k") (auto simp: bit_simps not_le dest: bit_imp_le_length)
qed

text \<open>The bits that a state of the conversion holds, and its invariant.\<close>

fun bitsOf :: "nat \<Rightarrow> bytes \<times> u8 \<times> nat \<Rightarrow> bool list" where
  "bitsOf to (g, n, f) = concat (map (bitsMSB to) g) @ bitsMSB f n"

fun wfState :: "nat \<Rightarrow> bytes \<times> u8 \<times> nat \<Rightarrow> bool" where
  "wfState to (g, n, f) \<longleftrightarrow> f < to \<and> take_bit f n = n \<and> list_all (\<lambda>x. take_bit to x = x) g"

lemma convert_loop_bits:
  "to \<le> 8 \<Longrightarrow> r \<le> 8 \<Longrightarrow> wfState to s \<Longrightarrow>
     bitsOf to (convert_loop to b r s) = bitsOf to s @ topBits r b \<and> wfState to (convert_loop to b r s)"
proof (induction to b r s rule: convert_loop.induct)
  case (1 to b r g n f)
  show ?case
  proof (cases "r = 0")
    case True
    then show ?thesis using "1.prems" by (simp add: convert_loop.simps [of to b 0] topBits_def)
  next
    case False
    define e where "e = min r (to - f)"
    define n' where "n' = push_bit e n OR drop_bit (8 - e) b"
    define s' where "s' = (if f + e = to then (g @ [n'], 0, 0) else (g, n', f + e))"
    have e: "e \<le> r" "f + e \<le> to" "f < to" using "1.prems" by (auto simp: e_def)
    have step: "convert_loop to b r (g, n, f) = convert_loop to (push_bit e b) (r - e) s'"
      using False e(3) by (simp add: convert_loop.simps [of to b r] Let_def e_def n'_def s'_def)
    have bits: "bitsMSB (f + e) n' = bitsMSB f n @ take e (topBits r b)"
      unfolding n'_def using e "1.prems" by (intro bitsMSB_extend) auto
    have trim: "take_bit (f + e) n' = n'"
      unfolding n'_def using e "1.prems" by (intro take_bit_extend) auto
    have s': "bitsOf to s' = bitsOf to (g, n, f) @ take e (topBits r b)" "wfState to s'"
      using bits trim e "1.prems"(3) by (auto simp: s'_def bitsMSB_def [of 0])
    have "bitsOf to (convert_loop to (push_bit e b) (r - e) s') = bitsOf to s' @ topBits (r - e) (push_bit e b) \<and>
        wfState to (convert_loop to (push_bit e b) (r - e) s')"
      using "1.IH" [OF _ e_def n'_def refl refl refl] False e "1.prems" s'(2) by (simp add: s'_def)
    with s' e "1.prems"(2) show ?thesis by (simp add: step topBits_drop)
  qed
qed

lemma convert_fold_bits:
  assumes "to \<le> 8" "from \<le> 8" "wfState to s"
  shows "bitsOf to (foldl (\<lambda>s b. convert_loop to (push_bit (8 - from) b) from s) s data) =
      bitsOf to s @ concat (map (bitsMSB from) data) \<and>
    wfState to (foldl (\<lambda>s b. convert_loop to (push_bit (8 - from) b) from s) s data)"
  using assms(3)
proof (induction data arbitrary: s)
  case (Cons b data)
  note c = convert_loop_bits [OF assms(1,2) Cons.prems, of "push_bit (8 - from) b"]
  show ?case using c Cons.IH [OF conjunct2 [OF c]] assms(2) by (simp add: topBits_shift)
qed simp

lemma bitsMSB_push:
  assumes "f \<le> k" "k \<le> 8"
  shows "bitsMSB k (push_bit (k - f) n) = bitsMSB f n @ replicate (k - f) False"
proof (rule nth_equalityI)
  fix i assume "i < length (bitsMSB k (push_bit (k - f) n))"
  then have i: "i < k" by simp
  then have "k - f \<le> k - Suc i \<longleftrightarrow> i < f" "i < f \<Longrightarrow> k - Suc i - (k - f) = f - Suc i" using assms(1) by auto
  moreover have "k - Suc i < 8" using i assms(2) by simp
  ultimately show "bitsMSB k (push_bit (k - f) n) ! i = (bitsMSB f n @ replicate (k - f) False) ! i"
    using i assms by (cases "i < f") (simp_all add: bitsMSB_def nth_append bit_push_bit_iff)
qed (use assms in simp)

lemma take_bit_push:
  assumes "take_bit f n = n" "f \<le> k"
  shows "take_bit k (push_bit (k - f) n) = push_bit (k - f) (n :: u8)"
proof -
  have "take_bit k (push_bit (k - f) n) = push_bit (k - f) (take_bit (k - (k - f)) n)" by (rule take_bit_push_bit)
  with assms show ?thesis by simp
qed

text \<open>With padding, a conversion writes the bits of its input and fewer than a group of zeros.\<close>

lemma ConvertBits_pad:
  assumes "1 \<le> from" "from \<le> 8" "1 \<le> to" "to \<le> 8"
  obtains out z where "ConvertBits data from to True = Inr out" "z < to"
    "concat (map (bitsMSB to) out) = concat (map (bitsMSB from) data) @ replicate z False"
    "list_all (\<lambda>x. take_bit to x = x) out"
proof -
  obtain g n f where s: "foldl (\<lambda>s b. convert_loop to (push_bit (8 - from) b) from s) ([], 0, 0) data = (g, n, f)"
    by (cases rule: prod_cases3)
  have c: "concat (map (bitsMSB to) g) @ bitsMSB f n = concat (map (bitsMSB from) data)" "f < to" "take_bit f n = n"
      "list_all (\<lambda>x. take_bit to x = x) g"
    using convert_fold_bits [of to "from" "([], 0, 0)" data] assms by (auto simp: s bitsMSB_def [of 0])
  show thesis
  proof (cases "f = 0")
    case True
    show thesis by (rule that [of g 0]) (use c assms True s in \<open>auto simp: ConvertBits_def bitsMSB_def [of 0]\<close>)
  next
    case False
    show thesis
      by (rule that [of "g @ [push_bit (to - f) n]" "to - f"])
        (use c assms False s in \<open>simp_all add: ConvertBits_def bitsMSB_push take_bit_push\<close>)
  qed
qed

lemma concat_bits_inject:
  assumes "concat (map (bitsMSB k) xs) = concat (map (bitsMSB k) ys)" "length xs = length ys"
    "list_all (\<lambda>x. take_bit k x = x) xs" "list_all (\<lambda>x. take_bit k x = x) ys"
  shows "xs = ys"
  using assms(2,1,3,4)
  by (induction xs ys rule: list_induct2) (auto dest: bitsMSB_inject)

lemma length_concat_bits [simp]: "length (concat (map (bitsMSB k) xs)) = length xs * k"
  by (induction xs) simp_all

lemma bitsMSB_zero: "bitsMSB f n = replicate f False \<Longrightarrow> take_bit f n = n \<Longrightarrow> n = 0"
  by (rule bitsMSB_inject [of f]) (auto simp: bitsMSB_def map_replicate_const)

lemma append_split: "xs @ us = ys @ vs \<Longrightarrow> length us = length vs \<Longrightarrow> xs = ys \<and> us = vs"
  by simp

lemma take_bit_8: "take_bit 8 (x :: u8) = x"
  by (rule bit_word_eqI) (simp add: bit_take_bit_iff)

lemma ConvertBits_unpad:
  assumes "1 \<le> from" "from \<le> 8" "concat (map (bitsMSB from) data) = concat (map (bitsMSB 8) out) @ replicate z False"
    "z \<le> 4"
  shows "ConvertBits data from 8 False = Inr out"
proof -
  obtain g n f where s: "foldl (\<lambda>s b. convert_loop 8 (push_bit (8 - from) b) from s) ([], 0, 0) data = (g, n, f)"
    by (cases rule: prod_cases3)
  have c: "concat (map (bitsMSB 8) g) @ bitsMSB f n = concat (map (bitsMSB 8) out) @ replicate z False"
      and f: "f < 8" "take_bit f n = n"
    using convert_fold_bits [of 8 "from" "([], 0, 0)" data] assms by (auto simp: s bitsMSB_def [of 0])
  have "length g * 8 + f = length out * 8 + z" using arg_cong [OF c, of length] by simp
  then have "(length g * 8 + f) div 8 = (length out * 8 + z) div 8" "(length g * 8 + f) mod 8 = (length out * 8 + z) mod 8" by simp_all
  then have l: "length g = length out" "f = z" using f(1) assms(4) by (simp_all add: mod_mult_self4)
  have eqs: "concat (map (bitsMSB 8) g) = concat (map (bitsMSB 8) out) \<and> bitsMSB f n = replicate z False"
    by (rule append_split [OF c]) (simp only: length_bitsMSB length_replicate l(2))
  have "list_all (\<lambda>x. take_bit 8 x = x) xs" for xs :: bytes by (simp only: list_all_iff take_bit_8) blast
  then have "g = out" using concat_bits_inject [OF conjunct1 [OF eqs] l(1)] by blast
  moreover have "n = 0" using bitsMSB_zero [OF _ f(2)] eqs l(2) by blast
  ultimately show ?thesis using s assms(1,2,4) l(2) by (simp add: ConvertBits_def)
qed

lemma ConvertBits_roundtrip:
  obtains out where "ConvertBits data 8 5 True = Inr out" "ConvertBits out 5 8 False = Inr data"
    "list_all (\<lambda>x. take_bit 5 x = x) out" "length out = (length data * 8 + 4) div 5"
proof -
  obtain out z where o: "ConvertBits data 8 5 True = Inr out" "z < 5"
      "concat (map (bitsMSB 5) out) = concat (map (bitsMSB 8) data) @ replicate z False"
      "list_all (\<lambda>x. take_bit 5 x = x) out"
    using ConvertBits_pad [of 8 5 data] by auto
  have "ConvertBits out 5 8 False = Inr data" by (rule ConvertBits_unpad [OF _ _ o(3)]) (use o(2) in auto)
  moreover have "length out * 5 = length data * 8 + z" using arg_cong [OF o(3), of length] by simp
  then have "length out = (length data * 8 + 4) div 5" using o(2) by linarith
  ultimately show thesis using that o by blast
qed

section \<open>The checksum of an encoding verifies\<close>

definition feedback :: "nat \<Rightarrow> int \<Rightarrow> int" where
  "feedback i c = (if bit c (25 + i) then gen ! i else 0)"

lemma polymod_step_eq:
  "polymod_step chk v = push_bit 5 (take_bit 25 chk) XOR v XOR feedback 0 chk XOR feedback 1 chk XOR
     feedback 2 chk XOR feedback 3 chk XOR feedback 4 chk"
proof -
  have m: "chk AND 0x1ffffff = take_bit 25 chk" using take_bit_eq_mask [of 25 chk] by (simp add: mask_eq_exp_minus_1)
  have b: "drop_bit i (drop_bit 25 chk) AND 1 = 1 \<longleftrightarrow> bit chk (25 + i)" for i
    by (simp add: and_one_eq bit_iff_odd_drop_bit odd_iff_mod_2_eq_one add.commute)
  have f: "(if bit chk (25 + i) then x XOR gen ! i else x) = x XOR feedback i chk" for i x by (simp add: feedback_def)
  have l: "[0..<5] = [0, 1, 2, 3, 4]" by (simp add: upt_rec)
  show ?thesis unfolding polymod_step_def Let_def m b f l by (simp add: ac_simps)
qed

lemma feedback_xor: "feedback i (a XOR b) = feedback i a XOR feedback i b"
  by (simp add: feedback_def bit_xor_iff)

lemma polymod_step_xor: "polymod_step (a XOR b) (v XOR w) = polymod_step a v XOR polymod_step b w"
  by (simp add: polymod_step_eq feedback_xor push_bit_xor take_bit_xor ac_simps)

lemma polymod_step_small: "take_bit 25 c = c \<Longrightarrow> polymod_step c v = push_bit 5 c XOR v"
proof -
  assume c: "take_bit 25 c = c"
  have "feedback i c = 0" for i
    unfolding feedback_def by (subst c [symmetric]) (simp add: bit_take_bit_iff)
  with c show ?thesis by (simp add: polymod_step_eq)
qed

lemma polymod_step_bound: "take_bit 30 v = v \<Longrightarrow> take_bit 30 (polymod_step c v) = polymod_step c v"
proof -
  assume v: "take_bit 30 v = v"
  have "take_bit 30 (feedback i c) = feedback i c" if "i < 5" for i
  proof -
    have "list_all (\<lambda>g. take_bit 30 g = g) gen" by (simp add: gen_def)
    moreover have "length gen = 5" by (simp add: gen_def)
    ultimately show ?thesis using that by (simp add: feedback_def list_all_length)
  qed
  moreover have "take_bit 30 (push_bit 5 (take_bit 25 c)) = push_bit 5 (take_bit 25 c)" by (simp add: take_bit_push_bit)
  ultimately show ?thesis using v by (simp add: polymod_step_eq take_bit_xor)
qed

lemma polymod_fold_xor:
  "length vs = length ws \<Longrightarrow>
   foldl polymod_step (a XOR b) (map2 (XOR) vs ws) = foldl polymod_step a vs XOR foldl polymod_step b ws"
  by (induction vs ws arbitrary: a b rule: list_induct2) (simp_all add: polymod_step_xor)

lemma push_drop_take: "push_bit 5 (drop_bit 5 x) XOR take_bit 5 x = (x :: int)"
  by (rule bit_eqI) (auto simp: bit_simps)

definition chunk :: "nat \<Rightarrow> int \<Rightarrow> int" where
  "chunk i Q = take_bit 5 (drop_bit (5 * (5 - i)) Q)"

lemma chunk_step:
  assumes "take_bit 30 Q = Q" "i < 6"
  shows "polymod_step (drop_bit (5 * (6 - i)) Q) (chunk i Q) = drop_bit (5 * (5 - i)) Q"
proof -
  define m where "m = 5 * (5 - i)"
  have m: "5 * (6 - i) = m + 5" using assms(2) by (simp add: m_def)
  have "take_bit (30 + m) (take_bit 30 Q) = take_bit 30 Q" by (simp only: take_bit_take_bit) simp
  then have "take_bit (30 + m) Q = Q" by (simp only: assms(1))
  then have "take_bit 25 (drop_bit (m + 5) Q) = drop_bit (m + 5) Q" by (simp add: take_bit_drop_bit ac_simps)
  then have "polymod_step (drop_bit (m + 5) Q) (chunk i Q) = push_bit 5 (drop_bit 5 (drop_bit m Q)) XOR take_bit 5 (drop_bit m Q)"
    by (simp add: polymod_step_small chunk_def drop_bit_drop_bit add.commute flip: m_def)
  then show ?thesis by (simp only: m push_drop_take flip: m_def)
qed

lemma chunks_fold:
  assumes "take_bit 30 Q = Q"
  shows "foldl polymod_step 0 (map (\<lambda>i. chunk i Q) [0..<6]) = Q"
proof -
  have l: "[0..<6] = [0, 1, 2, 3, 4, 5]" by (simp add: upt_rec)
  have "drop_bit 30 Q = 0" by (subst assms [symmetric]) (simp add: drop_bit_take_bit)
  then show ?thesis using chunk_step [OF assms, of 0] chunk_step [OF assms, of 1] chunk_step [OF assms, of 2]
      chunk_step [OF assms, of 3] chunk_step [OF assms, of 4] chunk_step [OF assms, of 5] by (simp add: l)
qed

lemma checksum_verifies: "bech32VerifyChecksum hrp (data @ bech32Checksum hrp data)"
proof -
  define c where "c = foldl polymod_step 1 (bech32HrpExpand hrp @ map uint data)"
  define P where "P = foldl polymod_step c [0, 0, 0, 0, 0, 0]"
  have chk: "map uint (bech32Checksum hrp data) = map (\<lambda>i. chunk i (P XOR 1)) [0..<6]"
  proof -
    have "uint (word_of_int (x AND 31) :: u8) = take_bit 5 x" for x
      using take_bit_eq_mask [of 5 x] by (simp add: uint_word_of_int mask_eq_exp_minus_1 min_def flip: take_bit_eq_mod) 
    then show ?thesis by (simp add: bech32Checksum_def bech32Polymod_def Let_def chunk_def c_def P_def)
  qed
  have "take_bit 30 P = P" unfolding P_def by (simp add: polymod_step_bound)
  then have Q: "take_bit 30 (P XOR 1) = P XOR 1" by (simp add: take_bit_xor)
  have "map2 (XOR) [0, 0, 0, 0, 0, 0] cs = cs" if "length cs = 6" for cs :: "int list"
    using that by (auto simp: numeral_eq_Suc length_Suc_conv)
  then have "foldl polymod_step (c XOR 0) (map (\<lambda>i. chunk i (P XOR 1)) [0..<6]) = P XOR (P XOR 1)"
    using polymod_fold_xor [of "[0, 0, 0, 0, 0, 0]" "map (\<lambda>i. chunk i (P XOR 1)) [0..<6]" c 0]
    by (simp only: P_def [symmetric] chunks_fold [OF Q] length_map length_upt) simp
  then show ?thesis by (simp add: bech32VerifyChecksum_def bech32Polymod_def chk c_def flip: xor.assoc)
qed

section \<open>Decoding an encoding\<close>

lemma length_charset: "length charset = 32"
  by (simp add: charset_def str_def)

lemma charset_index: "n < 32 \<Longrightarrow> indexByte charset (charset ! n) = Some n"
proof -
  have "list_all (\<lambda>n. indexByte charset (charset ! n) = Some n) [0..<32]" by code_simp
  then show "n < 32 \<Longrightarrow> ?thesis" by (simp add: list_all_iff)
qed

lemma charset_chars:
  assumes "c \<in> set charset"
  shows "33 \<le> c" "c \<le> 126" "\<not> (0x41 \<le> c \<and> c \<le> 0x5a)" "c \<noteq> 0x31"
proof -
  have "list_all (\<lambda>c. 33 \<le> c \<and> c \<le> 126 \<and> \<not> (0x41 \<le> c \<and> c \<le> 0x5a) \<and> c \<noteq> 0x31) charset" by code_simp
  then show "33 \<le> c" "c \<le> 126" "\<not> (0x41 \<le> c \<and> c \<le> 0x5a)" "c \<noteq> 0x31" using assms by (auto simp: list_all_iff)
qed

lemma toChars_ok:
  assumes "list_all (\<lambda>x. unat x < 32) bs"
  obtains cs where "toChars bs = Inr cs" "toBytes cs = Inr bs" "set cs \<subseteq> set charset" "length cs = length bs"
proof -
  have "\<exists>cs. toChars bs = Inr cs \<and> toBytes cs = Inr bs \<and> set cs \<subseteq> set charset \<and> length cs = length bs"
    using assms by (induction bs) (auto simp: length_charset charset_index)
  then show thesis using that by blast
qed

lemma checksum_small: "list_all (\<lambda>x. unat x < 32) (bech32Checksum hrp data)" "length (bech32Checksum hrp data) = 6"
proof -
  have "unat (word_of_int (x AND 31) :: u8) < 32" for x
    using take_bit_eq_mask [of 5 x] take_bit_int_less_exp [of 5 x] take_bit_nonnegative [of 5 x]
    by (simp add: mask_eq_exp_minus_1 unat_eq_nat_uint uint_word_of_int nat_less_iff)
  then show "list_all (\<lambda>x. unat x < 32) (bech32Checksum hrp data)" "length (bech32Checksum hrp data) = 6"
    by (simp_all add: bech32Checksum_def list_all_iff Let_def)
qed

text \<open>A human-readable part that an encoding keeps: printable, not empty and without capitals.\<close>

definition hrp_ok :: "bytes \<Rightarrow> bool" where
  "hrp_ok hrp \<longleftrightarrow> hrp \<noteq> [] \<and> list_all (\<lambda>c. 33 \<le> c \<and> c \<le> 126 \<and> \<not> (0x41 \<le> c \<and> c \<le> 0x5a)) hrp"

lemma toLower_id: "list_all (\<lambda>c. \<not> (0x41 \<le> c \<and> c \<le> 0x5a)) s \<Longrightarrow> toLower s = s"
  by (auto simp: toLower_def list_all_iff intro: map_idI)

lemma lastIndexByte_sep: "0x31 \<notin> set cs \<Longrightarrow> lastIndexByte (hrp @ [0x31] @ cs) 0x31 = int (length hrp)"
proof -
  assume "0x31 \<notin> set cs"
  then have "takeWhile (\<lambda>x. x \<noteq> 0x31) (rev cs @ 0x31 # rev hrp) = rev cs" by (auto simp: takeWhile_append)
  then show ?thesis by (simp add: lastIndexByte_def)
qed

lemma Encode32_Decode32:
  assumes "hrp_ok hrp" "list_all (\<lambda>x. unat x < 32) data" "length hrp + length data \<le> 83"
  obtains s where "Encode32 hrp data = Inr s" "Decode32 s = Inr (hrp, data)" "toLower s = s"
    "\<exists>cs. s = hrp @ [0x31] @ cs \<and> set cs \<subseteq> set charset \<and> length cs = length data + 6"
proof -
  let ?d = "data @ bech32Checksum hrp data"
  obtain cs where cs: "toChars ?d = Inr cs" "toBytes cs = Inr ?d" "set cs \<subseteq> set charset" "length cs = length ?d"
    by (rule toChars_ok [of ?d]) (use assms(2) checksum_small in auto)
  define s where "s = hrp @ [0x31] @ cs"
  have enc: "Encode32 hrp data = Inr s" by (simp add: Encode32_def cs s_def)
  have "list_all (\<lambda>c. 33 \<le> c \<and> c \<le> 126 \<and> \<not> (0x41 \<le> c \<and> c \<le> 0x5a)) s"
    using assms(1) charset_chars cs(3) by (auto simp: s_def hrp_ok_def list_all_iff)
  then have low: "toLower s = s" and chars: "\<not> list_ex (\<lambda>c. c < 33 \<or> c > 126) s"
    by (auto simp: list_all_iff list_ex_iff not_less intro!: toLower_id)
  have sep: "lastIndexByte s 0x31 = int (length hrp)"
    unfolding s_def by (rule lastIndexByte_sep) (use charset_chars(4) [of "0x31"] cs(3) in blast)
  have len: "length s = length hrp + length data + 7" "0 < length hrp"
    using assms(1) by (simp_all add: s_def cs(4) checksum_small hrp_ok_def)
  have "Decode32 s = Inr (hrp, data)"
    using len assms(3) cs(2) checksum_verifies [of hrp data]
    by (simp add: Decode32_def low chars sep Let_def) (simp add: s_def checksum_small)
  then show thesis using that [OF enc _ low] s_def cs(3,4) checksum_small(2) by auto
qed

section \<open>Encoding what was decoded\<close>

lemma drop_push: "drop_bit k (push_bit k a) = (a :: int)"
  by (rule bit_eqI) (simp add: bit_simps)

lemma pack_step:
  assumes "take_bit 5 c = c" "take_bit n a = a" "n \<le> 25"
  shows "take_bit 5 (polymod_step a c) = c" "drop_bit 5 (polymod_step a c) = a"
    "take_bit (n + 5) (polymod_step a c) = polymod_step a c"
proof -
  have "take_bit 25 (take_bit n a) = take_bit n a" using assms(3) by (simp only: take_bit_take_bit min_absorb2)
  then have "take_bit 25 a = a" by (simp only: assms(2))
  then have p: "polymod_step a c = push_bit 5 a XOR c" by (rule polymod_step_small)
  have d: "drop_bit 5 c = 0" by (subst assms(1) [symmetric]) (simp add: drop_bit_take_bit)
  show "take_bit 5 (polymod_step a c) = c" "drop_bit 5 (polymod_step a c) = a"
    by (simp_all add: p take_bit_xor take_bit_push_bit assms(1) drop_bit_xor d drop_push)
  have "take_bit (n + 5) (take_bit 5 c) = take_bit 5 c" by (simp only: take_bit_take_bit) simp
  then have "take_bit (n + 5) c = c" by (simp only: assms(1))
  then show "take_bit (n + 5) (polymod_step a c) = polymod_step a c"
    by (simp add: p take_bit_xor take_bit_push_bit assms(2))
qed

lemma pack_chunks:
  assumes "list_all (\<lambda>c. take_bit 5 c = c) cs" "length cs \<le> 6"
  shows "take_bit (5 * length cs) (foldl polymod_step 0 cs) = foldl polymod_step 0 cs \<and>
    (\<forall>i < length cs. take_bit 5 (drop_bit (5 * (length cs - Suc i)) (foldl polymod_step 0 cs)) = cs ! i)"
  using assms
proof (induction cs rule: rev_induct)
  case (snoc c cs)
  define a where "a = foldl polymod_step 0 cs"
  have IH: "take_bit (5 * length cs) a = a" "\<And>i. i < length cs \<Longrightarrow> take_bit 5 (drop_bit (5 * (length cs - Suc i)) a) = cs ! i"
    using snoc by (simp_all add: a_def)
  have c: "take_bit 5 c = c" "5 * length cs \<le> 25" using snoc.prems by auto
  note ps = pack_step [OF c(1) IH(1) c(2)]
  have "take_bit 5 (drop_bit (5 * (Suc (length cs) - Suc i)) (polymod_step a c)) = (cs @ [c]) ! i" if "i < Suc (length cs)" for i
  proof (cases "i = length cs")
    case False
    then have "5 * (Suc (length cs) - Suc i) = 5 * (length cs - Suc i) + 5" using that by simp
    then have "drop_bit (5 * (Suc (length cs) - Suc i)) (polymod_step a c) = drop_bit (5 * (length cs - Suc i)) a"
      by (simp only: flip: drop_bit_drop_bit) (simp only: ps(2))
    with False that IH(2) [of i] show ?thesis by (simp add: nth_append)
  qed (simp add: ps(1))
  moreover have "take_bit (5 * length (cs @ [c])) (polymod_step a c) = polymod_step a c" using ps(3) by (simp add: add.commute)
  ultimately show ?case by (simp flip: a_def)
qed simp

lemma checksum_unique:
  assumes "bech32VerifyChecksum hrp (data @ c)" "length c = 6" "list_all (\<lambda>x. unat x < 32) c"
  shows "c = bech32Checksum hrp data"
proof -
  define k where "k = foldl polymod_step 1 (bech32HrpExpand hrp @ map uint data)"
  define P where "P = foldl polymod_step k [0, 0, 0, 0, 0, 0]"
  define Q where "Q = foldl polymod_step 0 (map uint c)"
  have "uint x < 32" if "unat x < 32" for x :: u8
  proof -
    have "uint x = int (unat x)" by simp
    with that show ?thesis by linarith
  qed
  then have small: "list_all (\<lambda>c. take_bit 5 c = c) (map uint c)"
    using assms(3) by (auto simp: list_all_iff take_bit_int_eq_self)
  have "foldl polymod_step k (map uint c) = 1" using assms(1) by (simp add: bech32VerifyChecksum_def bech32Polymod_def k_def)
  moreover have "map2 (XOR) [0, 0, 0, 0, 0, 0] (map uint c) = map uint c"
    using assms(2) by (auto simp: numeral_eq_Suc length_Suc_conv)
  then have "foldl polymod_step (k XOR 0) (map uint c) = P XOR Q"
    using polymod_fold_xor [of "[0, 0, 0, 0, 0, 0]" "map uint c" k 0] assms(2) by (simp only: P_def Q_def) simp
  ultimately have PQ: "P XOR Q = 1" by simp
  have "P XOR 1 = P XOR (P XOR Q)" by (simp only: PQ)
  then have "P XOR 1 = Q" by (simp flip: xor.assoc)
  moreover have "x AND 31 = take_bit 5 x" for x :: int using take_bit_eq_mask [of 5 x] by (simp add: mask_eq_exp_minus_1)
  ultimately have "bech32Checksum hrp data = map (\<lambda>i. word_of_int (take_bit 5 (drop_bit (5 * (5 - i)) Q))) [0..<6]"
    by (simp add: bech32Checksum_def bech32Polymod_def Let_def P_def k_def)
  also have "\<dots> = map (\<lambda>i. c ! i) [0..<6]"
    using pack_chunks [OF small] assms(2) by (auto simp flip: Q_def)
  also have "\<dots> = c" using assms(2) map_nth [of c] by simp
  finally show ?thesis ..
qed

lemma indexByte_Some: "indexByte xs c = Some n \<Longrightarrow> n < length xs \<and> xs ! n = c"
  by (induction xs arbitrary: n) (auto split: if_splits)

lemma toBytes_ok: "toBytes cs = Inr bs \<Longrightarrow> toChars bs = Inr cs \<and> list_all (\<lambda>x. unat x < 32) bs \<and> length bs = length cs"
proof (induction cs arbitrary: bs)
  case (Cons c cs)
  then obtain n bs' where n: "indexByte charset c = Some n" "toBytes cs = Inr bs'" "bs = of_nat n # bs'"
    by (auto simp: bindE_Inr_iff split: option.splits)
  then have "unat (of_nat n :: u8) = n" "n < 32" "charset ! n = c" using indexByte_Some [OF n(1)] by (simp_all add: length_charset unat_of_nat)
  with n Cons.IH [OF n(2)] show ?case by (simp add: length_charset)
qed simp

lemma lastIndexByte_split:
  assumes "lastIndexByte s c = int n"
  shows "s = take n s @ [c] @ drop (n + 1) s"
proof -
  define t where "t = takeWhile (\<lambda>x. x \<noteq> c) (rev s)"
  have n: "n = length s - Suc (length t)" "length t < length s" using assms by (auto simp: lastIndexByte_def t_def)
  then have "rev s ! length t = c" unfolding t_def using nth_length_takeWhile [of "\<lambda>x. x \<noteq> c" "rev s"] by simp
  then have "s ! n = c" using n by (simp add: rev_nth)
  then show ?thesis using n id_take_nth_drop [of n s] by simp
qed

lemma Decode32_Encode32:
  assumes "Decode32 s = Inr (hrp, data)"
  shows "Encode32 hrp data = Inr (toLower s)"
proof -
  define t n where "t = toLower s" and "n = nat (lastIndexByte t 0x31)"
  obtain d where d: "\<not> lastIndexByte t 0x31 < 1" "lastIndexByte t 0x31 + 7 \<le> int (length t)" "hrp = take n t"
      "toBytes (drop (n + 1) t) = Inr d" "bech32VerifyChecksum hrp d" "data = take (length d - 6) d"
    using assms by (auto simp: Decode32_def Let_def bindE_Inr_iff t_def n_def split: if_splits)
  have t: "t = hrp @ [0x31] @ drop (n + 1) t"
    using lastIndexByte_split [of t "0x31" n] d(1,3) by (simp add: n_def)
  note b = toBytes_ok [OF d(4)]
  define c where "c = drop (length d - 6) d"
  have dc: "d = data @ c" by (simp add: d(6) c_def)
  have "length d = length t - (n + 1)" using b by simp
  then have l: "length d \<ge> 6" using d(1,2) by (simp add: n_def)
  have "c = bech32Checksum hrp data"
  proof (rule checksum_unique)
    show "bech32VerifyChecksum hrp (data @ c)" using d(5) by (simp only: dc [symmetric])
    show "length c = 6" using l by (simp add: c_def)
    show "list_all (\<lambda>x. unat x < 32) c" using b in_set_dropD by (fastforce simp: c_def list_all_iff)
  qed
  then have "d = data @ bech32Checksum hrp data" using dc by (simp only:)
  then have "Encode32 hrp data = bindE (toChars d) (\<lambda>cs. Inr (hrp @ [0x31] @ cs))" by (simp only: Encode32_def)
  then have "Encode32 hrp data = Inr (hrp @ [0x31] @ drop (n + 1) t)" using b by simp
  with t show ?thesis by (simp flip: t_def)
qed

section \<open>Properties\<close>

text \<open>C21. The bech32 codec is exact. Within the length limit, a printable human-readable part without
  capitals and data of five-bit groups can be encoded and the string decodes to them; conversely,
  whatever string decodes is, up to the case of its letters, the encoding of the result.\<close>

theorem bech32_exact:
  "(hrp_ok hrp \<and> list_all (\<lambda>x. unat x < 32) data \<and> length hrp + length data \<le> 83 \<longrightarrow>
      bindE (Encode32 hrp data) Decode32 = Inr (hrp, data)) \<and>
   (Decode32 s = Inr (hrp, data) \<longrightarrow> Encode32 hrp data = Inr (toLower s))"
proof (intro conjI impI)
  assume "hrp_ok hrp \<and> list_all (\<lambda>x. unat x < 32) data \<and> length hrp + length data \<le> 83"
  note a = this [THEN conjunct1] this [THEN conjunct2, THEN conjunct1] this [THEN conjunct2, THEN conjunct2]
  obtain t where "Encode32 hrp data = Inr t" "Decode32 t = Inr (hrp, data)" by (rule Encode32_Decode32 [OF a])
  then show "bindE (Encode32 hrp data) Decode32 = Inr (hrp, data)" by simp
qed (rule Decode32_Encode32)

theorem bech32_exact_witness:
  "bindE (Encode32 (str ''bc'') [0, 14, 20, 15]) Decode32 = Inr (str ''bc'', [0, 14, 20, 15]) \<and>
   Encode32 (str ''a'') [] = Inr (str ''a12uel5l'')"
proof -
  have "hrp_ok (str ''bc'')" "list_all (\<lambda>x. unat x < 32) [0, 14, 20, 15 :: u8]" by code_simp+
  then have "bindE (Encode32 (str ''bc'') [0, 14, 20, 15]) Decode32 = Inr (str ''bc'', [0, 14, 20, 15])"
    using bech32_exact [of "str ''bc''" "[0, 14, 20, 15]"] by (simp add: str_def)
  moreover have "Decode32 (str ''A12UEL5L'') = Inr (str ''a'', [])" by code_simp
  then have "Encode32 (str ''a'') [] = Inr (toLower (str ''A12UEL5L''))" using bech32_exact [of "str ''a''" "[]"] by blast
  moreover have "toLower (str ''A12UEL5L'') = str ''a12uel5l''" by code_simp
  ultimately show ?thesis by simp
qed

end
