(* ===== verification/Address.thy ===== *)
theory Address
  imports Compress Base58 Bech32
begin

text \<open>
  Payment addresses (\<^verbatim>\<open>jaxutil/address.go\<close>) over the base58 and bech32 codecs, the three
  serialisations of a public key (\<^verbatim>\<open>btcec/pubkey.go\<close>) and the address fields of the network
  parameters (\<^verbatim>\<open>types/chaincfg\<close>). The interface \<^verbatim>\<open>Address\<close> with its six implementations is one
  datatype. The set of registered bech32 prefixes, a global map filled by \<^verbatim>\<open>Register\<close>, is the
  argument \<open>reg\<close>; ASCII letter case is enough for the human-readable parts of the networks. The
  lemmas show that an address of the main network survives its string encoding.
\<close>

section \<open>Network parameters\<close>

record Params =
  Bech32HRPSegwit :: bytes
  PubKeyHashAddrID :: u8
  ScriptHashAddrID :: u8
  HTLCAddressID :: u8

definition MainNetParams :: Params where
  "MainNetParams = \<lparr>Bech32HRPSegwit = str ''bc'', PubKeyHashAddrID = 0x00, ScriptHashAddrID = 0x05,
     HTLCAddressID = 0x05\<rparr>"

definition IsBech32SegwitPrefix :: "bytes list \<Rightarrow> bytes \<Rightarrow> bool" where
  "IsBech32SegwitPrefix reg prefix \<longleftrightarrow> toLower prefix \<in> set reg"

section \<open>Public keys\<close>

datatype PubKeyFormat = PKFUncompressed | PKFCompressed | PKFHybrid

definition isOdd :: "int \<Rightarrow> bool" where
  "isOdd a \<longleftrightarrow> bit a 0"

definition SerializeCompressed :: "pubkey \<Rightarrow> bytes" where
  "SerializeCompressed p =
     (case p of (x, y) \<Rightarrow> paddedAppend 32 [if isOdd y then 0x2 OR 0x1 else 0x2] (bigBytes x))"

definition SerializeHybrid :: "pubkey \<Rightarrow> bytes" where
  "SerializeHybrid p =
     (case p of (x, y) \<Rightarrow>
        paddedAppend 32 (paddedAppend 32 [if isOdd y then 0x6 OR 0x1 else 0x6] (bigBytes x)) (bigBytes y))"

definition Hash160 :: "env \<Rightarrow> bytes \<Rightarrow> bytes" where
  "Hash160 e buf = ripemd160 e (sha256 e buf)"

section \<open>Hexadecimal strings\<close>

text \<open>\<^verbatim>\<open>hex.EncodeToString\<close> and \<^verbatim>\<open>hex.DecodeString\<close> of the standard library.\<close>

definition hextable :: bytes where
  "hextable = str ''0123456789abcdef''"

definition hexEncode :: "bytes \<Rightarrow> bytes" where
  "hexEncode bs = concat (map (\<lambda>b. [hextable ! (unat b div 16), hextable ! (unat b mod 16)]) bs)"

definition fromHexChar :: "u8 \<Rightarrow> nat option" where
  "fromHexChar c =
     (if 0x30 \<le> c \<and> c \<le> 0x39 then Some (unat (c - 0x30))
      else if 0x61 \<le> c \<and> c \<le> 0x66 then Some (unat (c - 0x61) + 10)
      else if 0x41 \<le> c \<and> c \<le> 0x46 then Some (unat (c - 0x41) + 10)
      else None)"

fun hexDecode :: "bytes \<Rightarrow> bytes option" where
  "hexDecode [] = Some []"
| "hexDecode [c] = None"
| "hexDecode (a # b # cs) =
     (case (fromHexChar a, fromHexChar b, hexDecode cs) of
        (Some x, Some y, Some ds) \<Rightarrow> Some (of_nat (16 * x + y) # ds)
      | _ \<Rightarrow> None)"

section \<open>Addresses\<close>

datatype Address =
    AddressPubKeyHash bytes u8
  | AddressScriptHash bytes u8
  | AddressPubKey PubKeyFormat pubkey u8
  | AddressWitnessPubKeyHash bytes u8 bytes
  | AddressWitnessScriptHash bytes u8 bytes
  | HTLCAddress bytes u8

datatype address_err = ErrChecksumMismatch | ErrUnknownAddressType | ErrAddressCollision
  | UnsupportedWitnessVerError u8 | UnsupportedWitnessProgLenError nat | WrongLength | UnknownFormat
  | UnknownSize | InvalidHex | InvalidPubKey | InvalidSegWit | Bech32Error bech32_err

type_synonym 'a address_result = "address_err failure + 'a"

definition liftBech32 :: "'a bech32_result \<Rightarrow> 'a address_result" where
  "liftBech32 m = (case m of Inl (Err x) \<Rightarrow> Inl (Err (Bech32Error x)) | Inl Panic \<Rightarrow> Inl Panic | Inr a \<Rightarrow> Inr a)"

definition newAddressPubKeyHash :: "bytes \<Rightarrow> u8 \<Rightarrow> Address address_result" where
  "newAddressPubKeyHash pkHash netID =
     (if length pkHash \<noteq> 20 then Inl (Err WrongLength) else Inr (AddressPubKeyHash pkHash netID))"

definition NewAddressPubKeyHash :: "bytes \<Rightarrow> Params \<Rightarrow> Address address_result" where
  "NewAddressPubKeyHash pkHash net = newAddressPubKeyHash pkHash (PubKeyHashAddrID net)"

definition newAddressScriptHashFromHash :: "bytes \<Rightarrow> u8 \<Rightarrow> Address address_result" where
  "newAddressScriptHashFromHash scriptHash netID =
     (if length scriptHash \<noteq> 20 then Inl (Err WrongLength) else Inr (AddressScriptHash scriptHash netID))"

definition NewAddressScriptHash :: "env \<Rightarrow> bytes \<Rightarrow> Params \<Rightarrow> Address address_result" where
  "NewAddressScriptHash e serializedScript net =
     newAddressScriptHashFromHash (Hash160 e serializedScript) (ScriptHashAddrID net)"

definition NewAddressScriptHashFromHash :: "bytes \<Rightarrow> Params \<Rightarrow> Address address_result" where
  "NewAddressScriptHashFromHash scriptHash net = newAddressScriptHashFromHash scriptHash (ScriptHashAddrID net)"

definition NewAddressPubKey :: "env \<Rightarrow> bytes \<Rightarrow> Params \<Rightarrow> Address address_result" where
  "NewAddressPubKey e serializedPubKey net =
     (case ParsePubKey e serializedPubKey of
        None \<Rightarrow> Inl (Err InvalidPubKey)
      | Some pubKey \<Rightarrow>
          if serializedPubKey = [] then Inl Panic
          else
            let b = serializedPubKey ! 0;
                pkFormat = (if b = 0x02 \<or> b = 0x03 then PKFCompressed
                            else if b = 0x06 \<or> b = 0x07 then PKFHybrid else PKFUncompressed)
            in Inr (AddressPubKey pkFormat pubKey (PubKeyHashAddrID net)))"

definition newAddressWitnessPubKeyHash :: "bytes \<Rightarrow> bytes \<Rightarrow> Address address_result" where
  "newAddressWitnessPubKeyHash hrp witnessProg =
     (if length witnessProg \<noteq> 20 then Inl (Err WrongLength)
      else Inr (AddressWitnessPubKeyHash (toLower hrp) 0x00 witnessProg))"

definition NewAddressWitnessPubKeyHash :: "bytes \<Rightarrow> Params \<Rightarrow> Address address_result" where
  "NewAddressWitnessPubKeyHash witnessProg net = newAddressWitnessPubKeyHash (Bech32HRPSegwit net) witnessProg"

definition newAddressWitnessScriptHash :: "bytes \<Rightarrow> bytes \<Rightarrow> Address address_result" where
  "newAddressWitnessScriptHash hrp witnessProg =
     (if length witnessProg \<noteq> 32 then Inl (Err WrongLength)
      else Inr (AddressWitnessScriptHash (toLower hrp) 0x00 witnessProg))"

definition NewAddressWitnessScriptHash :: "bytes \<Rightarrow> Params \<Rightarrow> Address address_result" where
  "NewAddressWitnessScriptHash witnessProg net = newAddressWitnessScriptHash (Bech32HRPSegwit net) witnessProg"

definition newHTLCAddress :: "bytes \<Rightarrow> u8 \<Rightarrow> Address address_result" where
  "newHTLCAddress pkHash netID = Inr (HTLCAddress pkHash netID)"

definition NewHTLCAddress :: "bytes \<Rightarrow> Params \<Rightarrow> Address address_result" where
  "NewHTLCAddress pkScript net = newHTLCAddress pkScript (HTLCAddressID net)"

section \<open>Encoding addresses\<close>

text \<open>\<^verbatim>\<open>encodeAddress\<close> slices the hash to 20 bytes.\<close>

definition encodeAddress :: "env \<Rightarrow> bytes \<Rightarrow> u8 \<Rightarrow> bytes address_result" where
  "encodeAddress e hash160 netID =
     (if length hash160 < 20 then Inl Panic else Inr (CheckEncode (sha256 e) (take 20 hash160) netID))"

definition decodeSegWitAddress :: "bytes \<Rightarrow> (u8 \<times> bytes) address_result" where
  "decodeSegWitAddress address =
     bindE (liftBech32 (Decode32 address)) (\<lambda>(_, data).
       if length data < 1 then Inl (Err InvalidSegWit)
       else if data ! 0 > 16 then Inl (Err InvalidSegWit)
       else
         bindE (liftBech32 (ConvertBits (drop 1 data) 5 8 False)) (\<lambda>regrouped.
           if length regrouped < 2 \<or> length regrouped > 40 then Inl (Err InvalidSegWit)
           else if data ! 0 = 0 \<and> length regrouped \<noteq> 20 \<and> length regrouped \<noteq> 32 then Inl (Err InvalidSegWit)
           else Inr (data ! 0, regrouped)))"

definition encodeSegWitAddress :: "bytes \<Rightarrow> u8 \<Rightarrow> bytes \<Rightarrow> bytes address_result" where
  "encodeSegWitAddress hrp ver prog =
     bindE (liftBech32 (ConvertBits prog 8 5 True)) (\<lambda>converted.
     bindE (liftBech32 (Encode32 hrp (ver # converted))) (\<lambda>bech.
     bindE (decodeSegWitAddress bech) (\<lambda>(version, program).
       if version \<noteq> ver \<or> program \<noteq> prog then Inl (Err InvalidSegWit) else Inr bech)))"

definition serializeKey :: "PubKeyFormat \<Rightarrow> pubkey \<Rightarrow> bytes" where
  "serializeKey fmt p =
     (case fmt of PKFUncompressed \<Rightarrow> SerializeUncompressed p | PKFCompressed \<Rightarrow> SerializeCompressed p
      | PKFHybrid \<Rightarrow> SerializeHybrid p)"

text \<open>\<^verbatim>\<open>EncodeAddress\<close> of the witness addresses turns an error into the empty string.\<close>

definition orEmpty :: "bytes address_result \<Rightarrow> bytes address_result" where
  "orEmpty m = (case m of Inl (Err _) \<Rightarrow> Inr [] | _ \<Rightarrow> m)"

definition EncodeAddress :: "env \<Rightarrow> Address \<Rightarrow> bytes address_result" where
  "EncodeAddress e a =
     (case a of
        AddressPubKeyHash hash netID \<Rightarrow> encodeAddress e hash netID
      | AddressScriptHash hash netID \<Rightarrow> encodeAddress e hash netID
      | AddressPubKey fmt key netID \<Rightarrow> encodeAddress e (Hash160 e (serializeKey fmt key)) netID
      | AddressWitnessPubKeyHash hrp ver prog \<Rightarrow> orEmpty (encodeSegWitAddress hrp ver prog)
      | AddressWitnessScriptHash hrp ver prog \<Rightarrow> orEmpty (encodeSegWitAddress hrp ver prog)
      | HTLCAddress script netID \<Rightarrow> Inr (CheckEncode (sha256 e) script netID))"

definition AddressString :: "env \<Rightarrow> Address \<Rightarrow> bytes address_result" where
  "AddressString e a =
     (case a of AddressPubKey fmt key netID \<Rightarrow> Inr (hexEncode (serializeKey fmt key)) | _ \<Rightarrow> EncodeAddress e a)"

definition ScriptAddress :: "Address \<Rightarrow> bytes" where
  "ScriptAddress a =
     (case a of
        AddressPubKeyHash hash _ \<Rightarrow> hash
      | AddressScriptHash hash _ \<Rightarrow> hash
      | AddressPubKey fmt key _ \<Rightarrow> serializeKey fmt key
      | AddressWitnessPubKeyHash _ _ prog \<Rightarrow> prog
      | AddressWitnessScriptHash _ _ prog \<Rightarrow> prog
      | HTLCAddress script _ \<Rightarrow> script)"

definition IsForNet :: "Address \<Rightarrow> Params \<Rightarrow> bool" where
  "IsForNet a net =
     (case a of
        AddressPubKeyHash _ netID \<Rightarrow> netID = PubKeyHashAddrID net
      | AddressScriptHash _ netID \<Rightarrow> netID = ScriptHashAddrID net
      | AddressPubKey _ _ netID \<Rightarrow> netID = PubKeyHashAddrID net
      | AddressWitnessPubKeyHash hrp _ _ \<Rightarrow> hrp = Bech32HRPSegwit net
      | AddressWitnessScriptHash hrp _ _ \<Rightarrow> hrp = Bech32HRPSegwit net
      | HTLCAddress _ netID \<Rightarrow> netID = HTLCAddressID net)"

section \<open>Decoding addresses\<close>

definition DecodeAddress :: "env \<Rightarrow> bytes list \<Rightarrow> bytes \<Rightarrow> Params \<Rightarrow> Address address_result" where
  "DecodeAddress e reg addr defaultNet =
     (let oneIndex = lastIndexByte addr 0x31; prefix = take (nat oneIndex + 1) addr
      in if oneIndex > 1 \<and> IsBech32SegwitPrefix reg prefix then
           bindE (decodeSegWitAddress addr) (\<lambda>(witnessVer, witnessProg).
             if witnessVer \<noteq> 0 then Inl (Err (UnsupportedWitnessVerError witnessVer))
             else
               let hrp = take (length prefix - 1) prefix
               in if length witnessProg = 20 then newAddressWitnessPubKeyHash hrp witnessProg
                  else if length witnessProg = 32 then newAddressWitnessScriptHash hrp witnessProg
                  else Inl (Err (UnsupportedWitnessProgLenError (length witnessProg))))
         else if length addr = 130 \<or> length addr = 66 then
           (case hexDecode addr of
              None \<Rightarrow> Inl (Err InvalidHex)
            | Some serializedPubKey \<Rightarrow> NewAddressPubKey e serializedPubKey defaultNet)
         else
           (case CheckDecode (sha256 e) addr of
              Inl (Err ErrChecksum) \<Rightarrow> Inl (Err ErrChecksumMismatch)
            | Inl _ \<Rightarrow> Inl (Err UnknownFormat)
            | Inr (decoded, netID) \<Rightarrow>
                if length decoded = 20 then
                  let isP2PKH = (netID = PubKeyHashAddrID defaultNet);
                      isP2SH = (netID = ScriptHashAddrID defaultNet)
                  in if isP2PKH \<and> isP2SH then Inl (Err ErrAddressCollision)
                     else if isP2PKH then newAddressPubKeyHash decoded netID
                     else if isP2SH then newAddressScriptHashFromHash decoded netID
                     else Inl (Err ErrUnknownAddressType)
                else if netID = HTLCAddressID defaultNet then newHTLCAddress decoded netID
                else Inl (Err UnknownSize)))"

section \<open>Conversions and burn addresses\<close>

definition Format :: "Address \<Rightarrow> PubKeyFormat option" where
  "Format a = (case a of AddressPubKey fmt _ _ \<Rightarrow> Some fmt | _ \<Rightarrow> None)"

definition SetFormat :: "Address \<Rightarrow> PubKeyFormat \<Rightarrow> Address" where
  "SetFormat a pkFormat = (case a of AddressPubKey _ key netID \<Rightarrow> AddressPubKey pkFormat key netID | _ \<Rightarrow> a)"

definition toAddressPubKeyHash :: "env \<Rightarrow> Address \<Rightarrow> Address option" where
  "toAddressPubKeyHash e a =
     (case a of AddressPubKey fmt key netID \<Rightarrow> Some (AddressPubKeyHash (Hash160 e (serializeKey fmt key)) netID)
      | _ \<Rightarrow> None)"

definition RawJaxBurnScript :: bytes where
  "RawJaxBurnScript =
     [0x76, 0xa9, 0x14, 0xbc, 0x47, 0x3a, 0xf4, 0xc7, 0x1c, 0x45, 0xd5, 0xaa, 0x32, 0x78, 0xad, 0xc9,
      0x97, 0x1, 0xde, 0xd3, 0x74, 0xa, 0x54, 0x88, 0xac]"

definition RawBCHJaxBurnScript :: bytes where
  "RawBCHJaxBurnScript =
     [0x76, 0xa9, 0x14, 0x25, 0xd3, 0x4f, 0x2b, 0x97, 0x4d, 0x3c, 0xae, 0x5d, 0x34, 0xf2, 0xb9, 0x74,
      0xd3, 0xca, 0xe5, 0xd3, 0x4f, 0x2b, 0x97, 0x88, 0xac]"

definition IsJaxnetBurnRawAddress :: "bytes \<Rightarrow> bool" where
  "IsJaxnetBurnRawAddress pkScript \<longleftrightarrow> pkScript = RawJaxBurnScript \<or> pkScript = RawBCHJaxBurnScript"

text \<open>The error of \<^verbatim>\<open>DecodeAddress\<close> is dropped and the method is called on a nil address.\<close>

definition IsJaxnetBurnAddress :: "env \<Rightarrow> bytes list \<Rightarrow> bytes \<Rightarrow> Params \<Rightarrow> bool address_result" where
  "IsJaxnetBurnAddress e reg address params =
     (case DecodeAddress e reg address params of
        Inl _ \<Rightarrow> Inl Panic
      | Inr addr \<Rightarrow>
          Inr (ScriptAddress addr = RawJaxBurnScript \<or> ScriptAddress addr = RawBCHJaxBurnScript))"

section \<open>Hexadecimal round trip\<close>

lemma fromHexChar_hextable: "n < 16 \<Longrightarrow> fromHexChar (hextable ! n) = Some n"
proof -
  have "list_all (\<lambda>n. fromHexChar (hextable ! n) = Some n) [0..<16]" by code_simp
  then show "n < 16 \<Longrightarrow> ?thesis" by (simp add: list_all_iff)
qed

lemma hexDecode_hexEncode: "hexDecode (hexEncode bs) = Some bs"
proof (induction bs)
  case (Cons b bs)
  have "unat b div 16 < 16" using unat_u8_bound [of b] by (simp add: div_less_iff_less_mult)
  moreover have "(of_nat (16 * (unat b div 16) + unat b mod 16) :: u8) = b" by (simp only: mult_div_mod_eq of_nat_unat) simp
  ultimately show ?case using Cons by (simp add: hexEncode_def fromHexChar_hextable)
qed (simp add: hexEncode_def)

lemma length_hexEncode: "length (hexEncode bs) = 2 * length bs"
  by (induction bs) (simp_all add: hexEncode_def)

section \<open>The first character of an encoding\<close>

lemma last_digitsLE:
  assumes "2 \<le> b" "b ^ k \<le> n" "n < b ^ Suc k"
  shows "last (digitsLE b n) = n div b ^ k"
proof -
  have len: "length (digitsLE b n) = Suc k" by (rule length_digitsLE [OF assms])
  then obtain ds d where ds: "digitsLE b n = ds @ [d]" "length ds = k" by (cases "digitsLE b n" rule: rev_cases) auto
  have "list_all (\<lambda>d. d < b) ds" using digitsLE_less [of _ b n] ds(1) by (auto simp: list_all_iff)
  then have "valLE b ds < b ^ k" using valLE_less ds(2) by blast
  moreover have "n = valLE b ds + b ^ k * d" using valLE_digitsLE [OF assms(1), of n] ds by (simp add: valLE_append)
  ultimately have "n div b ^ k = d" using assms(1) div_mult_self2 [of "b ^ k" "valLE b ds" d] by simp
  with ds(1) show ?thesis by simp
qed

lemma bigSetBytes_Cons: "bigSetBytes (b # bs) = uint b * 256 ^ length bs + bigSetBytes bs"
  by (simp add: bigSetBytes_def valLE_append)

lemma bigSetBytes_less: "bigSetBytes bs < 256 ^ length bs"
proof -
  have "valLE 256 (map unat (rev bs)) < 256 ^ length (map unat (rev bs))"
    by (rule valLE_less) (simp add: list_all_iff unat_u8_bound)
  then show ?thesis by (simp add: bigSetBytes_def)
qed

text \<open>For a leading byte that is not zero, the number of characters and the first character of an
  encoding follow from the range of the number that the bytes denote.\<close>

lemma Encode58_shape:
  assumes "0 < v" "58 ^ k \<le> unat v * 256 ^ length bs" "(unat v + 1) * 256 ^ length bs \<le> 58 ^ Suc k"
  shows "length (Encode58 (v # bs)) = Suc k"
    "hd (Encode58 (v # bs)) = alphabet ! (nat (bigSetBytes (v # bs)) div 58 ^ k)"
proof -
  define N where "N = nat (bigSetBytes (v # bs))"
  have "int N = int (unat v) * 256 ^ length bs + bigSetBytes bs" by (simp add: N_def bigSetBytes_Cons)
  then have i: "int (unat v * 256 ^ length bs) \<le> int N" "int N < int ((unat v + 1) * 256 ^ length bs)"
    using bigSetBytes_less [of bs] by (simp_all add: algebra_simps)
  then have N: "58 ^ k \<le> N" "N < 58 ^ Suc k" using assms(2,3) by (simp_all only: of_nat_le_iff of_nat_less_iff)
  have ne: "digitsLE 58 N \<noteq> []" using length_digitsLE [OF _ N] by auto
  have e: "Encode58 (v # bs) = map (\<lambda>d. alphabet ! d) (rev (digitsLE 58 N))"
    using assms(1) by (simp add: Encode58_digits N_def rev_map)
  show "length (Encode58 (v # bs)) = Suc k" by (simp add: e length_digitsLE [OF _ N])
  show "hd (Encode58 (v # bs)) = alphabet ! (nat (bigSetBytes (v # bs)) div 58 ^ k)"
    using ne by (simp add: e hd_map hd_rev last_digitsLE [OF _ N] flip: N_def)
qed

section \<open>Segregated witness addresses\<close>

lemma liftBech32_simps [simp]: "liftBech32 (Inr a) = Inr a"
  by (simp add: liftBech32_def)

lemma take_bit_5_small: "take_bit 5 x = x \<Longrightarrow> unat (x :: u8) < 32"
proof -
  assume "take_bit 5 x = x"
  then have "unat x = take_bit 5 (unat x)" by (metis unsigned_take_bit_eq)
  then show ?thesis using take_bit_nat_less_exp [of 5 "unat x"] by simp
qed

lemma segwit_roundtrip:
  assumes "hrp_ok hrp" "length hrp \<le> 30" "length prog = 20 \<or> length prog = 32"
  obtains cs where "encodeSegWitAddress hrp 0 prog = Inr (hrp @ [0x31] @ cs)"
    "decodeSegWitAddress (hrp @ [0x31] @ cs) = Inr (0, prog)" "0x31 \<notin> set cs"
proof -
  obtain out where out: "ConvertBits prog 8 5 True = Inr out" "ConvertBits out 5 8 False = Inr prog"
      "list_all (\<lambda>x. take_bit 5 x = x) out" "length out = (length prog * 8 + 4) div 5"
    by (rule ConvertBits_roundtrip)
  have small: "list_all (\<lambda>x. unat x < 32) (0 # out)" using out(3) take_bit_5_small by (auto simp: list_all_iff)
  have len: "length hrp + length (0 # out) \<le> 83" using assms(2,3) out(4) by auto
  obtain s where s: "Encode32 hrp (0 # out) = Inr s" "Decode32 s = Inr (hrp, 0 # out)"
      "\<exists>cs. s = hrp @ [0x31] @ cs \<and> set cs \<subseteq> set charset \<and> length cs = length (0 # out) + 6"
    by (rule Encode32_Decode32 [OF assms(1) small len])
  then obtain cs where cs: "s = hrp @ [0x31] @ cs" "set cs \<subseteq> set charset" by blast
  have d: "decodeSegWitAddress s = Inr (0, prog)"
    using s(2) out(2) assms(3) by (auto simp: decodeSegWitAddress_def)
  have "encodeSegWitAddress hrp 0 prog = Inr s" using s(1) out(1) d by (simp add: encodeSegWitAddress_def)
  moreover have "0x31 \<notin> set cs" using charset_chars(4) [of "0x31"] cs(2) by blast
  ultimately show thesis using that d cs(1) by blast
qed

section \<open>Addresses of the main network\<close>

text \<open>The registered prefixes contain the one of the main network, and all start with a letter.\<close>

definition registry_ok :: "bytes list \<Rightarrow> bool" where
  "registry_ok reg \<longleftrightarrow> str ''bc1'' \<in> set reg \<and> list_all (\<lambda>p. p \<noteq> [] \<and> 0x61 \<le> hd p) reg"

definition hashes_ok :: "env \<Rightarrow> bool" where
  "hashes_ok e \<longleftrightarrow> (\<forall>b. length (sha256 e b) = 32 \<and> length (ripemd160 e b) = 20)"

text \<open>An address of the main network: the identifiers and lengths its constructors give it and, for
  a public key, that the parser reads its serialisation back.\<close>

definition mainnet_address :: "env \<Rightarrow> Address \<Rightarrow> bool" where
  "mainnet_address e a =
     (case a of
        AddressPubKeyHash hash netID \<Rightarrow> length hash = 20 \<and> netID = 0
      | AddressScriptHash hash netID \<Rightarrow> length hash = 20 \<and> netID = 5
      | AddressPubKey fmt key netID \<Rightarrow>
          ParsePubKey e (serializeKey fmt key) = Some key \<and> length (serializeKey fmt key) \<in> {33, 65} \<and> netID = 0
      | AddressWitnessPubKeyHash hrp ver prog \<Rightarrow> hrp = str ''bc'' \<and> ver = 0 \<and> length prog = 20
      | AddressWitnessScriptHash hrp ver prog \<Rightarrow> hrp = str ''bc'' \<and> ver = 0 \<and> length prog = 32
      | HTLCAddress script netID \<Rightarrow> False)"

lemma not_prefix:
  assumes "registry_ok reg" "s \<noteq> []" "hd s < 0x41"
  shows "\<not> IsBech32SegwitPrefix reg (take (Suc n) s)"
proof -
  obtain c cs where s: "s = c # cs" using assms(2) by (cases s) auto
  have "\<not> 0x41 \<le> c" using assms(3) by (simp add: s not_le)
  then have "toLower (take (Suc n) s) = c # toLower (take n cs)" by (simp add: s toLower_def)
  moreover have "c < 0x61" using assms(3) by (simp add: s) (rule less_trans, assumption, simp)
  ultimately show ?thesis using assms(1) by (auto simp: IsBech32SegwitPrefix_def registry_ok_def list_all_iff not_le)
qed

lemma hd_replicate_same: "hd (replicate n x @ x # ys) = x"
  by (cases n) simp_all

lemma Encode58_zero: "Encode58 (0 # bs) \<noteq> [] \<and> hd (Encode58 (0 # bs)) = 0x31"
  by (simp add: Encode58_digits alphabet_0 hd_replicate_same)

lemma Encode58_length_le:
  assumes "length b \<le> 25"
  shows "length (Encode58 b) \<le> 60"
proof -
  have "bigSetBytes b < 256 ^ length b" by (rule bigSetBytes_less)
  also have "\<dots> \<le> 256 ^ 25" using assms by (intro power_increasing) simp_all
  also have "\<dots> < 58 ^ 35" by simp
  finally have "nat (bigSetBytes b) < 58 ^ 35" by (simp add: nat_less_iff)
  then have "length (digitsLE 58 (nat (bigSetBytes b))) \<le> 35" by (intro length_digitsLE_le) simp_all
  moreover have "length (takeWhile (\<lambda>i. i = 0) b) \<le> 25" using length_takeWhile_le [of "\<lambda>i. i = 0" b] assms by linarith
  ultimately show ?thesis by (simp add: Encode58_digits)
qed

text \<open>What \<^verbatim>\<open>DecodeAddress\<close> does with a string that is neither bech32 nor a public key.\<close>

lemma DecodeAddress_base58:
  assumes "registry_ok reg" "s \<noteq> []" "hd s < 0x41" "length s \<notin> {66, 130}" "CheckDecode (sha256 e) s = Inr (h, netID)"
    "length h = 20" "PubKeyHashAddrID net \<noteq> ScriptHashAddrID net"
  shows "DecodeAddress e reg s net =
    (if netID = PubKeyHashAddrID net then Inr (AddressPubKeyHash h netID)
     else if netID = ScriptHashAddrID net then Inr (AddressScriptHash h netID) else Inl (Err ErrUnknownAddressType))"
  using assms not_prefix [OF assms(1-3)]
  by (simp add: DecodeAddress_def Let_def newAddressPubKeyHash_def newAddressScriptHashFromHash_def)

lemma serializeKey_hd:
  obtains bs b where "serializeKey fmt key = b # bs"
    "b \<in> (case fmt of PKFUncompressed \<Rightarrow> {4} | PKFCompressed \<Rightarrow> {2, 3} | PKFHybrid \<Rightarrow> {6, 7})"
  by (cases fmt; cases key)
    (auto simp: serializeKey_def SerializeUncompressed_def SerializeCompressed_def SerializeHybrid_def paddedAppend_def
      split: if_splits)

lemma DecodeAddress_pubkey:
  assumes "registry_ok reg" "ParsePubKey e (serializeKey fmt key) = Some key" "length (serializeKey fmt key) \<in> {33, 65}"
  shows "DecodeAddress e reg (hexEncode (serializeKey fmt key)) net = Inr (AddressPubKey fmt key (PubKeyHashAddrID net))"
proof -
  obtain b bs where k: "serializeKey fmt key = b # bs"
      "b \<in> (case fmt of PKFUncompressed \<Rightarrow> {4} | PKFCompressed \<Rightarrow> {2, 3} | PKFHybrid \<Rightarrow> {6, 7})"
    by (rule serializeKey_hd)
  have "hextable ! 0 = 0x30" by (simp add: hextable_def str_def)
  moreover have "unat b div 16 = 0" using k(2) by (cases fmt) auto
  ultimately have "hexEncode (b # bs) \<noteq> []" "hd (hexEncode (b # bs)) < 0x41" by (simp_all add: hexEncode_def)
  note np = not_prefix [OF assms(1) this]
  have "length (hexEncode (b # bs)) = 130 \<or> length (hexEncode (b # bs)) = 66"
    using assms(3) by (auto simp only: length_hexEncode k(1))
  then show ?thesis using assms(2) k np
    by (cases fmt) (auto simp: DecodeAddress_def Let_def hexDecode_hexEncode NewAddressPubKey_def)
qed

lemma segwit_address:
  assumes "registry_ok reg" "length prog = 20 \<or> length prog = 32"
  obtains s where "orEmpty (encodeSegWitAddress (str ''bc'') 0 prog) = Inr s"
    "DecodeAddress e reg s net =
      (if length prog = 20 then Inr (AddressWitnessPubKeyHash (str ''bc'') 0 prog)
       else Inr (AddressWitnessScriptHash (str ''bc'') 0 prog))"
proof -
  have hrp: "hrp_ok (str ''bc'')" "length (str ''bc'') \<le> 30" by code_simp+
  obtain cs where cs: "encodeSegWitAddress (str ''bc'') 0 prog = Inr (str ''bc'' @ [0x31] @ cs)"
      "decodeSegWitAddress (str ''bc'' @ [0x31] @ cs) = Inr (0, prog)" "0x31 \<notin> set cs"
    by (rule segwit_roundtrip [OF hrp assms(2)])
  define s where "s = str ''bc'' @ [0x31] @ cs"
  have one: "lastIndexByte s 0x31 = 2" unfolding s_def lastIndexByte_sep [OF cs(3)] by (simp add: str_def)
  have prefix: "take 3 s = str ''bc1''" by (simp add: s_def str_def)
  have reg: "IsBech32SegwitPrefix reg (str ''bc1'')"
    using assms(1) by (simp add: IsBech32SegwitPrefix_def registry_ok_def toLower_def str_def)
  have hrp: "toLower (take (length (str ''bc1'') - 1) (str ''bc1'')) = str ''bc''" by (simp add: toLower_def str_def)
  have d: "decodeSegWitAddress s = Inr (0, prog)" unfolding s_def by (rule cs(2))
  have "DecodeAddress e reg s net =
      (if length prog = 20 then Inr (AddressWitnessPubKeyHash (str ''bc'') 0 prog)
       else Inr (AddressWitnessScriptHash (str ''bc'') 0 prog))"
    using assms(2) unfolding DecodeAddress_def one
    by (auto simp: Let_def prefix reg d newAddressWitnessPubKeyHash_def newAddressWitnessScriptHash_def hrp [simplified])
  then show thesis using that cs(1) by (simp add: orEmpty_def s_def)
qed

lemma script_hash_string:
  assumes "hashes_ok e" "length h = 20"
  defines "s \<equiv> CheckEncode (sha256 e) h 5"
  shows "length s = 34" "hd s = 0x33"
proof -
  let ?bs = "h @ checksum58 (sha256 e) (5 # h)"
  have s: "s = Encode58 (5 # ?bs)" by (simp add: s_def CheckEncode_def Let_def)
  have len: "length ?bs = 24" using assms(1,2) by (simp add: checksum58_def hashes_ok_def)
  have "0 < (5 :: u8)" "58 ^ 33 \<le> unat (5 :: u8) * 256 ^ length ?bs" "(unat (5 :: u8) + 1) * 256 ^ length ?bs \<le> 58 ^ Suc 33"
    unfolding len by simp_all
  note shape = Encode58_shape [OF this]
  show "length s = 34" unfolding s shape(1) by simp
  define N where "N = nat (bigSetBytes (5 # ?bs))"
  have "int N = 5 * 256 ^ 24 + bigSetBytes ?bs" by (simp only: N_def bigSetBytes_Cons len) simp
  moreover have "0 \<le> bigSetBytes ?bs" "bigSetBytes ?bs < 256 ^ 24" using bigSetBytes_less [of ?bs] by (simp_all only: len bigSetBytes_nonneg)
  ultimately have "int (58 ^ 33 * 2) \<le> int N" "int N < int (58 ^ 33 * Suc 2)" by simp_all
  then have "58 ^ 33 * 2 \<le> N" "N < 58 ^ 33 * Suc 2" by (simp_all only: of_nat_le_iff of_nat_less_iff)
  then have "N div 58 ^ 33 = 2" by (rule div_nat_eqI)
  moreover have "hd s = alphabet ! (N div 58 ^ 33)"
    unfolding s N_def by (rule shape(2))
  ultimately show "hd s = 0x33" by (simp add: alphabet_def str_def)
qed

lemma serializeKey_length: "33 \<le> length (serializeKey fmt key)"
  by (cases fmt; cases key)
    (auto simp: serializeKey_def SerializeUncompressed_def SerializeCompressed_def SerializeHybrid_def paddedAppend_def)

lemma DecodeAddress_ScriptAddress:
  assumes "DecodeAddress e reg s net = Inr a"
  shows "length (ScriptAddress a) = 20 \<or> length (ScriptAddress a) \<ge> 32 \<or> (\<exists>script netID. a = HTLCAddress script netID)"
  using assms serializeKey_length
  by (auto simp: DecodeAddress_def Let_def bindE_Inr_iff newAddressWitnessPubKeyHash_def newAddressWitnessScriptHash_def
      NewAddressPubKey_def newAddressPubKeyHash_def newAddressScriptHashFromHash_def newHTLCAddress_def ScriptAddress_def
      le_trans [of 32 33] split: if_splits option.splits sum.splits failure.splits base58_err.splits)

section \<open>Properties\<close>



text \<open>C29. The string of an HTLC address with a script of 44 bytes does not decode to that address on
  the main network. It has exactly 66 characters, so \<^verbatim>\<open>DecodeAddress\<close> takes it for a public key in
  hexadecimal. These are the scripts of a compressed public key with a lock period from 128 to
  32767.\<close>

theorem htlc_address_undecodable:
  assumes "hashes_ok e" "length script = 44"
  shows "\<exists>s. EncodeAddress e (HTLCAddress script (HTLCAddressID MainNetParams)) = Inr s \<and> length s = 66 \<and>
    DecodeAddress e reg s MainNetParams \<noteq> Inr (HTLCAddress script (HTLCAddressID MainNetParams))"
proof -
  let ?bs = "script @ checksum58 (sha256 e) (5 # script)"
  define s where "s = Encode58 (5 # ?bs)"
  have len: "length ?bs = 48" using assms by (simp add: checksum58_def hashes_ok_def)
  have "0 < (5 :: u8)" "58 ^ 65 \<le> unat (5 :: u8) * 256 ^ length ?bs" "(unat (5 :: u8) + 1) * 256 ^ length ?bs \<le> 58 ^ Suc 65"
    unfolding len by simp_all
  note shape = Encode58_shape [OF this]
  have l: "length s = 66" unfolding s_def shape(1) by simp
  have "DecodeAddress e reg s MainNetParams \<noteq> Inr (HTLCAddress script 5)"
    by (auto simp: DecodeAddress_def Let_def l bindE_Inr_iff newAddressWitnessPubKeyHash_def
      newAddressWitnessScriptHash_def NewAddressPubKey_def split: if_splits option.splits)
  moreover have "EncodeAddress e (HTLCAddress script 5) = Inr s"
    by (simp add: EncodeAddress_def CheckEncode_def Let_def s_def)
  ultimately show ?thesis using l by (simp add: MainNetParams_def)
qed

theorem htlc_address_undecodable_witness:
  "hashes_ok zeroKeyEnv \<and> length (replicate 44 (0xb3 :: u8)) = 44 \<and>
   (\<exists>s. EncodeAddress zeroKeyEnv (HTLCAddress (replicate 44 0xb3) (HTLCAddressID MainNetParams)) = Inr s \<and> length s = 66 \<and>
    DecodeAddress zeroKeyEnv [str ''bc1''] s MainNetParams \<noteq>
      Inr (HTLCAddress (replicate 44 0xb3) (HTLCAddressID MainNetParams)))"
proof -
  have h: "hashes_ok zeroKeyEnv" by (simp add: hashes_ok_def zeroKeyEnv_def)
  show ?thesis using htlc_address_undecodable [OF h, of "replicate 44 0xb3" "[str ''bc1'']"] h by simp
qed

text \<open>\<^verbatim>\<open>IsJaxnetBurnAddress\<close> never recognises the burn address. It compares the bytes of the
  address, a hash of 20 bytes for the pay-to-public-key-hash address that is documented as burn
  address, with a whole script of 25 bytes, so only an HTLC address can give true.\<close>

theorem burn_address_not_recognised:
  assumes "IsJaxnetBurnAddress e reg s net = Inr True"
  shows "\<exists>script netID. DecodeAddress e reg s net = Inr (HTLCAddress script netID)"
proof -
  obtain a where a: "DecodeAddress e reg s net = Inr a" "ScriptAddress a = RawJaxBurnScript \<or> ScriptAddress a = RawBCHJaxBurnScript"
    using assms by (auto simp: IsJaxnetBurnAddress_def split: sum.splits)
  then have "length (ScriptAddress a) = 25" by (auto simp: RawJaxBurnScript_def RawBCHJaxBurnScript_def)
  with a(1) DecodeAddress_ScriptAddress [OF a(1)] show ?thesis by auto
qed

theorem burn_address_not_recognised_witness:
  "IsJaxnetBurnAddress zeroKeyEnv [] (CheckEncode (sha256 zeroKeyEnv) RawJaxBurnScript 5) MainNetParams = Inr True \<and>
   (\<exists>script netID. DecodeAddress zeroKeyEnv [] (CheckEncode (sha256 zeroKeyEnv) RawJaxBurnScript 5) MainNetParams =
     Inr (HTLCAddress script netID))"
proof -
  let ?s = "CheckEncode (sha256 zeroKeyEnv) RawJaxBurnScript 5"
  let ?b = "5 # RawJaxBurnScript @ checksum58 (sha256 zeroKeyEnv) (5 # RawJaxBurnScript)"
  have sha: "\<forall>x. length (sha256 zeroKeyEnv x) = 32" by (simp add: zeroKeyEnv_def)
  have "length ?b = 30" by (simp add: checksum58_def sha RawJaxBurnScript_def)
  then have "bigSetBytes ?b < 256 ^ 30" using bigSetBytes_less [of ?b] by (simp only:)
  also have "(256 :: int) ^ 30 < 58 ^ 42" by simp
  finally have "nat (bigSetBytes ?b) < 58 ^ 42" by (simp add: nat_less_iff)
  then have "length (digitsLE 58 (nat (bigSetBytes ?b))) \<le> 42" by (intro length_digitsLE_le) simp_all
  then have l: "length ?s \<le> 42" by (simp add: CheckEncode_def Let_def Encode58_digits)
  have d: "CheckDecode (sha256 zeroKeyEnv) ?s = Inr (RawJaxBurnScript, 5)" by (rule CheckDecode_CheckEncode [OF sha])
  have n: "length RawJaxBurnScript = 25" by (simp add: RawJaxBurnScript_def)
  have "DecodeAddress zeroKeyEnv [] ?s MainNetParams = Inr (HTLCAddress RawJaxBurnScript 5)"
    using l by (auto simp: DecodeAddress_def Let_def IsBech32SegwitPrefix_def d n newHTLCAddress_def MainNetParams_def)
  then have "IsJaxnetBurnAddress zeroKeyEnv [] ?s MainNetParams = Inr True"
    by (simp add: IsJaxnetBurnAddress_def ScriptAddress_def)
  then show ?thesis using burn_address_not_recognised by blast
qed

end
