(* ===== verification/StandardScripts.thy ===== *)
theory StandardScripts
  imports Address "HOL-Library.List_Lexorder" "HOL-Library.Multiset"
begin

text \<open>
  The standard scripts: their templates, the functions that classify, build and take them apart
  (\<^verbatim>\<open>txscript/standard.go\<close>, \<^verbatim>\<open>txscript/multisig.go\<close>, \<^verbatim>\<open>txscript/lock_script.go\<close>,
  \<^verbatim>\<open>txscript/pkscript.go\<close>) and the counters of signature operations (\<^verbatim>\<open>txscript/script.go\<close>).
  An opcode of a parsed script has data that is not nil exactly when its length in the opcode
  table is not one. The IP and URL parsers of Go's standard library are parameters. The lemmas
  show that the templates exclude each other, that what is built is recognised and taken apart
  into its ingredients, and that the counts of signature operations are bounded.
\<close>

section \<open>Templates\<close>

record netlib =
  ParseIP :: "bytes \<Rightarrow> bytes option"
  IPString :: "bytes \<Rightarrow> bytes"
  urlParse :: "bytes \<Rightarrow> bool"

definition keyLen :: "bytes \<Rightarrow> bool" where
  "keyLen data \<longleftrightarrow> length data = 33 \<or> length data = 65"

definition hasData :: "parsedOpcode \<Rightarrow> bool" where
  "hasData pop \<longleftrightarrow> opcode_length (op_value pop) \<noteq> 1"

definition isPubkey :: "parsedOpcode list \<Rightarrow> bool" where
  "isPubkey pops \<longleftrightarrow> length pops = 2 \<and> keyLen (op_data (pops ! 0)) \<and> op_value (pops ! 1) = OP_CHECKSIG"

definition isPubkeyHash :: "parsedOpcode list \<Rightarrow> bool" where
  "isPubkeyHash pops \<longleftrightarrow> length pops = 5 \<and> op_value (pops ! 0) = OP_DUP \<and> op_value (pops ! 1) = OP_HASH160 \<and>
     op_value (pops ! 2) = OP_DATA_20 \<and> op_value (pops ! 3) = OP_EQUALVERIFY \<and> op_value (pops ! 4) = OP_CHECKSIG"

definition isMultiSig :: "parsedOpcode list \<Rightarrow> bool" where
  "isMultiSig pops =
     (let l = length pops
      in if l < 4 then False
         else if \<not> isSmallInt (op_value (pops ! 0)) then False
         else if \<not> isSmallInt (op_value (pops ! (l - 2))) then False
         else if op_value (pops ! (l - 1)) \<noteq> OP_CHECKMULTISIG then False
         else if int l - 2 - 1 \<noteq> asSmallInt (op_value (pops ! (l - 2))) then False
         else list_all (\<lambda>pop. keyLen (op_data pop)) (drop 1 (take (l - 2) pops)))"

definition MaxDataCarrierSize :: nat where "MaxDataCarrierSize = 80"

definition isNullData :: "parsedOpcode list \<Rightarrow> bool" where
  "isNullData pops =
     (let l = length pops
      in if l = 1 \<and> op_value (pops ! 0) = OP_RETURN then True
         else l = 2 \<and> op_value (pops ! 0) = OP_RETURN \<and>
              (isSmallInt (op_value (pops ! 1)) \<or> op_value (pops ! 1) \<le> OP_PUSHDATA4) \<and>
              length (op_data (pops ! 1)) \<le> MaxDataCarrierSize)"

abbreviation (input) mslFirstMSigOpI :: nat where "mslFirstMSigOpI \<equiv> 4"
abbreviation (input) mslTailLen :: nat where "mslTailLen \<equiv> 5"

definition isMultiSigLock :: "parsedOpcode list \<Rightarrow> bool" where
  "isMultiSigLock pops =
     (let l = length pops
      in if l < 13 then False
         else if \<not> (isOpCode (pops ! 0) OP_INPUTAGE \<and> isNumber (op_value (pops ! 1)) \<and>
                isOpCode (pops ! 2) OP_LESSTHAN \<and> isOpCode (pops ! 3) OP_IF \<and>
                isOpCode (pops ! (l - 5)) OP_ELSE \<and> keyLen (op_data (pops ! (l - 4))) \<and>
                isOpCode (pops ! (l - 3)) OP_CHECKSIG \<and> isOpCode (pops ! (l - 2)) OP_NIP \<and>
                isOpCode (pops ! (l - 1)) OP_ENDIF) then False
         else isMultiSig (drop mslFirstMSigOpI (take (l - mslTailLen) pops)))"

definition isEADRegistration :: "netlib \<Rightarrow> parsedOpcode list \<Rightarrow> bool" where
  "isEADRegistration N pops \<longleftrightarrow> length pops = 9 \<and> keyLen (op_data (pops ! 0)) \<and>
     op_value (pops ! 1) = OP_CHECKSIG \<and> op_value (pops ! 2) = OP_NOP \<and>
     isNumber (op_value (pops ! 3)) \<and> isNumber (op_value (pops ! 4)) \<and>
     (ParseIP N (op_data (pops ! 5)) \<noteq> None \<or> urlParse N (op_data (pops ! 5))) \<and>
     isNumber (op_value (pops ! 6))"

definition typeOfScript :: "netlib \<Rightarrow> parsedOpcode list \<Rightarrow> ScriptClass" where
  "typeOfScript N pops =
     (if isPubkey pops then PubKeyTy
      else if isPubkeyHash pops then PubKeyHashTy
      else if isWitnessPubKeyHash pops then WitnessV0PubKeyHashTy
      else if isScriptHash pops then ScriptHashTy
      else if isWitnessScriptHash pops then WitnessV0ScriptHashTy
      else if isMultiSig pops then MultiSigTy
      else if isMultiSigLock pops then MultiSigLockTy
      else if isEADRegistration N pops then EADAddressTy
      else if fst (isHTLC pops) then HTLCScriptTy
      else if isNullData pops then NullDataTy
      else NonStandardTy)"

definition GetScriptClass :: "netlib \<Rightarrow> bytes \<Rightarrow> ScriptClass" where
  "GetScriptClass N script =
     (case parseE script of Inl _ \<Rightarrow> NonStandardTy | Inr pops \<Rightarrow> typeOfScript N pops)"

text \<open>\<^verbatim>\<open>ScriptClass.String\<close> works on the byte of the class and lets the length of the table pass.\<close>

definition scriptClassToName :: "bytes list" where
  "scriptClassToName = map str
     [''nonstandard'', ''pubkey'', ''pubkeyhash'', ''witness_v0_keyhash'', ''scripthash'',
      ''witness_v0_scripthash'', ''multisig'', ''multisig_lock'', ''ead_address'', ''htlc'', ''nulldata'']"

definition ScriptClassString :: "u8 \<Rightarrow> bytes sresult" where
  "ScriptClassString t =
     (if unat t > length scriptClassToName then Inr (str ''Invalid'') else getE scriptClassToName (unat t))"

fun indexOf :: "'a list \<Rightarrow> 'a \<Rightarrow> nat \<Rightarrow> nat option" where
  "indexOf [] name i = None"
| "indexOf (n # ns) name i = (if n = name then Some i else indexOf ns name (i + 1))"

definition NewScriptClass :: "bytes \<Rightarrow> u8 sresult" where
  "NewScriptClass name =
     (case indexOf scriptClassToName name 0 of Some i \<Rightarrow> Inr (of_nat i) | None \<Rightarrow> Inl (Err PlainError))"

section \<open>Counting signature operations\<close>

definition sigOps :: "bool \<Rightarrow> parsedOpcode list \<Rightarrow> nat \<Rightarrow> int" where
  "sigOps precise pops i =
     (let v = op_value (pops ! i)
      in if v = OP_CHECKSIG \<or> v = OP_CHECKSIGVERIFY then 1
         else if v = OP_CHECKMULTISIG \<or> v = OP_CHECKMULTISIGVERIFY then
           (if precise \<and> i > 0 \<and> op_value (pops ! (i - 1)) \<ge> OP_1 \<and> op_value (pops ! (i - 1)) \<le> OP_16
            then asSmallInt (op_value (pops ! (i - 1))) else MaxPubKeysPerMultiSig)
         else 0)"

definition getSigOpCount :: "parsedOpcode list \<Rightarrow> bool \<Rightarrow> int" where
  "getSigOpCount pops precise = fold (\<lambda>i nSigs. nSigs + sigOps precise pops i) [0..<length pops] 0"

definition GetSigOpCount :: "bytes \<Rightarrow> int" where
  "GetSigOpCount script = getSigOpCount (fst (parseScript script)) False"

definition GetPreciseSigOpCount :: "bytes \<Rightarrow> bytes \<Rightarrow> bool \<Rightarrow> int" where
  "GetPreciseSigOpCount scriptSig scriptPubKey p2sh =
     (let pops = fst (parseScript scriptPubKey)
      in if \<not> (p2sh \<and> isScriptHash pops) then getSigOpCount pops True
         else case parseE scriptSig of
                Inl _ \<Rightarrow> 0
              | Inr sigPops \<Rightarrow>
                  if \<not> isPushOnly sigPops \<or> length sigPops = 0 then 0
                  else let shScript = op_data (sigPops ! (length sigPops - 1))
                       in if length shScript = 0 then 0
                          else getSigOpCount (fst (parseScript shScript)) True)"

definition getWitnessSigOps :: "bytes \<Rightarrow> bytes list \<Rightarrow> int" where
  "getWitnessSigOps pkScript witness =
     (case ExtractWitnessProgramInfo pkScript of
        Inl _ \<Rightarrow> 0
      | Inr (witnessVer, witnessProg) \<Rightarrow>
          if witnessVer = 0 then
            (if length witnessProg = 20 then 1
             else if length witnessProg = 32 \<and> length witness > 0 then
               getSigOpCount (fst (parseScript (witness ! (length witness - 1)))) True
             else 0)
          else 0)"

text \<open>The slice of the signature script from its second byte on panics when the script is empty.\<close>

definition GetWitnessSigOpCount :: "bytes \<Rightarrow> bytes \<Rightarrow> bytes list \<Rightarrow> int sresult" where
  "GetWitnessSigOpCount sigScript pkScript witness =
     (if IsWitnessProgram pkScript then Inr (getWitnessSigOps pkScript witness)
      else case parseE sigScript of
             Inl _ \<Rightarrow> Inr 0
           | Inr sigPops \<Rightarrow>
               if IsPayToScriptHash pkScript \<and> isPushOnly sigPops then
                 if sigScript = [] then Inl Panic
                 else if IsWitnessProgram (drop 1 sigScript)
                   then Inr (getWitnessSigOps (drop 1 sigScript) witness) else Inr 0
               else Inr 0)"

section \<open>Building scripts\<close>

definition payToWitnessPubKeyHashScript :: "bytes \<Rightarrow> bytes sresult" where
  "payToWitnessPubKeyHashScript pubKeyHash = builtScript (AddData (AddOp NewScriptBuilder OP_0) pubKeyHash)"

definition payToScriptHashScript :: "bytes \<Rightarrow> bytes sresult" where
  "payToScriptHashScript scriptHash =
     builtScript (AddOp (AddData (AddOp NewScriptBuilder OP_HASH160) scriptHash) OP_EQUAL)"

definition payToWitnessScriptHashScript :: "bytes \<Rightarrow> bytes sresult" where
  "payToWitnessScriptHashScript scriptHash = builtScript (AddData (AddOp NewScriptBuilder OP_0) scriptHash)"

definition payToPubKeyScript :: "bytes \<Rightarrow> bytes sresult" where
  "payToPubKeyScript serializedPubKey =
     builtScript (AddOp (AddData NewScriptBuilder serializedPubKey) OP_CHECKSIG)"

definition PayToAddrScript :: "Address \<Rightarrow> bytes sresult" where
  "PayToAddrScript addr =
     (case addr of
        AddressPubKeyHash _ _ \<Rightarrow> payToPubKeyHashScript (ScriptAddress addr)
      | AddressScriptHash _ _ \<Rightarrow> payToScriptHashScript (ScriptAddress addr)
      | AddressPubKey _ _ _ \<Rightarrow> payToPubKeyScript (ScriptAddress addr)
      | AddressWitnessPubKeyHash _ _ _ \<Rightarrow> payToWitnessPubKeyHashScript (ScriptAddress addr)
      | AddressWitnessScriptHash _ _ _ \<Rightarrow> payToWitnessScriptHashScript (ScriptAddress addr)
      | HTLCAddress _ _ \<Rightarrow> Inr (ScriptAddress addr))"

definition NullDataScript :: "bytes \<Rightarrow> bytes sresult" where
  "NullDataScript data =
     (if length data > MaxDataCarrierSize then scriptError ErrTooMuchNullData
      else builtScript (AddData (AddOp NewScriptBuilder OP_RETURN) data))"

text \<open>\<^verbatim>\<open>sort.Slice\<close> by \<^verbatim>\<open>bytes.Compare\<close>: the lexicographic order of byte strings. Keys are given by their
  addresses.\<close>

definition pubKeysToAddresses :: "Address list \<Rightarrow> bool \<Rightarrow> bytes list" where
  "pubKeysToAddresses pubkeys sortKeys =
     (let res = map ScriptAddress pubkeys in if sortKeys then sort res else res)"

definition addKeys :: "ScriptBuilder \<Rightarrow> bytes list \<Rightarrow> ScriptBuilder" where
  "addKeys b keys = foldl AddData b keys"

definition MultiSigScript :: "Address list \<Rightarrow> int \<Rightarrow> bool \<Rightarrow> bytes sresult" where
  "MultiSigScript pubkeys nrequired sortKeys =
     (if int (length pubkeys) < nrequired then scriptError ErrTooManyRequiredSigs
      else
        bindE (AddInt64 NewScriptBuilder nrequired) (\<lambda>b.
        bindE (AddInt64 (addKeys b (pubKeysToAddresses pubkeys sortKeys)) (int (length pubkeys))) (\<lambda>b.
          builtScript (AddOp b OP_CHECKMULTISIG))))"

definition MultiSigLockScript :: "Address list \<Rightarrow> int \<Rightarrow> Address \<Rightarrow> int \<Rightarrow> bool \<Rightarrow> bytes sresult" where
  "MultiSigLockScript pubkeys sigRequired refundAddress refundDeferringPeriod sortKeys =
     (if int (length pubkeys) < sigRequired then scriptError ErrTooManyRequiredSigs
      else
        bindE (AddInt64 (AddOp NewScriptBuilder OP_INPUTAGE) refundDeferringPeriod) (\<lambda>b.
        bindE (AddInt64 (AddOp (AddOp b OP_LESSTHAN) OP_IF) sigRequired) (\<lambda>b.
        bindE (AddInt64 (addKeys b (pubKeysToAddresses pubkeys sortKeys)) (int (length pubkeys))) (\<lambda>b.
          builtScript (AddOp (AddOp (AddOp (AddData (AddOp (AddOp b OP_CHECKMULTISIG) OP_ELSE)
            (ScriptAddress refundAddress)) OP_CHECKSIG) OP_NIP) OP_ENDIF)))))"

definition HTLCScript :: "Address \<Rightarrow> int \<Rightarrow> bytes sresult" where
  "HTLCScript address lockPeriod =
     bindE (AddInt64 (AddOp NewScriptBuilder OP_INPUTAGE) lockPeriod) (\<lambda>b.
       let b = AddOp (AddOp b OP_GREATERTHAN) OP_IF; script = ScriptAddress address
       in bindE
            (case address of
               AddressPubKey _ _ _ \<Rightarrow> Inr (AddOp (AddData b script) OP_CHECKSIG)
             | AddressPubKeyHash _ _ \<Rightarrow>
                 Inr (AddOp (AddOp (AddData (AddOp (AddOp b OP_DUP) OP_HASH160) script) OP_EQUALVERIFY) OP_CHECKSIG)
             | AddressScriptHash _ _ \<Rightarrow> Inr (AddOp (AddData (AddOp b OP_HASH160) script) OP_EQUAL)
             | AddressWitnessPubKeyHash _ _ _ \<Rightarrow> Inr (AddData (AddOp b OP_0) script)
             | AddressWitnessScriptHash _ _ _ \<Rightarrow> Inr (AddData (AddOp b OP_0) script)
             | HTLCAddress _ _ \<Rightarrow> Inl (Err PlainError)) (\<lambda>b.
            builtScript (AddOp (AddOp (AddOp b OP_ELSE) OP_RETURN) OP_ENDIF)))"

definition HTLCScriptAddress :: "Address \<Rightarrow> int \<Rightarrow> Params \<Rightarrow> Address sresult" where
  "HTLCScriptAddress address lockPeriod params =
     bindE (HTLCScript address lockPeriod) (\<lambda>script. Inr (HTLCAddress script (HTLCAddressID params)))"

section \<open>Taking scripts apart\<close>

definition expectedInputs :: "parsedOpcode list \<Rightarrow> ScriptClass \<Rightarrow> int sresult" where
  "expectedInputs pops cls =
     (case cls of
        PubKeyTy \<Rightarrow> Inr 1
      | PubKeyHashTy \<Rightarrow> Inr 2
      | WitnessV0PubKeyHashTy \<Rightarrow> Inr 2
      | ScriptHashTy \<Rightarrow> Inr 1
      | WitnessV0ScriptHashTy \<Rightarrow> Inr 1
      | MultiSigTy \<Rightarrow> bindE (getE pops 0) (\<lambda>pop. Inr (asSmallInt (op_value pop) + 1))
      | MultiSigLockTy \<Rightarrow> bindE (getE pops mslFirstMSigOpI) (\<lambda>pop. Inr (asSmallInt (op_value pop) + 1))
      | EADAddressTy \<Rightarrow> Inr 1
      | HTLCScriptTy \<Rightarrow> Inr 1
      | NullDataTy \<Rightarrow> Inr (-1)
      | NonStandardTy \<Rightarrow> Inr (-1))"

record ScriptInfo =
  PkScriptClass :: ScriptClass
  NumInputs :: int
  ExpectedInputs :: int
  SigOps :: int

definition addInputs :: "int \<Rightarrow> int \<Rightarrow> int" where
  "addInputs si shInputs = (if shInputs = -1 then -1 else si + shInputs)"

definition CalcScriptInfo ::
  "netlib \<Rightarrow> bytes \<Rightarrow> bytes \<Rightarrow> bytes list \<Rightarrow> bool \<Rightarrow> bool \<Rightarrow> ScriptInfo sresult" where
  "CalcScriptInfo N sigScript pkScript witness p2sh segwit =
     bindE (parseE sigScript) (\<lambda>sigPops.
     bindE (parseE pkScript) (\<lambda>pkPops.
       let cls = typeOfScript N pkPops
       in if \<not> isPushOnly sigPops then scriptError ErrNotPushOnly
          else
            bindE (expectedInputs pkPops cls) (\<lambda>expected.
              let info = (\<lambda>n x s. \<lparr>PkScriptClass = cls, NumInputs = n, ExpectedInputs = x, SigOps = s\<rparr>)
              in if cls = ScriptHashTy \<and> p2sh \<and> \<not> segwit then
                   (if sigPops = [] then Inl Panic
                    else
                      bindE (parseE (op_data (sigPops ! (length sigPops - 1)))) (\<lambda>shPops.
                      bindE (expectedInputs shPops (typeOfScript N shPops)) (\<lambda>shInputs.
                        Inr (info (int (length sigPops)) (addInputs expected shInputs) (getSigOpCount shPops True)))))
                 else if cls = WitnessV0PubKeyHashTy \<and> segwit then
                   bindE (GetWitnessSigOpCount sigScript pkScript witness) (\<lambda>n.
                     Inr (info (int (length witness)) expected n))
                 else if cls = ScriptHashTy \<and> sigScript = [] then Inl Panic
                 else if cls = ScriptHashTy \<and> IsWitnessProgram (drop 1 sigScript) \<and> p2sh \<and> segwit then
                   (let pkPops = fst (parseScript (drop 1 sigScript))
                    in bindE (expectedInputs pkPops (typeOfScript N pkPops)) (\<lambda>shInputs.
                       bindE (GetWitnessSigOpCount sigScript pkScript witness) (\<lambda>n.
                         Inr (info (int (length witness) + int (length sigPops)) (addInputs expected shInputs) n))))
                 else if cls = WitnessV0ScriptHashTy \<and> segwit then
                   (if witness = [] then Inl Panic
                    else
                      let pops = fst (parseScript (witness ! (length witness - 1)))
                      in bindE (expectedInputs pops (typeOfScript N pops)) (\<lambda>shInputs.
                         bindE (GetWitnessSigOpCount sigScript pkScript witness) (\<lambda>n.
                           Inr (info (int (length witness)) (addInputs expected shInputs) n))))
                 else Inr (info (int (length sigPops)) expected (getSigOpCount pkPops True)))))"

text \<open>For a class that is neither of the two, \<^verbatim>\<open>CalcMultiSigStats\<close> leaves its three numbers at zero and
  indexes the script at its length.\<close>

definition CalcMultiSigStats :: "bytes \<Rightarrow> ScriptClass \<Rightarrow> (int \<times> int) sresult" where
  "CalcMultiSigStats script cls =
     bindE (parseE script) (\<lambda>pops.
       let (numSigsInd, numPubKeysOffset, minLen) =
             (if cls = MultiSigTy then (0, 2, 4)
              else if cls = MultiSigLockTy then (mslFirstMSigOpI, mslTailLen + 2, 11) else (0, 0, 0))
       in if length pops < minLen then scriptError ErrNotMultisigScript
          else
            bindE (getE pops numSigsInd) (\<lambda>numSigs.
            bindE (getE pops (length pops - numPubKeysOffset)) (\<lambda>numPubKeys.
              Inr (asSmallInt (op_value numPubKeys), asSmallInt (op_value numSigs)))))"

definition PushedData :: "bytes \<Rightarrow> bytes list sresult" where
  "PushedData script =
     bindE (parseE script) (\<lambda>pops.
       Inr (map op_data (filter (\<lambda>pop. hasData pop \<or> op_value pop = OP_0) pops)))"

text \<open>An address that cannot be made of the data of a script is skipped.\<close>

definition okAddrs :: "Address address_result list \<Rightarrow> Address list" where
  "okAddrs rs = List.map_filter (\<lambda>r. case r of Inr a \<Rightarrow> Some a | Inl _ \<Rightarrow> None) rs"

fun dedupAddrs :: "env \<Rightarrow> Address list \<Rightarrow> Address list \<Rightarrow> Address list" where
  "dedupAddrs e [] seen = []"
| "dedupAddrs e (a # as) seen =
     (if AddressString e a \<in> set (map (AddressString e) seen) then dedupAddrs e as seen
      else a # dedupAddrs e as (a # seen))"

definition extractMultiSigLockAddrs :: "env \<Rightarrow> parsedOpcode list \<Rightarrow> Params \<Rightarrow> Address list \<times> int" where
  "extractMultiSigLockAddrs e pops params =
     (let requiredSigs = asSmallInt (op_value (pops ! mslFirstMSigOpI));
          numPubKeys = asSmallInt (op_value (pops ! (length pops - mslTailLen - 2)));
          keys = map (\<lambda>i. pops ! (mslFirstMSigOpI + 1 + i)) [0..<nat numPubKeys] @ [pops ! (length pops - 4)]
      in (dedupAddrs e (okAddrs (map (\<lambda>pop. NewAddressPubKey e (op_data pop) params) keys)) [], requiredSigs))"

definition liftAddr :: "'a address_result \<Rightarrow> 'a sresult" where
  "liftAddr m = (case m of Inl (Err _) \<Rightarrow> Inl (Err PlainError) | Inl Panic \<Rightarrow> Inl Panic | Inr a \<Rightarrow> Inr a)"

text \<open>A script that matches none of the cases leaves the address nil; its template excludes this.\<close>

definition extractHTLCAddrs :: "env \<Rightarrow> parsedOpcode list \<Rightarrow> Params \<Rightarrow> Address list sresult" where
  "extractHTLCAddrs e pops params =
     bindE
       (if length pops = 9 then
          (if op_value (pops ! 4) = OP_0 \<and> length (op_data (pops ! 5)) = 32 then
             liftAddr (NewAddressWitnessScriptHash (op_data (pops ! 5)) params)
           else if op_value (pops ! 4) = OP_0 \<and> length (op_data (pops ! 5)) = 20 then
             liftAddr (NewAddressWitnessPubKeyHash (op_data (pops ! 5)) params)
           else if keyLen (op_data (pops ! 4)) \<and> op_value (pops ! 5) = OP_CHECKSIG then
             liftAddr (NewAddressPubKey e (op_data (pops ! 4)) params)
           else Inl Panic)
        else if length pops = 10 then liftAddr (NewAddressScriptHashFromHash (op_data (pops ! 5)) params)
        else if length pops = 12 then liftAddr (NewAddressPubKeyHash (op_data (pops ! 6)) params)
        else Inl Panic)
       (\<lambda>addr. Inr [addr])"

definition ExtractPkScriptAddrs ::
  "env \<Rightarrow> netlib \<Rightarrow> bytes \<Rightarrow> Params \<Rightarrow> (ScriptClass \<times> Address list \<times> int) sresult" where
  "ExtractPkScriptAddrs e N pkScript params =
     bindE (parseE pkScript) (\<lambda>pops.
       let cls = typeOfScript N pops; one = (\<lambda>r. Inr (cls, okAddrs [r], 1))
       in case cls of
            PubKeyHashTy \<Rightarrow> one (NewAddressPubKeyHash (op_data (pops ! 2)) params)
          | WitnessV0PubKeyHashTy \<Rightarrow> one (NewAddressWitnessPubKeyHash (op_data (pops ! 1)) params)
          | PubKeyTy \<Rightarrow> one (NewAddressPubKey e (op_data (pops ! 0)) params)
          | ScriptHashTy \<Rightarrow> one (NewAddressScriptHashFromHash (op_data (pops ! 1)) params)
          | WitnessV0ScriptHashTy \<Rightarrow> one (NewAddressWitnessScriptHash (op_data (pops ! 1)) params)
          | MultiSigTy \<Rightarrow>
              let numPubKeys = asSmallInt (op_value (pops ! (length pops - 2)))
              in Inr (cls, okAddrs (map (\<lambda>i. NewAddressPubKey e (op_data (pops ! (i + 1))) params) [0..<nat numPubKeys]),
                   asSmallInt (op_value (pops ! 0)))
          | MultiSigLockTy \<Rightarrow> let (addrs, n) = extractMultiSigLockAddrs e pops params in Inr (cls, addrs, n)
          | EADAddressTy \<Rightarrow> one (NewAddressPubKey e (op_data (pops ! 0)) params)
          | HTLCScriptTy \<Rightarrow>
              bindE (extractHTLCAddrs e pops params) (\<lambda>addrs.
                Inr (cls, addrs @ [HTLCAddress pkScript (HTLCAddressID params)], 1))
          | NullDataTy \<Rightarrow> Inr (cls, [], 0)
          | NonStandardTy \<Rightarrow> Inr (cls, [], 0))"

text \<open>Both functions index the second opcode without a length check; for nine opcodes the address is
  always read as a public key.\<close>

definition ExtractHTLCData ::
  "env \<Rightarrow> bytes \<Rightarrow> Params \<Rightarrow> (Address option \<times> ScriptClass \<times> int) sresult" where
  "ExtractHTLCData e pkScript params =
     bindE (parseE pkScript) (\<lambda>pops.
     bindE (getE pops 1) (\<lambda>pop.
     bindE (if isSmallInt (op_value pop) then Inr (to_int32 (asSmallInt (op_value pop)))
            else bindE (makeScriptNum (op_data pop) True 5) (\<lambda>n. Inr (to_int32 n))) (\<lambda>lockTime.
       let ret = (\<lambda>r cls. bindE (liftAddr r) (\<lambda>a. Inr (Some a, cls, lockTime)))
       in if length pops = 9 then ret (NewAddressPubKey e (op_data (pops ! 4)) params) PubKeyTy
          else if length pops = 10 then ret (NewAddressScriptHashFromHash (op_data (pops ! 5)) params) ScriptHashTy
          else if length pops = 12 then ret (NewAddressPubKeyHash (op_data (pops ! 6)) params) PubKeyHashTy
          else Inr (None, NonStandardTy, lockTime))))"

record AtomicSwapDataPushes =
  RecipientHash160 :: bytes
  RefundHash160 :: bytes
  SecretHash :: bytes
  SecretSize :: int
  SwapLockTime :: int

text \<open>A number pushed by a contract: \<open>None\<close> is the early return of no contract.\<close>

definition swapNumber :: "parsedOpcode \<Rightarrow> int option" where
  "swapNumber pop =
     (if hasData pop then (case makeScriptNum (op_data pop) True 5 of Inl _ \<Rightarrow> None | Inr n \<Rightarrow> Some n)
      else if isSmallInt (op_value pop) then Some (asSmallInt (op_value pop)) else None)"

definition swapTemplate :: "u8 option list" where
  "swapTemplate =
     [Some OP_IF, Some OP_SIZE, None, Some OP_EQUALVERIFY, Some OP_SHA256, Some OP_DATA_32, Some OP_EQUALVERIFY,
      Some OP_DUP, Some OP_HASH160, Some OP_DATA_20, Some OP_ELSE, None, Some OP_CHECKLOCKTIMEVERIFY, Some OP_DROP,
      Some OP_DUP, Some OP_HASH160, Some OP_DATA_20, Some OP_ENDIF, Some OP_EQUALVERIFY, Some OP_CHECKSIG]"

definition ExtractAtomicSwapDataPushes :: "bytes \<Rightarrow> AtomicSwapDataPushes option sresult" where
  "ExtractAtomicSwapDataPushes pkScript =
     bindE (parseE pkScript) (\<lambda>pops.
       if length pops \<noteq> 20 then Inr None
       else if \<not> list_all2 (\<lambda>pop t. case t of Some v \<Rightarrow> op_value pop = v | None \<Rightarrow> canonicalPush pop) pops swapTemplate
         then Inr None
       else
         case (swapNumber (pops ! 2), swapNumber (pops ! 11)) of
           (Some secretSize, Some lockTime) \<Rightarrow>
             Inr (Some \<lparr>RecipientHash160 = op_data (pops ! 9), RefundHash160 = op_data (pops ! 16),
               SecretHash = op_data (pops ! 5), SecretSize = secretSize, SwapLockTime = lockTime\<rparr>)
         | _ \<Rightarrow> Inr None)"

section \<open>Exchange agent registrations\<close>

text \<open>The owner of a registration is a pointer to a public key address.\<close>

record EADScriptData =
  ead_ShardID :: u32
  ead_IP :: "bytes option"
  ead_URL :: bytes
  ead_Port :: int
  ead_ExpirationDate :: int
  ead_Owner :: "Address option"
  ead_RawKey :: bytes

abbreviation (input) MaxEADDomainLen :: nat where "MaxEADDomainLen \<equiv> 256"

definition EADEncode :: "netlib \<Rightarrow> EADScriptData \<Rightarrow> bytes sresult" where
  "EADEncode N d =
     (let address = (case ead_IP d of Some ip \<Rightarrow> IPString N ip | None \<Rightarrow> ead_URL d)
      in if ead_IP d = None \<and> \<not> urlParse N (ead_URL d) then Inl (Err PlainError)
         else if length (ead_URL d) = 0 \<and> ead_IP d = None then Inl (Err PlainError)
         else if length (ead_URL d) > MaxEADDomainLen then Inl (Err PlainError)
         else
           bindE (case ead_Owner d of Some a \<Rightarrow> Inr (ScriptAddress a) | None \<Rightarrow> Inl Panic) (\<lambda>owner.
           bindE (Bytes (uint (ead_ShardID d + 16))) (\<lambda>shard.
           bindE (Bytes (ead_ExpirationDate d)) (\<lambda>date.
           bindE (Bytes (ead_Port d)) (\<lambda>port.
             builtScript (AddOp (AddOp (AddData (AddData (AddData (AddData (AddOp (AddOp (AddData NewScriptBuilder
               owner) OP_CHECKSIG) OP_NOP) shard) date) address) port) OP_2DROP) OP_2DROP))))))"

definition EADAddressScriptData :: "netlib \<Rightarrow> bytes \<Rightarrow> EADScriptData sresult" where
  "EADAddressScriptData N script =
     bindE (parseE script) (\<lambda>pops.
     bindE (getE pops 0) (\<lambda>key.
     bindE (getE pops 3) (\<lambda>shardPop.
     bindE (if isSmallInt (op_value shardPop) then Inr (word_of_int (asSmallInt (op_value shardPop)))
            else bindE (makeScriptNum (op_data shardPop) True 1) (\<lambda>n. Inr (word_of_int n))) (\<lambda>shardID.
     bindE (getE pops 4) (\<lambda>timePop.
     bindE (makeScriptNum (op_data timePop) False 5) (\<lambda>rawTime.
     bindE (getE pops 6) (\<lambda>portPop.
     bindE (makeScriptNum (op_data portPop) False 5) (\<lambda>rawPort.
       let address = op_data (pops ! 5); ip = ParseIP N address
       in Inr \<lparr>ead_ShardID = shardID - 16, ead_IP = ip, ead_URL = (if ip = None then address else []),
            ead_Port = rawPort, ead_ExpirationDate = rawTime, ead_Owner = None, ead_RawKey = hexEncode (op_data key)\<rparr>))))))))"

section \<open>Scripts in a fixed array\<close>

record PkScriptT =
  ps_class :: ScriptClass
  ps_script :: bytes

definition copy34 :: "bytes \<Rightarrow> bytes" where
  "copy34 script = take 34 (script @ replicate 34 0)"

definition isSupportedScriptType :: "ScriptClass \<Rightarrow> bool" where
  "isSupportedScriptType cls \<longleftrightarrow> cls \<in> {PubKeyHashTy, WitnessV0PubKeyHashTy, ScriptHashTy,
     WitnessV0ScriptHashTy, EADAddressTy, HTLCScriptTy}"

definition ParsePkScript :: "env \<Rightarrow> netlib \<Rightarrow> bytes \<Rightarrow> PkScriptT sresult" where
  "ParsePkScript e N pkScript =
     bindE (ExtractPkScriptAddrs e N pkScript MainNetParams) (\<lambda>(cls, _, _).
       if \<not> isSupportedScriptType cls then Inl (Err PlainError)
       else Inr \<lparr>ps_class = cls, ps_script = copy34 pkScript\<rparr>)"

definition Script :: "PkScriptT \<Rightarrow> bytes" where
  "Script s =
     (case ps_class s of
        PubKeyHashTy \<Rightarrow> take 25 (ps_script s)
      | WitnessV0PubKeyHashTy \<Rightarrow> take 22 (ps_script s)
      | ScriptHashTy \<Rightarrow> take 23 (ps_script s)
      | WitnessV0ScriptHashTy \<Rightarrow> take 34 (ps_script s)
      | _ \<Rightarrow> [])"

definition PkScriptAddress :: "env \<Rightarrow> netlib \<Rightarrow> PkScriptT \<Rightarrow> Params \<Rightarrow> Address sresult" where
  "PkScriptAddress e N s chainParams =
     bindE (ExtractPkScriptAddrs e N (Script s) chainParams) (\<lambda>(_, addrs, _). getE addrs 0)"

definition computeNonWitnessPkScript :: "env \<Rightarrow> bytes \<Rightarrow> PkScriptT sresult" where
  "computeNonWitnessPkScript e sigScript =
     (let pubKey = drop (length sigScript - 33) sigScript
      in if \<not> IsPushOnlyScript sigScript then Inl (Err PlainError)
         else if length sigScript \<ge> 44 \<and> length sigScript \<le> 108 \<and> IsCompressedPubKey pubKey then
           bindE (payToPubKeyHashScript (Hash160 e pubKey)) (\<lambda>script.
             Inr \<lparr>ps_class = PubKeyHashTy, ps_script = copy34 script\<rparr>)
         else
           bindE (parseE sigScript) (\<lambda>pops.
             if pops = [] then Inl Panic
             else
               bindE (payToScriptHashScript (Hash160 e (op_data (pops ! (length pops - 1))))) (\<lambda>script.
                 Inr \<lparr>ps_class = ScriptHashTy, ps_script = copy34 script\<rparr>)))"

definition computeWitnessPkScript :: "env \<Rightarrow> bytes list \<Rightarrow> PkScriptT sresult" where
  "computeWitnessPkScript e witness =
     (if witness = [] then Inl Panic
      else
        let lastWitnessItem = witness ! (length witness - 1)
        in if length witness = 2 \<and> length lastWitnessItem = 33 then
             bindE (payToWitnessPubKeyHashScript (Hash160 e lastWitnessItem)) (\<lambda>script.
               Inr \<lparr>ps_class = WitnessV0PubKeyHashTy, ps_script = copy34 script\<rparr>)
           else
             bindE (payToWitnessScriptHashScript (sha256 e lastWitnessItem)) (\<lambda>script.
               Inr \<lparr>ps_class = WitnessV0ScriptHashTy, ps_script = copy34 script\<rparr>))"

definition ComputePkScript :: "env \<Rightarrow> bytes \<Rightarrow> bytes list \<Rightarrow> PkScriptT sresult" where
  "ComputePkScript e sigScript witness =
     (if length sigScript > 0 then computeNonWitnessPkScript e sigScript
      else if length witness > 0 then computeWitnessPkScript e witness
      else Inl (Err PlainError))"

section \<open>What the builder builds\<close>

abbreviation op :: "u8 \<Rightarrow> parsedOpcode" where
  "op v \<equiv> \<lparr>op_value = v, op_data = []\<rparr>"

definition dataPop :: "bytes \<Rightarrow> parsedOpcode" where
  "dataPop d =
     (if d = [] \<or> d = [0] then op OP_0
      else if length d = 1 \<and> d ! 0 \<le> 16 then op ((OP_1 - 1) + d ! 0)
      else if d = [0x81] then op OP_1NEGATE
      else if length d < 76 then \<lparr>op_value = of_nat (length d), op_data = d\<rparr>
      else if length d \<le> 0xff then \<lparr>op_value = OP_PUSHDATA1, op_data = d\<rparr>
      else \<lparr>op_value = OP_PUSHDATA2, op_data = d\<rparr>)"

definition intPop :: "int \<Rightarrow> parsedOpcode" where
  "intPop v =
     (if v = 0 then op OP_0
      else if v = -1 \<or> v \<ge> 1 \<and> v \<le> 16 then op (word_of_int (80 + v))
      else dataPop (projr (Bytes v)))"

text \<open>A builder without error holds the serialisation of a list of opcodes, of at most \<open>n\<close> bytes.\<close>

definition builds :: "ScriptBuilder \<Rightarrow> parsedOpcode list \<Rightarrow> nat \<Rightarrow> bool" where
  "builds b pops n \<longleftrightarrow> \<not> sb_err b \<and> unparseScript pops = Inr (sb_script b) \<and> length (sb_script b) \<le> n"

lemma builds_New: "builds NewScriptBuilder [] 0"
  by (simp add: builds_def NewScriptBuilder_def)

lemma builds_done:
  assumes "builds b pops n"
  shows "builtScript b = Inr (sb_script b)" "parseE (sb_script b) = Inr pops" "parseScript (sb_script b) = (pops, None)"
  using assms unparse_parse [of pops "sb_script b"] by (simp_all add: builds_def builtScript_def parseE_def)

lemma unparse_snoc: "unparseScript pops = Inr s \<Longrightarrow> popBytes pop = Inr b \<Longrightarrow> unparseScript (pops @ [pop]) = Inr (s @ b)"
  by (simp add: unparse_append)

lemma builds_AddOp:
  assumes "builds b pops n" "opcode_length v = 1" "n < 10000"
  shows "builds (AddOp b v) (pops @ [op v]) (n + 1)"
  using assms by (auto simp: builds_def AddOp_def MaxScriptSize_def popBytes_def intro!: unparse_snoc)

lemma addData_bytes:
  assumes "length d \<le> 520"
  obtains bs where "addData b d = b\<lparr>sb_script := sb_script b @ bs\<rparr>" "popBytes (dataPop d) = Inr bs" "length bs = canonicalDataSize d"
proof -
  have one: "length d = 1 \<longleftrightarrow> (\<exists>x. d = [x])" by (simp add: length_Suc_conv)
  have small: "opcode_length (of_nat k) = int k + 1" "(of_nat k :: u8) \<noteq> 0" if "0 < k" "k < 76" for k :: nat
  proof -
    have u: "uint (of_nat k :: u8) = int k" using that by (simp add: uint_nat unat_of_nat)
    then show "(of_nat k :: u8) \<noteq> 0" using that by auto
    with u that show "opcode_length (of_nat k) = int k + 1" by (simp add: opcode_length_def word_le_def)
  qed
  consider (zero) "d = [] \<or> d = [0]" | (int) x where "d = [x]" "x \<noteq> 0" "x \<le> 16" | (neg) "d = [0x81]"
    | (short) "0 < length d" "length d < 76" "\<not> (length d = 1 \<and> d ! 0 \<le> 16)" "d \<noteq> [0x81]" "d \<noteq> [0]"
    | (medium) "76 \<le> length d" "length d \<le> 255" | (long) "255 < length d"
  proof -
    consider "d = []" | x where "d = [x]" | "2 \<le> length d" by (cases d; cases "tl d") auto
    then show thesis
    proof cases
      case (2 x)
      consider "x = 0" | "x \<noteq> 0" "x \<le> 16" | "x = 0x81" | "x \<noteq> 0" "\<not> x \<le> 16" "x \<noteq> 0x81" by blast
      then show thesis using that 2 by cases auto
    next
      case 3
      then have "length d \<noteq> 1" "d \<noteq> [0x81]" "d \<noteq> [0]" by auto
      with 3 that(4-6) show thesis by (meson not_le_imp_less not_less order_less_le_trans zero_less_numeral)
    qed (use that in auto)
  qed
  then show thesis
  proof cases
    case zero
    then show ?thesis
      by (intro that [of "[0]"]) (auto simp: addData_def dataPop_def popBytes_def opcode_length_def canonicalDataSize_def Let_def)
  next
    case (int x)
    have "0x50 + x \<noteq> 0 \<and> \<not> 0x50 + x \<le> 0x4b \<and> 0x50 + x \<notin> {0x4c, 0x4d, 0x4e}"
      using int(2,3) by (auto simp: word_le_nat_alt unat_word_ariths word_unat_eq_iff)
    then have "opcode_length (0x50 + x) = 1" by (simp add: opcode_length_def)
    with int show ?thesis
      by (intro that [of "[0x50 + x]"]) (auto simp: addData_def dataPop_def popBytes_def canonicalDataSize_def Let_def)
  next
    case neg
    then show ?thesis
      by (intro that [of "[0x4f]"]) (auto simp: addData_def dataPop_def popBytes_def opcode_length_def canonicalDataSize_def Let_def)
  next
    case short
    then have "\<not> (length d = 1 \<and> d ! 0 = 0x81)" using one by auto
    with short show ?thesis
      by (intro that [of "of_nat (length d) # d"])
        (auto simp: addData_def dataPop_def popBytes_def canonicalDataSize_def Let_def small)
  next
    case medium
    then show ?thesis
      by (intro that [of "OP_PUSHDATA1 # of_nat (length d) # d"])
        (auto simp: addData_def dataPop_def popBytes_def opcode_length_def canonicalDataSize_def Let_def unat_of_nat_u8)
  next
    case long
    with assms show ?thesis using le2_val [of "length d"]
      by (intro that [of "OP_PUSHDATA2 # of_nat (take_bit 8 (length d)) # of_nat (take_bit 8 (drop_bit 8 (length d))) # d"])
        (auto simp: addData_def dataPop_def popBytes_def opcode_length_def canonicalDataSize_def Let_def)
  qed
qed

lemma builds_AddData:
  assumes "builds b pops n" "length d \<le> 520" "n + length d + 3 \<le> 10000"
  shows "builds (AddData b d) (pops @ [dataPop d]) (n + length d + 3)"
proof -
  obtain bs where bs: "addData b d = b\<lparr>sb_script := sb_script b @ bs\<rparr>" "popBytes (dataPop d) = Inr bs" "length bs = canonicalDataSize d"
    by (rule addData_bytes [OF assms(2)])
  have "canonicalDataSize d \<le> length d + 3" using assms(2) by (auto simp: canonicalDataSize_def Let_def)
  with assms bs show ?thesis
    by (auto simp: builds_def AddData_def MaxScriptSize_def MaxScriptElementSize_def intro!: unparse_snoc)
qed

lemma Bytes_short: "\<bar>v\<bar> < 2 ^ 31 \<Longrightarrow> \<exists>bs. Bytes v = Inr bs \<and> length bs \<le> 4 \<and> (\<forall>m. makeScriptNum bs m 5 = Inr v) \<and> snum_val bs = v"
proof -
  assume v: "\<bar>v\<bar> < 2 ^ 31"
  obtain bs where bs: "Bytes v = Inr bs" "snum_val bs = v" "checkMinimalDataEncoding bs = Inr ()" using Bytes_spec [of v] v by (auto simp: abs_less_iff)
  moreover have "length bs \<le> 4" using Bytes_length [of 4 v bs] bs v by simp
  moreover have "\<exists>b. Bytes v = Inr b \<and> makeScriptNum b m 5 = Inr v" for m using snum.encode_decode [of 5 v m] v by auto
  ultimately show ?thesis by auto
qed

lemma builds_AddInt64:
  assumes "builds b pops n" "\<bar>v\<bar> < 2 ^ 31" "n + 7 \<le> 10000"
  obtains b' where "AddInt64 b v = Inr b'" "builds b' (pops @ [intPop v]) (n + 7)"
proof -
  obtain bs where bs: "Bytes v = Inr bs" "length bs \<le> 4" using Bytes_short [OF assms(2)] by blast
  have small: "opcode_length (word_of_int (80 + v)) = 1" if "v = -1 \<or> v \<ge> 1 \<and> v \<le> 16"
  proof -
    have "uint (word_of_int (80 + v) :: u8) = 80 + v" using that by (simp only: uint_word_of_int) auto
    then show ?thesis using that by (auto simp: opcode_length_def word_le_def word_uint_eq_iff)
  qed
  consider "v = 0" | "v = -1 \<or> v \<ge> 1 \<and> v \<le> 16" | "v \<noteq> 0" "\<not> (v = -1 \<or> v \<ge> 1 \<and> v \<le> 16)" by blast
  then show thesis
  proof cases
    case 1
    with assms show ?thesis
      by (intro that [of "b\<lparr>sb_script := sb_script b @ [OP_0]\<rparr>"])
        (auto simp: AddInt64_def builds_def MaxScriptSize_def intPop_def popBytes_def opcode_length_def intro!: unparse_snoc)
  next
    case 2
    with assms small [OF 2] show ?thesis
      by (intro that [of "b\<lparr>sb_script := sb_script b @ [word_of_int (80 + v)]\<rparr>"])
        (auto simp: AddInt64_def builds_def MaxScriptSize_def intPop_def popBytes_def intro!: unparse_snoc)
  next
    case 3
    have "builds (AddData b bs) (pops @ [dataPop bs]) (n + length bs + 3)" using assms bs(2) by (intro builds_AddData) auto
    then have "builds (AddData b bs) (pops @ [intPop v]) (n + 7)" using 3 bs by (auto simp: intPop_def builds_def)
    moreover have "AddInt64 b v = Inr (AddData b bs)" using 3 assms bs(1) by (auto simp: AddInt64_def builds_def MaxScriptSize_def)
    ultimately show ?thesis using that by blast
  qed
qed

section \<open>Classification of what was built\<close>

lemma dataPop_simps:
  "length d = 20 \<Longrightarrow> dataPop d = \<lparr>op_value = OP_DATA_20, op_data = d\<rparr>"
  "length d = 32 \<Longrightarrow> dataPop d = \<lparr>op_value = OP_DATA_32, op_data = d\<rparr>"
  "keyLen d \<Longrightarrow> op_data (dataPop d) = d \<and> op_value (dataPop d) = of_nat (length d)"
  by (auto simp: dataPop_def keyLen_def)

lemma opcode_length_ops:
  "opcode_length OP_0 = 1" "opcode_length OP_DUP = 1" "opcode_length OP_HASH160 = 1" "opcode_length OP_EQUALVERIFY = 1"
  "opcode_length OP_CHECKSIG = 1" "opcode_length OP_EQUAL = 1" "opcode_length OP_RETURN = 1" "opcode_length OP_INPUTAGE = 1"
  "opcode_length OP_GREATERTHAN = 1" "opcode_length OP_LESSTHAN = 1" "opcode_length OP_IF = 1" "opcode_length OP_ELSE = 1"
  "opcode_length OP_ENDIF = 1" "opcode_length OP_NIP = 1" "opcode_length OP_CHECKMULTISIG = 1" "opcode_length OP_NOP = 1"
  "opcode_length OP_2DROP = 1"
  by (simp_all add: opcode_length_def)

text \<open>An address of a network as its constructors make it.\<close>

definition net_address :: "env \<Rightarrow> Params \<Rightarrow> Address \<Rightarrow> bool" where
  "net_address e net a =
     (case a of
        AddressPubKeyHash hash netID \<Rightarrow> length hash = 20 \<and> netID = PubKeyHashAddrID net
      | AddressScriptHash hash netID \<Rightarrow> length hash = 20 \<and> netID = ScriptHashAddrID net
      | AddressPubKey fmt key netID \<Rightarrow>
          ParsePubKey e (serializeKey fmt key) = Some key \<and> keyLen (serializeKey fmt key) \<and> netID = PubKeyHashAddrID net
      | AddressWitnessPubKeyHash hrp ver prog \<Rightarrow> hrp = toLower (Bech32HRPSegwit net) \<and> ver = 0 \<and> length prog = 20
      | AddressWitnessScriptHash hrp ver prog \<Rightarrow> hrp = toLower (Bech32HRPSegwit net) \<and> ver = 0 \<and> length prog = 32
      | HTLCAddress script netID \<Rightarrow> False)"

definition addrClass :: "Address \<Rightarrow> ScriptClass" where
  "addrClass a =
     (case a of AddressPubKeyHash _ _ \<Rightarrow> PubKeyHashTy | AddressScriptHash _ _ \<Rightarrow> ScriptHashTy
      | AddressPubKey _ _ _ \<Rightarrow> PubKeyTy | AddressWitnessPubKeyHash _ _ _ \<Rightarrow> WitnessV0PubKeyHashTy
      | AddressWitnessScriptHash _ _ _ \<Rightarrow> WitnessV0ScriptHashTy | HTLCAddress _ _ \<Rightarrow> HTLCScriptTy)"

text \<open>The opcodes of the script that pays to an address.\<close>

definition addrPops :: "Address \<Rightarrow> parsedOpcode list" where
  "addrPops a =
     (let d = dataPop (ScriptAddress a)
      in case a of AddressPubKeyHash _ _ \<Rightarrow> [op OP_DUP, op OP_HASH160, d, op OP_EQUALVERIFY, op OP_CHECKSIG]
         | AddressScriptHash _ _ \<Rightarrow> [op OP_HASH160, d, op OP_EQUAL]
         | AddressPubKey _ _ _ \<Rightarrow> [d, op OP_CHECKSIG]
         | _ \<Rightarrow> [op OP_0, d])"

lemma net_address_len: "net_address e net a \<Longrightarrow> length (ScriptAddress a) \<le> 65"
  by (auto simp: net_address_def ScriptAddress_def keyLen_def split: Address.splits)

text \<open>A run of additions as a list of items.\<close>

datatype item = Op u8 | Data bytes

fun addItem :: "ScriptBuilder \<Rightarrow> item \<Rightarrow> ScriptBuilder" where
  "addItem b (Op v) = AddOp b v"
| "addItem b (Data d) = AddData b d"

fun itemPop :: "item \<Rightarrow> parsedOpcode" where
  "itemPop (Op v) = op v"
| "itemPop (Data d) = dataPop d"

fun item_ok :: "item \<Rightarrow> bool" where
  "item_ok (Op v) \<longleftrightarrow> opcode_length v = 1"
| "item_ok (Data d) \<longleftrightarrow> length d \<le> 520"

fun itemSize :: "item \<Rightarrow> nat" where
  "itemSize (Op v) = 1"
| "itemSize (Data d) = length d + 3"

lemma builds_items:
  "builds b pops n \<Longrightarrow> list_all item_ok items \<Longrightarrow> n + sum_list (map itemSize items) \<le> 10000 \<Longrightarrow>
   builds (foldl addItem b items) (pops @ map itemPop items) (n + sum_list (map itemSize items))"
proof (induction items arbitrary: b pops n)
  case (Cons i items)
  have "builds (addItem b i) (pops @ [itemPop i]) (n + itemSize i)"
    using Cons.prems by (cases i) (auto intro!: builds_AddOp [simplified] builds_AddData simp: add.assoc [symmetric])
  from Cons.IH [OF this] Cons.prems show ?case by (simp add: add.assoc)
qed simp

lemmas builds_run = builds_items [OF builds_New, simplified]

lemma PayToAddr_pops:
  assumes "net_address e net a"
  obtains s where "PayToAddrScript a = Inr s" "parseE s = Inr (addrPops a)"
proof -
  let ?d = "ScriptAddress a"
  note len = net_address_len [OF assms]
  have run: "\<exists>s. builtScript (foldl addItem NewScriptBuilder items) = Inr s \<and> parseE s = Inr (map itemPop items)"
    if "list_all item_ok items" "sum_list (map itemSize items) \<le> 10000" for items
    using builds_done [OF builds_run [OF that]] by blast
  have "\<exists>s. PayToAddrScript a = Inr s \<and> parseE s = Inr (addrPops a)"
  proof (cases a)
    case (AddressPubKeyHash h n)
    then show ?thesis using run [of "[Op OP_DUP, Op OP_HASH160, Data ?d, Op OP_EQUALVERIFY, Op OP_CHECKSIG]"] len
      by (simp add: PayToAddrScript_def payToPubKeyHashScript_def addrPops_def opcode_length_ops)
  next
    case (AddressScriptHash h n)
    then show ?thesis using run [of "[Op OP_HASH160, Data ?d, Op OP_EQUAL]"] len
      by (simp add: PayToAddrScript_def payToScriptHashScript_def addrPops_def opcode_length_ops)
  next
    case (AddressPubKey fmt key n)
    then show ?thesis using run [of "[Data ?d, Op OP_CHECKSIG]"] len
      by (simp add: PayToAddrScript_def payToPubKeyScript_def addrPops_def opcode_length_ops)
  next
    case (AddressWitnessPubKeyHash hrp ver prog)
    then show ?thesis using run [of "[Op OP_0, Data ?d]"] len
      by (simp add: PayToAddrScript_def payToWitnessPubKeyHashScript_def addrPops_def opcode_length_ops)
  next
    case (AddressWitnessScriptHash hrp ver prog)
    then show ?thesis using run [of "[Op OP_0, Data ?d]"] len
      by (simp add: PayToAddrScript_def payToWitnessScriptHashScript_def addrPops_def opcode_length_ops)
  qed (use assms in \<open>simp add: net_address_def\<close>)
  then show thesis using that by blast
qed

lemma okAddrs_simps [simp]: "okAddrs [Inr a] = [a]"
  by (simp add: okAddrs_def List.map_filter_def)

lemma NewAddressPubKey_serializeKey:
  assumes "ParsePubKey e (serializeKey fmt key) = Some key"
  shows "NewAddressPubKey e (serializeKey fmt key) net = Inr (AddressPubKey fmt key (PubKeyHashAddrID net))"
proof -
  obtain b bs where "serializeKey fmt key = b # bs"
      "b \<in> (case fmt of PKFUncompressed \<Rightarrow> {4} | PKFCompressed \<Rightarrow> {2, 3} | PKFHybrid \<Rightarrow> {6, 7})"
    by (rule serializeKey_hd)
  with assms show ?thesis by (cases fmt) (auto simp: NewAddressPubKey_def)
qed

lemmas template_defs = isPubkey_def isPubkeyHash_def isWitnessPubKeyHash_def isScriptHash_def isWitnessScriptHash_def
  isMultiSig_def isMultiSigLock_def isEADRegistration_def isNullData_def

lemmas newAddress_defs = NewAddressPubKeyHash_def newAddressPubKeyHash_def NewAddressScriptHashFromHash_def
  newAddressScriptHashFromHash_def NewAddressWitnessPubKeyHash_def newAddressWitnessPubKeyHash_def
  NewAddressWitnessScriptHash_def newAddressWitnessScriptHash_def NewHTLCAddress_def newHTLCAddress_def

lemma typeOf_addrPops: "net_address e net a \<Longrightarrow> typeOfScript N (addrPops a) = addrClass a"
  by (cases a) (auto simp: net_address_def addrPops_def addrClass_def typeOfScript_def template_defs dataPop_simps ScriptAddress_def)

lemma ExtractPkScriptAddrs_pay:
  assumes "net_address e net a" "parseE s = Inr (addrPops a)"
  shows "ExtractPkScriptAddrs e N s net = Inr (addrClass a, [a], 1)"
proof -
  have "addrClass a \<noteq> MultiSigTy" "addrClass a \<noteq> MultiSigLockTy" by (cases a; simp add: addrClass_def)+
  then show ?thesis using assms typeOf_addrPops [OF assms(1), of N]
    by (cases a) (auto simp: ExtractPkScriptAddrs_def Let_def net_address_def addrPops_def addrClass_def dataPop_simps ScriptAddress_def
      newAddress_defs NewAddressPubKey_serializeKey)
qed

section \<open>Time-locked scripts\<close>

lemma asSmallInt_of_int: "1 \<le> v \<Longrightarrow> v \<le> 16 \<Longrightarrow> asSmallInt (word_of_int (80 + v)) = v \<and> isSmallInt (word_of_int (80 + v))"
proof -
  assume v: "1 \<le> v" "v \<le> 16"
  have u: "uint (word_of_int (80 + v) :: u8) = 80 + v" using v by (simp only: uint_word_of_int) simp
  have "uint (word_of_int (80 + v) - 0x50 :: u8) = v"
  proof -
    have "(word_of_int (80 + v) - 0x50 :: u8) = word_of_int v" by simp
    then show ?thesis using v by (simp add: uint_word_of_int)
  qed
  moreover have "(word_of_int (80 + v) :: u8) \<noteq> 0" using u v by (auto simp: word_uint_eq_iff)
  ultimately show ?thesis using u v by (auto simp: asSmallInt_def isSmallInt_def word_le_def)
qed

lemma intPop_number:
  assumes "0 \<le> v" "v < 2 ^ 31"
  shows "isNumber (op_value (intPop v))"
    "isSmallInt (op_value (intPop v)) \<Longrightarrow> asSmallInt (op_value (intPop v)) = v"
    "\<not> isSmallInt (op_value (intPop v)) \<Longrightarrow> makeScriptNum (op_data (intPop v)) m 5 = Inr v"
proof -
  consider "v = 0" | "1 \<le> v" "v \<le> 16" | "16 < v" using assms(1) by linarith
  then have "isNumber (op_value (intPop v)) \<and> (isSmallInt (op_value (intPop v)) \<longrightarrow> asSmallInt (op_value (intPop v)) = v) \<and>
    (\<not> isSmallInt (op_value (intPop v)) \<longrightarrow> makeScriptNum (op_data (intPop v)) m 5 = Inr v)"
  proof cases
    case 1
    then show ?thesis by (simp add: intPop_def isNumber_def isSmallInt_def asSmallInt_def)
  next
    case 2
    then show ?thesis using asSmallInt_of_int [OF 2] by (simp add: intPop_def isNumber_def)
  next
    case 3
    obtain bs where bs: "Bytes v = Inr bs" "length bs \<le> 4" "makeScriptNum bs m 5 = Inr v" "snum_val bs = v"
      using Bytes_short [of v] assms by auto
    have "bs \<noteq> []" using bs(4) 3 by (auto simp: snum_val_def)
    moreover have "bs ! 0 \<notin> {0x81} \<and> \<not> bs ! 0 \<le> 16" if one: "length bs = 1"
    proof -
      obtain x where x: "bs = [x]" using one by (cases bs) auto
      have "x \<noteq> 0x81" using bs(4) 3 x by (auto simp: snum_val_def)
      moreover have "uint x \<le> 16 \<Longrightarrow> snum_val [x] \<le> 16" by (auto simp: snum_val_def)
      ultimately show ?thesis using bs(4) 3 x by (auto simp: word_le_def)
    qed
    ultimately have d: "dataPop bs = \<lparr>op_value = of_nat (length bs), op_data = bs\<rparr>"
      using bs(2) by (auto simp: dataPop_def)
    have "length bs = 1 \<or> length bs = 2 \<or> length bs = 3 \<or> length bs = 4"
      using bs(2) \<open>bs \<noteq> []\<close> unfolding length_greater_0_conv [symmetric] by linarith
    then have "isNumber (of_nat (length bs)) \<and> \<not> isSmallInt (of_nat (length bs))" by (auto simp: isNumber_def isSmallInt_def word_le_def)
    then show ?thesis using 3 bs d by (simp add: intPop_def)
  qed
  then show "isNumber (op_value (intPop v))" "isSmallInt (op_value (intPop v)) \<Longrightarrow> asSmallInt (op_value (intPop v)) = v"
    "\<not> isSmallInt (op_value (intPop v)) \<Longrightarrow> makeScriptNum (op_data (intPop v)) m 5 = Inr v" by blast+
qed

definition htlcPops :: "Address \<Rightarrow> int \<Rightarrow> parsedOpcode list" where
  "htlcPops a lock = [op OP_INPUTAGE, intPop lock, op OP_GREATERTHAN, op OP_IF] @ addrPops a @ [op OP_ELSE, op OP_RETURN, op OP_ENDIF]"

fun addrItems :: "Address \<Rightarrow> item list" where
  "addrItems (AddressPubKeyHash h n) = [Op OP_DUP, Op OP_HASH160, Data h, Op OP_EQUALVERIFY, Op OP_CHECKSIG]"
| "addrItems (AddressScriptHash h n) = [Op OP_HASH160, Data h, Op OP_EQUAL]"
| "addrItems (AddressPubKey fmt key n) = [Data (serializeKey fmt key), Op OP_CHECKSIG]"
| "addrItems (AddressWitnessPubKeyHash hrp ver prog) = [Op OP_0, Data prog]"
| "addrItems (AddressWitnessScriptHash hrp ver prog) = [Op OP_0, Data prog]"
| "addrItems (HTLCAddress script n) = []"

lemma HTLCScript_pops:
  assumes "net_address e net a" "0 \<le> lock" "lock < 2 ^ 31"
  obtains s where "HTLCScript a lock = Inr s" "parseE s = Inr (htlcPops a lock)"
proof -
  note len = net_address_len [OF assms(1)]
  have b0: "builds (AddOp NewScriptBuilder OP_INPUTAGE) [op OP_INPUTAGE] 1"
    using builds_AddOp [OF builds_New, of OP_INPUTAGE] by (simp add: opcode_length_ops)
  obtain b1 where b1: "AddInt64 (AddOp NewScriptBuilder OP_INPUTAGE) lock = Inr b1"
      "builds b1 ([op OP_INPUTAGE] @ [intPop lock]) (1 + 7)"
    by (rule builds_AddInt64 [OF b0]) (use assms(2,3) in auto)
  define items where "items = [Op OP_GREATERTHAN, Op OP_IF] @ addrItems a @ [Op OP_ELSE, Op OP_RETURN, Op OP_ENDIF]"
  have "builds (foldl addItem b1 items) (([op OP_INPUTAGE] @ [intPop lock]) @ map itemPop items) (1 + 7 + sum_list (map itemSize items))"
    by (rule builds_items [OF b1(2)]) (use len in \<open>cases a; simp add: items_def opcode_length_ops ScriptAddress_def\<close>)+
  moreover have "([op OP_INPUTAGE] @ [intPop lock]) @ map itemPop items = htlcPops a lock"
    using assms(1) by (cases a) (simp_all add: items_def htlcPops_def addrPops_def ScriptAddress_def net_address_def)
  moreover have "HTLCScript a lock = builtScript (foldl addItem b1 items)"
    using assms(1) b1(1) by (cases a) (simp_all add: items_def HTLCScript_def ScriptAddress_def net_address_def)
  ultimately show thesis using that builds_done by metis
qed

lemma isHTLC_htlcPops:
  assumes "net_address e net a" "0 \<le> lock" "lock < 2 ^ 31"
  shows "isHTLC (htlcPops a lock) = (True, addrClass a)"
  using assms(1) intPop_number(1) [OF assms(2,3)]
  by (cases a) (auto simp: htlcPops_def addrPops_def isHTLC_def Let_def isOpCode_def net_address_def addrClass_def dataPop_simps ScriptAddress_def keyLen_def
    eval_nat_numeral)

lemma typeOf_htlcPops:
  assumes "net_address e net a" "0 \<le> lock" "lock < 2 ^ 31"
  shows "typeOfScript N (htlcPops a lock) = HTLCScriptTy"
  using assms(1) isHTLC_htlcPops [OF assms]
  by (cases a) (auto simp: typeOfScript_def template_defs htlcPops_def addrPops_def net_address_def isSmallInt_def keyLen_def)

lemma ExtractHTLCLockTime_htlcPops:
  assumes "parseE s = Inr (htlcPops a lock)" "0 \<le> lock" "lock < 2 ^ 31"
  shows "ExtractHTLCLockTime s = Inr lock"
  using assms(2,3) intPop_number [OF assms(2,3)]
  by (simp add: ExtractHTLCLockTime_def assms(1) htlcPops_def)

lemma ExtractPkScriptAddrs_htlc:
  assumes "net_address e net a" "parseE s = Inr (htlcPops a lock)" "0 \<le> lock" "lock < 2 ^ 31"
  shows "ExtractPkScriptAddrs e N s net = Inr (HTLCScriptTy, [a, HTLCAddress s (HTLCAddressID net)], 1)"
  using assms(1) typeOf_htlcPops [OF assms(1,3,4), of N]
  by (cases a) (auto simp: ExtractPkScriptAddrs_def assms(2) Let_def extractHTLCAddrs_def liftAddr_def htlcPops_def addrPops_def
    net_address_def ScriptAddress_def dataPop_simps newAddress_defs NewAddressPubKey_serializeKey keyLen_def eval_nat_numeral)

section \<open>The templates exclude each other\<close>

fun template :: "netlib \<Rightarrow> parsedOpcode list \<Rightarrow> ScriptClass \<Rightarrow> bool" where
  "template N pops PubKeyTy = isPubkey pops"
| "template N pops PubKeyHashTy = isPubkeyHash pops"
| "template N pops WitnessV0PubKeyHashTy = isWitnessPubKeyHash pops"
| "template N pops ScriptHashTy = isScriptHash pops"
| "template N pops WitnessV0ScriptHashTy = isWitnessScriptHash pops"
| "template N pops MultiSigTy = isMultiSig pops"
| "template N pops MultiSigLockTy = isMultiSigLock pops"
| "template N pops EADAddressTy = isEADRegistration N pops"
| "template N pops HTLCScriptTy = fst (isHTLC pops)"
| "template N pops NullDataTy = isNullData pops"
| "template N pops NonStandardTy = False"

definition noData :: "parsedOpcode \<Rightarrow> bool" where
  "noData pop \<longleftrightarrow> (opcode_length (op_value pop) = 1 \<longrightarrow> op_data pop = [])"

lemma unparse_noData: "unparseScript pops = Inr s \<Longrightarrow> list_all noData pops"
  by (induction pops arbitrary: s) (auto simp: bindE_Inr_iff noData_def popBytes_def split: if_splits)

lemma isSmallInt_length: "isSmallInt v \<Longrightarrow> opcode_length v = 1"
  by (auto simp: isSmallInt_def opcode_length_def word_le_def word_uint_eq_iff)

lemma smallInt_no_key: "noData pop \<Longrightarrow> isSmallInt (op_value pop) \<Longrightarrow> \<not> keyLen (op_data pop)"
  by (simp add: noData_def isSmallInt_length keyLen_def)

lemma ops_no_smallInt:
  "\<not> isSmallInt OP_DUP" "\<not> isSmallInt OP_INPUTAGE" "\<not> isSmallInt OP_RETURN" "\<not> isSmallInt OP_HASH160"
  by (simp_all add: isSmallInt_def)

lemma multiSig_shape: "isMultiSig pops \<Longrightarrow> 4 \<le> length pops \<and> isSmallInt (op_value (pops ! 0))"
  by (auto simp: isMultiSig_def Let_def split: if_splits)

lemma multiSigLock_shape: "isMultiSigLock pops \<Longrightarrow> 13 \<le> length pops \<and> op_value (pops ! 0) = OP_INPUTAGE"
  by (auto simp: isMultiSigLock_def isOpCode_def Let_def split: if_splits)

lemma HTLC_shape: "fst (isHTLC pops) \<Longrightarrow> 9 \<le> length pops \<and> length pops \<le> 12 \<and> op_value (pops ! 0) = OP_INPUTAGE"
  by (auto simp: isHTLC_def isOpCode_def Let_def split: if_splits)

lemma EAD_shape: "isEADRegistration N pops \<Longrightarrow> length pops = 9 \<and> keyLen (op_data (pops ! 0))"
  by (simp add: isEADRegistration_def)

lemma nullData_shape: "isNullData pops \<Longrightarrow> length pops \<in> {1, 2} \<and> op_value (pops ! 0) = OP_RETURN"
  by (auto simp: isNullData_def Let_def split: if_splits)

lemma key_not_op: "noData pop \<Longrightarrow> keyLen (op_data pop) \<Longrightarrow> op_value pop \<notin> {OP_0, OP_RETURN, OP_INPUTAGE}"
  by (auto simp: noData_def keyLen_def opcode_length_def)

lemmas template_shapes = multiSig_shape multiSigLock_shape HTLC_shape EAD_shape nullData_shape

lemma template_unique:
  assumes n: "noData (pops ! 0)" and t: "template N pops c" "template N pops d"
  shows "c = d"
proof -
  have lock: "\<not> (isMultiSigLock pops \<and> fst (isHTLC pops))"
    by (auto simp: isMultiSigLock_def isHTLC_def isOpCode_def Let_def split: if_splits)
  show ?thesis
    by (rule ccontr, insert t, cases c; cases d; simp add: isPubkey_def isPubkeyHash_def isWitnessPubKeyHash_def isScriptHash_def isWitnessScriptHash_def;
      ((drule template_shapes)+)?; (use lock smallInt_no_key [OF n] key_not_op [OF n] in \<open>force simp: ops_no_smallInt\<close>))
qed

lemma GetScriptClass_template:
  assumes "parseE s = Inr pops"
  shows "GetScriptClass N s = c \<longleftrightarrow> template N pops c \<or> c = NonStandardTy \<and> (\<forall>d. \<not> template N pops d)"
proof (cases "pops = []")
  case True
  then have "\<not> template N pops d" for d by (cases d) (simp_all add: template_defs isHTLC_def)
  moreover have "typeOfScript N pops = NonStandardTy" using True by (simp add: typeOfScript_def template_defs isHTLC_def)
  ultimately show ?thesis using assms by (auto simp: GetScriptClass_def)
next
  case False
  have "unparseScript pops = Inr s" using assms by (auto simp: parseE_def split: prod.splits option.splits intro: parse_unparse)
  then have n: "noData (pops ! 0)" using unparse_noData False by (cases pops) fastforce+
  have t: "template N pops (typeOfScript N pops) \<or> typeOfScript N pops = NonStandardTy \<and> (\<forall>d. \<not> template N pops d)"
  proof (cases "\<exists>d. template N pops d")
    case True
    then obtain d where "template N pops d" by blast
    then show ?thesis by (cases d) (simp_all add: typeOfScript_def)
  qed (auto simp: typeOfScript_def dest: spec [of _ PubKeyTy] spec [of _ PubKeyHashTy] spec [of _ WitnessV0PubKeyHashTy] spec [of _ ScriptHashTy]
      spec [of _ WitnessV0ScriptHashTy] spec [of _ MultiSigTy] spec [of _ MultiSigLockTy] spec [of _ EADAddressTy] spec [of _ HTLCScriptTy] spec [of _ NullDataTy])
  then show ?thesis using assms template_unique [OF n] by (auto simp: GetScriptClass_def)
qed

section \<open>Bounds on the signature operations\<close>

lemma parse_size: "sum_list (map (\<lambda>pop. Suc (length (op_data pop))) (fst (parseScript s))) \<le> length s"
proof (induction s rule: parseScript.induct)
  case (2 instr rest)
  show ?case using 2
    by (force simp: parseScript.simps(2) Let_def apfst_def map_prod_def split: prod.splits)
qed simp

lemma parse_size_le:
  "length (fst (parseScript s)) \<le> length s"
  "pop \<in> set (fst (parseScript s)) \<Longrightarrow> length (op_data pop) \<le> length s"
proof -
  have "length ps \<le> sum_list (map (\<lambda>pop. Suc (length (op_data pop))) ps)" for ps by (induction ps) auto
  then show "length (fst (parseScript s)) \<le> length s" using parse_size [of s] order_trans by blast
  assume "pop \<in> set (fst (parseScript s))"
  then have "Suc (length (op_data pop)) \<le> sum_list (map (\<lambda>pop. Suc (length (op_data pop))) (fst (parseScript s)))"
    by (intro member_le_sum_list) auto
  then show "length (op_data pop) \<le> length s" using parse_size [of s] by linarith
qed

lemma sigOps_bounds: "0 \<le> sigOps True pops i \<and> sigOps True pops i \<le> sigOps False pops i \<and> sigOps False pops i \<le> 20"
proof -
  have "0 \<le> asSmallInt v \<and> asSmallInt v \<le> 20" if "OP_1 \<le> v" "v \<le> OP_16" for v
    using that by (auto simp: asSmallInt_def word_le_def uint_sub_if')
  then show ?thesis by (simp add: sigOps_def Let_def MaxPubKeysPerMultiSig_def)
qed

lemma getSigOpCount_sum: "getSigOpCount pops precise = (\<Sum>i < length pops. sigOps precise pops i)"
proof -
  have "fold (\<lambda>i n. n + f i) [0..<k] a = a + (\<Sum>i < k. f i)" for f :: "nat \<Rightarrow> int" and k a by (induction k) simp_all
  then show ?thesis by (simp add: getSigOpCount_def)
qed

lemma getSigOpCount_bounds:
  "0 \<le> getSigOpCount pops True" "getSigOpCount pops True \<le> getSigOpCount pops False" "getSigOpCount pops False \<le> 20 * int (length pops)"
proof -
  show "0 \<le> getSigOpCount pops True" "getSigOpCount pops True \<le> getSigOpCount pops False"
    using sigOps_bounds by (auto simp: getSigOpCount_sum intro: sum_nonneg sum_mono)
  have "(\<Sum>i < length pops. sigOps False pops i) \<le> (\<Sum>i < length pops. 20)" using sigOps_bounds by (intro sum_mono) auto
  then show "getSigOpCount pops False \<le> 20 * int (length pops)" by (simp add: getSigOpCount_sum)
qed

section \<open>Registrations built and read\<close>

lemma num_data:
  assumes "16 < v" "v < 2 ^ 31"
  obtains bs where "Bytes v = Inr bs" "length bs \<le> 4" "op_data (dataPop bs) = bs" "isNumber (op_value (dataPop bs))"
    "\<not> isSmallInt (op_value (dataPop bs))" "\<forall>m. makeScriptNum bs m 5 = Inr v" "snum_val bs = v"
proof -
  obtain bs where bs: "Bytes v = Inr bs" "length bs \<le> 4" "\<forall>m. makeScriptNum bs m 5 = Inr v" "snum_val bs = v"
    using Bytes_short [of v] assms by auto
  have i: "intPop v = dataPop bs" using assms(1) bs(1) by (simp add: intPop_def)
  have n: "isNumber (op_value (dataPop bs))" using intPop_number(1) [of v] assms i by simp
  have s: "\<not> isSmallInt (op_value (dataPop bs))"
  proof
    assume "isSmallInt (op_value (dataPop bs))"
    then have "asSmallInt (op_value (dataPop bs)) = v" "isSmallInt (op_value (dataPop bs))" using intPop_number(2) [of v] assms i by auto
    with assms(1) show False by (auto simp: isSmallInt_def asSmallInt_def word_le_def uint_sub_if' split: if_splits)
  qed
  have "\<not> 76 + uint (bs ! 0) \<le> 0" using uint_ge_0 [of "bs ! 0"] by linarith
  then have d: "op_data (dataPop bs) = bs" using n s by (auto simp: dataPop_def isNumber_def isSmallInt_def word_le_def uint_plus_if' split: if_splits)
  show thesis by (rule that [OF bs(1,2) d n s bs(3,4)])
qed

lemma shard_data:
  assumes "16 \<le> v" "v < 2 ^ 31"
  obtains bs where "Bytes v = Inr bs" "length bs \<le> 4" "isNumber (op_value (dataPop bs))"
    "(if isSmallInt (op_value (dataPop bs)) then Inr (word_of_int (asSmallInt (op_value (dataPop bs))))
      else bindE (makeScriptNum (op_data (dataPop bs)) True 1) (\<lambda>n. Inr (word_of_int n :: u32))) =
     (if v < 128 then Inr (word_of_int v) else scriptError ErrNumberTooBig)"
proof (cases "v = 16")
  case True
  have "Bytes v = Inr [16]" unfolding True by code_simp
  moreover have "dataPop [16] = op OP_16" by (simp add: dataPop_def)
  ultimately show thesis using True by (intro that [of "[16]"]) (simp_all add: isNumber_def isSmallInt_def asSmallInt_def)
next
  case False
  with assms have v: "16 < v" "v < 2 ^ 31" by auto
  obtain bs where bs: "Bytes v = Inr bs" "length bs \<le> 4" "op_data (dataPop bs) = bs" "isNumber (op_value (dataPop bs))"
    "\<not> isSmallInt (op_value (dataPop bs))" "\<forall>m. makeScriptNum bs m 5 = Inr v" "snum_val bs = v" by (rule num_data [OF v])
  have short: "v < 128 \<longleftrightarrow> length bs \<le> 1"
  proof
    assume "v < 128"
    moreover have "checkMinimalDataEncoding bs = Inr ()" using Bytes_spec [of v] v bs(1) by auto
    ultimately show "length bs \<le> 1" using Bytes_length [of 1 v bs] bs v by simp
  next
    assume "length bs \<le> 1"
    then consider "bs = []" | x where "bs = [x]" by (cases bs) auto
    then show "v < 128"
    proof cases
      case 2
      have "snum_val [x] < 128" using uint_lt2p [of x] by (auto simp: snum_val_def)
      with 2 bs(7) show ?thesis by simp
    qed (use bs(7) v in \<open>simp add: snum_val_def\<close>)
  qed
  have "makeScriptNum bs True 1 = (if v < 128 then Inr v else scriptError ErrNumberTooBig)"
    using bs(2) spec [OF bs(6), of True] by (auto simp: makeScriptNum_def short)
  with bs(3,5) show thesis by (intro that [OF bs(1,2,4)]) simp
qed

definition eadAddress :: "netlib \<Rightarrow> EADScriptData \<Rightarrow> bytes" where
  "eadAddress N d = (case ead_IP d of Some ip \<Rightarrow> IPString N ip | None \<Rightarrow> ead_URL d)"

text \<open>A registration with numbers that the script keeps, and a host that its parser reads back.\<close>

definition ead_ok :: "netlib \<Rightarrow> EADScriptData \<Rightarrow> bytes \<Rightarrow> bool" where
  "ead_ok N d key \<longleftrightarrow> (case ead_Owner d of Some a \<Rightarrow> ScriptAddress a = key | None \<Rightarrow> False) \<and> keyLen key \<and>
     uint (ead_ShardID d) < 2 ^ 31 - 16 \<and> 16 < ead_ExpirationDate d \<and> ead_ExpirationDate d < 2 ^ 31 \<and>
     16 < ead_Port d \<and> ead_Port d < 2 ^ 16 \<and>
     2 \<le> length (eadAddress N d) \<and> length (eadAddress N d) \<le> 256 \<and> ParseIP N (eadAddress N d) = ead_IP d \<and>
     (case ead_IP d of Some _ \<Rightarrow> ead_URL d = [] | None \<Rightarrow> urlParse N (ead_URL d))"

lemma ead_encode:
  assumes "ead_ok N d key"
  obtains s pops where "EADEncode N d = Inr s" "parseE s = Inr pops" "typeOfScript N pops = EADAddressTy"
    "EADAddressScriptData N s =
      (if uint (ead_ShardID d) < 112 then Inr (d\<lparr>ead_Owner := None, ead_RawKey := hexEncode key\<rparr>) else scriptError ErrNumberTooBig)"
proof -
  let ?v = "uint (ead_ShardID d + 16)" and ?a = "eadAddress N d"
  have v: "?v = uint (ead_ShardID d) + 16" using assms by (auto simp: ead_ok_def uint_plus_if')
  then have vb: "16 \<le> ?v" "?v < 2 ^ 31" using assms by (auto simp: ead_ok_def)
  obtain sh where sh: "Bytes ?v = Inr sh" "length sh \<le> 4" "isNumber (op_value (dataPop sh))"
    "(if isSmallInt (op_value (dataPop sh)) then Inr (word_of_int (asSmallInt (op_value (dataPop sh))))
      else bindE (makeScriptNum (op_data (dataPop sh)) True 1) (\<lambda>n. Inr (word_of_int n :: u32))) =
     (if ?v < 128 then Inr (word_of_int ?v) else scriptError ErrNumberTooBig)"
    by (rule shard_data [OF vb])
  obtain dt where dt: "Bytes (ead_ExpirationDate d) = Inr dt" "length dt \<le> 4" "op_data (dataPop dt) = dt"
      "isNumber (op_value (dataPop dt))" "\<forall>m. makeScriptNum dt m 5 = Inr (ead_ExpirationDate d)"
    by (rule num_data [of "ead_ExpirationDate d"]) (use assms in \<open>auto simp: ead_ok_def\<close>)
  obtain pt where pt: "Bytes (ead_Port d) = Inr pt" "length pt \<le> 4" "op_data (dataPop pt) = pt"
      "isNumber (op_value (dataPop pt))" "\<forall>m. makeScriptNum pt m 5 = Inr (ead_Port d)"
    by (rule num_data [of "ead_Port d"]) (use assms in \<open>auto simp: ead_ok_def\<close>)
  define items where "items = [Data key, Op OP_CHECKSIG, Op OP_NOP, Data sh, Data dt, Data ?a, Data pt, Op OP_2DROP, Op OP_2DROP]"
  have ok: "keyLen key" "2 \<le> length ?a" "length ?a \<le> 256" using assms by (auto simp: ead_ok_def)
  have b: "builds (foldl addItem NewScriptBuilder items) (map itemPop items) (sum_list (map itemSize items))"
    by (rule builds_run) (use ok sh(2) dt(2) pt(2) in \<open>auto simp: items_def opcode_length_ops keyLen_def\<close>)
  then obtain s where s: "builtScript (foldl addItem NewScriptBuilder items) = Inr s" "parseE s = Inr (map itemPop items)"
    using builds_done by blast
  have enc: "EADEncode N d = Inr s"
    using assms s(1) sh(1) dt(1) pt(1)
    by (auto simp: EADEncode_def ead_ok_def eadAddress_def items_def split: option.splits)
  have a: "op_data (dataPop ?a) = ?a" using ok(2) by (auto simp: dataPop_def)
  have t: "typeOfScript N (map itemPop items) = EADAddressTy"
    using assms ok sh(3) dt(4) pt(4) a dataPop_simps(3) [OF ok(1)]
    by (auto simp: typeOfScript_def template_defs items_def ead_ok_def keyLen_def eadAddress_def isSmallInt_def isOpCode_def split: option.splits)
  have w: "(word_of_int ?v :: u32) - 16 = ead_ShardID d" "?v < 128 \<longleftrightarrow> uint (ead_ShardID d) < 112" using v by simp_all
  have url: "ead_IP d = ParseIP N ?a" "ead_URL d = (if ParseIP N ?a = None then ?a else [])"
    using assms by (auto simp: ead_ok_def eadAddress_def split: option.splits)
  have "EADAddressScriptData N s =
    bindE (if isSmallInt (op_value (dataPop sh)) then Inr (word_of_int (asSmallInt (op_value (dataPop sh))))
      else bindE (makeScriptNum (op_data (dataPop sh)) True 1) (\<lambda>n. Inr (word_of_int n)))
      (\<lambda>shardID. Inr \<lparr>ead_ShardID = shardID - 16, ead_IP = ead_IP d, ead_URL = ead_URL d, ead_Port = ead_Port d,
        ead_ExpirationDate = ead_ExpirationDate d, ead_Owner = None, ead_RawKey = hexEncode key\<rparr>)"
    using dt(3,5) pt(3,5) a dataPop_simps(3) [OF ok(1)] url
    by (simp add: EADAddressScriptData_def s(2) getE_def items_def Let_def)
  then have "EADAddressScriptData N s =
      (if uint (ead_ShardID d) < 112 then Inr (d\<lparr>ead_Owner := None, ead_RawKey := hexEncode key\<rparr>) else scriptError ErrNumberTooBig)"
    unfolding sh(4) w(2) by (simp add: w(1))
  with enc s(2) t show thesis by (rule that)
qed

section \<open>Multi-signature scripts\<close>

lemma intPop_small:
  assumes "0 \<le> v" "v \<le> 16"
  shows "isSmallInt (op_value (intPop v)) \<and> asSmallInt (op_value (intPop v)) = v"
proof (cases "v = 0")
  case True
  then show ?thesis by (simp add: intPop_def isSmallInt_def asSmallInt_def)
next
  case False
  with assms show ?thesis using asSmallInt_of_int [of v] by (simp add: intPop_def)
qed

definition multiSigPops :: "int \<Rightarrow> bytes list \<Rightarrow> parsedOpcode list" where
  "multiSigPops n keys = intPop n # map dataPop keys @ [intPop (int (length keys)), op OP_CHECKMULTISIG]"

lemma MultiSigScript_pops:
  assumes "list_all keyLen (map ScriptAddress pubkeys)" "length pubkeys \<le> 16" "0 \<le> n" "n \<le> int (length pubkeys)"
  obtains s where "MultiSigScript pubkeys n b = Inr s" "parseE s = Inr (multiSigPops n (pubKeysToAddresses pubkeys b))"
proof -
  let ?keys = "pubKeysToAddresses pubkeys b"
  have keys: "list_all keyLen ?keys" "length ?keys = length pubkeys"
    using assms(1) by (auto simp: pubKeysToAddresses_def list_all_iff Let_def split: if_splits)
  have size: "sum_list (map itemSize (map Data ks)) \<le> 68 * length ks" if "list_all keyLen ks" for ks
    using that by (induction ks) (auto simp: keyLen_def)
  define z where "z = sum_list (map itemSize (map Data ?keys))"
  have z: "z \<le> 1088" using size [OF keys(1)] keys(2) assms(2) unfolding z_def by linarith
  obtain b1 where b1: "AddInt64 NewScriptBuilder n = Inr b1" "builds b1 ([] @ [intPop n]) (0 + 7)"
    by (rule builds_AddInt64 [OF builds_New]) (use assms(2-4) in auto)
  have "list_all item_ok (map Data ?keys)" using keys(1) by (auto simp: list_all_iff keyLen_def)
  from builds_items [OF b1(2) this] z have "builds (foldl addItem b1 (map Data ?keys)) (intPop n # map itemPop (map Data ?keys)) (7 + z)"
    unfolding z_def by simp
  moreover have "foldl addItem c (map Data ks) = addKeys c ks" for c ks by (induction ks arbitrary: c) (simp_all add: addKeys_def)
  ultimately have k: "builds (addKeys b1 ?keys) (intPop n # map dataPop ?keys) (7 + z)" by (simp add: comp_def)
  have l: "\<bar>int (length pubkeys)\<bar> < 2 ^ 31" "7 + z + 7 \<le> 10000" using assms(2) z by auto
  obtain b2 where b2: "AddInt64 (addKeys b1 ?keys) (int (length pubkeys)) = Inr b2"
      "builds b2 ((intPop n # map dataPop ?keys) @ [intPop (int (length pubkeys))]) (7 + z + 7)"
    by (rule builds_AddInt64 [OF k l])
  have "builds (AddOp b2 OP_CHECKMULTISIG) (((intPop n # map dataPop ?keys) @ [intPop (int (length pubkeys))]) @ [op OP_CHECKMULTISIG]) (7 + z + 7 + 1)"
    using z by (intro builds_AddOp [OF b2(2)]) (simp_all add: opcode_length_ops)
  note d = builds_done [OF this]
  have p: "((intPop n # map dataPop ?keys) @ [intPop (int (length pubkeys))]) @ [op OP_CHECKMULTISIG] = multiSigPops n ?keys"
    by (simp add: multiSigPops_def keys(2))
  have "MultiSigScript pubkeys n b = Inr (sb_script (AddOp b2 OP_CHECKMULTISIG))"
    using assms(4) b1(1) b2(1) d(1) by (simp add: MultiSigScript_def)
  with d(2) show thesis unfolding p by (intro that)
qed

lemma multiSigPops_nth:
  assumes "l = length keys"
  shows "length (multiSigPops n keys) = l + 3" "multiSigPops n keys ! 0 = intPop n" "multiSigPops n keys ! (l + 1) = intPop (int l)"
    "multiSigPops n keys ! (l + 2) = op OP_CHECKMULTISIG" "i < l \<Longrightarrow> multiSigPops n keys ! (i + 1) = dataPop (keys ! i)"
    "drop 1 (take (l + 1) (multiSigPops n keys)) = map dataPop keys"
  unfolding assms by (simp_all add: multiSigPops_def nth_append)

lemma multiSigPops_class:
  assumes "list_all keyLen keys" "0 < length keys" "length keys \<le> 16" "0 \<le> n" "n \<le> int (length keys)"
  shows "typeOfScript N (multiSigPops n keys) = MultiSigTy"
proof -
  note nth = multiSigPops_nth [OF refl, where n = n and keys = keys]
  have k: "list_all (\<lambda>pop. keyLen (op_data pop)) (map dataPop keys)"
    using assms(1) dataPop_simps(3) by (auto simp: list_all_iff)
  have n: "isSmallInt (op_value (intPop n))" "isSmallInt (op_value (intPop (int (length keys))))" "asSmallInt (op_value (intPop (int (length keys)))) = int (length keys)"
    using intPop_small assms by auto
  have "isMultiSig (multiSigPops n keys)"
    using assms(2) nth n k by (simp add: isMultiSig_def Let_def)
  moreover have "op_value (intPop n) \<notin> {OP_DUP, OP_HASH160}" using n(1) by (auto simp: isSmallInt_def)
  ultimately show ?thesis using nth(1,2) assms(2)
    by (auto simp: typeOfScript_def isPubkey_def isPubkeyHash_def isWitnessPubKeyHash_def isScriptHash_def isWitnessScriptHash_def)
qed

lemma CalcMultiSigStats_pops:
  assumes "parseE s = Inr (multiSigPops n keys)" "0 < length keys" "length keys \<le> 16" "0 \<le> n" "n \<le> int (length keys)"
  shows "CalcMultiSigStats s MultiSigTy = Inr (int (length keys), n)"
  using assms(2-) multiSigPops_nth [OF refl, where n = n and keys = keys] intPop_small
  by (simp add: CalcMultiSigStats_def assms(1) getE_def)

lemma ExtractPkScriptAddrs_multisig:
  assumes "parseE s = Inr (multiSigPops n (map ScriptAddress pubkeys))" "list_all (net_address e net) pubkeys"
    and "list_all (\<lambda>a. addrClass a = PubKeyTy) pubkeys"
    and "0 < length pubkeys" "length pubkeys \<le> 16" "0 \<le> n" "n \<le> int (length pubkeys)"
  shows "ExtractPkScriptAddrs e N s net = Inr (MultiSigTy, pubkeys, n)"
proof -
  let ?keys = "map ScriptAddress pubkeys"
  have pk: "keyLen (ScriptAddress a) \<and> NewAddressPubKey e (ScriptAddress a) net = Inr a" if "a \<in> set pubkeys" for a
    using that assms(2,3) NewAddressPubKey_serializeKey
    by (auto simp: list_all_iff net_address_def addrClass_def ScriptAddress_def split: Address.splits)
  then have k: "list_all keyLen ?keys" by (simp add: list_all_iff)
  note nth = multiSigPops_nth [OF refl, where n = n and keys = ?keys]
  have "NewAddressPubKey e (op_data (multiSigPops n ?keys ! (i + 1))) net = Inr (pubkeys ! i)" if "i < length pubkeys" for i
    using nth(5) [of i] that pk [of "pubkeys ! i"] dataPop_simps(3) by simp
  then have "map (\<lambda>i. NewAddressPubKey e (op_data (multiSigPops n ?keys ! (i + 1))) net) [0..<length pubkeys] = map Inr pubkeys"
    by (intro nth_equalityI) simp_all
  moreover have "okAddrs (map Inr as) = as" for as by (induction as) (simp_all add: okAddrs_def map_filter_simps)
  moreover have "asSmallInt (op_value (multiSigPops n ?keys ! (length (multiSigPops n ?keys) - 2))) = int (length pubkeys)"
    using nth intPop_small [of "int (length pubkeys)"] assms(5) by simp
  ultimately show ?thesis using multiSigPops_class [OF k, of n N] assms nth(2) intPop_small [of n]
    by (simp add: ExtractPkScriptAddrs_def Let_def)
qed

section \<open>Scripts too long for the fixed array\<close>

text \<open>\<^verbatim>\<open>ParsePkScript\<close> accepts time-locked scripts, but \<^verbatim>\<open>Script\<close> has no case for them and
  \<^verbatim>\<open>Address\<close> then indexes an empty list.\<close>

lemma pkscript_htlc_address_panics:
  assumes "net_address e MainNetParams a" "0 \<le> lock" "lock < 2 ^ 31" "HTLCScript a lock = Inr s"
  shows "\<exists>p. ParsePkScript e N s = Inr p \<and> PkScriptAddress e N p net = Inl Panic"
proof -
  obtain s' where "HTLCScript a lock = Inr s'" "parseE s' = Inr (htlcPops a lock)" by (rule HTLCScript_pops [OF assms(1-3)])
  with assms(4) have "parseE s = Inr (htlcPops a lock)" by simp
  from ExtractPkScriptAddrs_htlc [OF assms(1) this assms(2,3)]
  have "ParsePkScript e N s = Inr \<lparr>ps_class = HTLCScriptTy, ps_script = copy34 s\<rparr>"
    by (simp add: ParsePkScript_def isSupportedScriptType_def)
  moreover have "typeOfScript N [] = NonStandardTy" by (simp add: typeOfScript_def template_defs isHTLC_def)
  then have "PkScriptAddress e N \<lparr>ps_class = HTLCScriptTy, ps_script = b\<rparr> net = Inl Panic" for b
    by (simp add: PkScriptAddress_def Script_def ExtractPkScriptAddrs_def parseE_def getE_def)
  ultimately show ?thesis by blast
qed

lemma serializeKey_zero: "serializeKey PKFCompressed (0, 0) = 2 # replicate 32 0"
  by (simp add: serializeKey_def SerializeCompressed_def paddedAppend_def bigBytes_def isOdd_def)

section \<open>Properties\<close>

text \<open>C23. Paying to an address and reading the script back is exact: for every address of a network,
  \<^verbatim>\<open>PayToAddrScript\<close> succeeds, its script is classified by the kind of the address and
  \<^verbatim>\<open>ExtractPkScriptAddrs\<close> returns that one address with one required signature.\<close>

theorem pay_to_addr_roundtrip:
  assumes "net_address e net a"
  shows "\<exists>s. PayToAddrScript a = Inr s \<and> GetScriptClass N s = addrClass a \<and>
    ExtractPkScriptAddrs e N s net = Inr (addrClass a, [a], 1)"
proof -
  obtain s where s: "PayToAddrScript a = Inr s" "parseE s = Inr (addrPops a)" by (rule PayToAddr_pops [OF assms])
  with ExtractPkScriptAddrs_pay [OF assms s(2)] typeOf_addrPops [OF assms] show ?thesis
    by (auto simp: GetScriptClass_def)
qed

definition noNet :: netlib where
  "noNet = \<lparr>ParseIP = \<lambda>s. None, IPString = \<lambda>ip. [], urlParse = \<lambda>s. True\<rparr>"

theorem pay_to_addr_roundtrip_witness:
  "net_address zeroKeyEnv MainNetParams (AddressPubKeyHash (replicate 20 7) 0) \<and>
   (\<exists>s. PayToAddrScript (AddressPubKeyHash (replicate 20 7) 0) = Inr s \<and> GetScriptClass noNet s = PubKeyHashTy \<and>
     ExtractPkScriptAddrs zeroKeyEnv noNet s MainNetParams = Inr (PubKeyHashTy, [AddressPubKeyHash (replicate 20 7) 0], 1))"
proof -
  have n: "net_address zeroKeyEnv MainNetParams (AddressPubKeyHash (replicate 20 7) 0)"
    by (simp add: net_address_def MainNetParams_def)
  from pay_to_addr_roundtrip [OF n, of noNet] n show ?thesis by (simp add: addrClass_def)
qed

text \<open>C24. A script built by \<^verbatim>\<open>HTLCScript\<close> is taken apart into what it was built from: for every address
  of a network and lock period below 2^31 it is classified as time-locked, its inner class is
  that of the address, \<^verbatim>\<open>ExtractHTLCLockTime\<close> returns the period and \<^verbatim>\<open>ExtractPkScriptAddrs\<close> the
  address followed by the address of the script itself.\<close>

theorem htlc_script_roundtrip:
  assumes "net_address e net a" "0 \<le> lock" "lock < 2 ^ 31"
  shows "\<exists>s. HTLCScript a lock = Inr s \<and> GetScriptClass N s = HTLCScriptTy \<and> HTLCSubClass s = addrClass a \<and>
    ExtractHTLCLockTime s = Inr lock \<and>
    ExtractPkScriptAddrs e N s net = Inr (HTLCScriptTy, [a, HTLCAddress s (HTLCAddressID net)], 1)"
proof -
  obtain s where s: "HTLCScript a lock = Inr s" "parseE s = Inr (htlcPops a lock)" by (rule HTLCScript_pops [OF assms])
  then show ?thesis
    using isHTLC_htlcPops [OF assms] typeOf_htlcPops [OF assms] ExtractHTLCLockTime_htlcPops [OF s(2) assms(2,3)]
      ExtractPkScriptAddrs_htlc [OF assms(1) s(2) assms(2,3)]
    by (auto simp: GetScriptClass_def HTLCSubClass_def)
qed

theorem htlc_script_roundtrip_witness:
  "net_address zeroKeyEnv MainNetParams (AddressScriptHash (replicate 20 7) 5) \<and>
   (\<exists>s. HTLCScript (AddressScriptHash (replicate 20 7) 5) 1000 = Inr s \<and> GetScriptClass noNet s = HTLCScriptTy \<and>
     HTLCSubClass s = ScriptHashTy \<and> ExtractHTLCLockTime s = Inr 1000 \<and>
     ExtractPkScriptAddrs zeroKeyEnv noNet s MainNetParams =
       Inr (HTLCScriptTy, [AddressScriptHash (replicate 20 7) 5, HTLCAddress s (HTLCAddressID MainNetParams)], 1))"
proof -
  have n: "net_address zeroKeyEnv MainNetParams (AddressScriptHash (replicate 20 7) 5)"
    by (simp add: net_address_def MainNetParams_def)
  from htlc_script_roundtrip [OF n, of 1000 noNet] n show ?thesis by (simp add: addrClass_def)
qed

text \<open>C26. The standard templates exclude each other on every script that parses, so the order in which
  \<^verbatim>\<open>typeOfScript\<close> tries them does not matter: a script has a standard class exactly when it matches
  the template of that class, and is non-standard exactly when it matches none.\<close>

theorem script_class_unambiguous:
  assumes "parseE s = Inr pops"
  shows "GetScriptClass N s = c \<longleftrightarrow> template N pops c \<or> c = NonStandardTy \<and> (\<forall>d. \<not> template N pops d)"
  by (rule GetScriptClass_template [OF assms])

theorem script_class_unambiguous_witness:
  "parseE [OP_RETURN] = Inr [op OP_RETURN] \<and> GetScriptClass noNet [OP_RETURN] = NullDataTy \<and> template noNet [op OP_RETURN] NullDataTy"
proof -
  have p: "parseE [OP_RETURN] = Inr [op OP_RETURN]" by code_simp
  have t: "template noNet [op OP_RETURN] NullDataTy" by (simp add: isNullData_def)
  with script_class_unambiguous [OF p, of noNet NullDataTy] p show ?thesis by simp
qed

text \<open>C27. The counts of signature operations are bounded by the sizes of the scripts: the precise count
  never exceeds the quick one, and each byte of a script accounts for at most twenty operations. A
  pay-to-script-hash count is bounded by the signature script that carries the inner script.\<close>

theorem sig_op_bounds:
  "0 \<le> GetPreciseSigOpCount scriptSig pkScript False \<and> GetPreciseSigOpCount scriptSig pkScript False \<le> GetSigOpCount pkScript \<and>
   GetSigOpCount pkScript \<le> 20 * int (length pkScript) \<and>
   0 \<le> GetPreciseSigOpCount scriptSig pkScript True \<and>
   GetPreciseSigOpCount scriptSig pkScript True \<le> 20 * int (max (length scriptSig) (length pkScript))"
proof -
  have le: "getSigOpCount (fst (parseScript s)) b \<le> 20 * int n" if "length s \<le> n" for s n b
    using getSigOpCount_bounds(2,3) [of "fst (parseScript s)"] parse_size_le(1) [of s] that by (cases b) auto
  have data: "length (op_data (sigPops ! (length sigPops - 1))) \<le> length scriptSig" if "parseE scriptSig = Inr sigPops" "sigPops \<noteq> []" for sigPops
    using parse_size_le(2) [of _ scriptSig] that by (auto simp: parseE_def split: prod.splits option.splits)
  show ?thesis using getSigOpCount_bounds le [of pkScript "length pkScript"] data
    by (auto simp: GetPreciseSigOpCount_def GetSigOpCount_def Let_def intro!: le split: sum.splits)
qed

text \<open>C25. Registrations of exchange agents survive the script only for small shard numbers: a registration
  with an owner, a host and numbers of ordinary size always encodes to a script that is recognised
  as a registration. It decodes to the same data when the shard number is below 112. From 112 on
  decoding fails, because the shard number plus 16 takes two bytes and \<^verbatim>\<open>EADAddressScriptData\<close> reads one.\<close>

theorem ead_roundtrip:
  assumes "ead_ok N d key"
  shows "\<exists>s. EADEncode N d = Inr s \<and> GetScriptClass N s = EADAddressTy \<and>
    EADAddressScriptData N s =
      (if uint (ead_ShardID d) < 112 then Inr (d\<lparr>ead_Owner := None, ead_RawKey := hexEncode key\<rparr>) else scriptError ErrNumberTooBig)"
proof -
  from assms show ?thesis
  proof (rule ead_encode)
    fix s pops
    assume "EADEncode N d = Inr s" "parseE s = Inr pops" "typeOfScript N pops = EADAddressTy"
      "EADAddressScriptData N s =
        (if uint (ead_ShardID d) < 112 then Inr (d\<lparr>ead_Owner := None, ead_RawKey := hexEncode key\<rparr>) else scriptError ErrNumberTooBig)"
    then show ?thesis by (simp add: GetScriptClass_def)
  qed
qed

definition sampleEAD :: "u32 \<Rightarrow> EADScriptData" where
  "sampleEAD shard = \<lparr>ead_ShardID = shard, ead_IP = None, ead_URL = str ''ea.jax.net'', ead_Port = 8080, ead_ExpirationDate = 1700000000,
     ead_Owner = Some (AddressPubKey PKFCompressed (0, 0) 0), ead_RawKey = []\<rparr>"

theorem ead_roundtrip_witness:
  "ead_ok noNet (sampleEAD 5) (2 # replicate 32 0) \<and> ead_ok noNet (sampleEAD 200) (2 # replicate 32 0) \<and>
   (\<exists>s. EADEncode noNet (sampleEAD 5) = Inr s \<and>
     EADAddressScriptData noNet s = Inr (sampleEAD 5\<lparr>ead_Owner := None, ead_RawKey := hexEncode (2 # replicate 32 0)\<rparr>)) \<and>
   (\<exists>s. EADEncode noNet (sampleEAD 200) = Inr s \<and> EADAddressScriptData noNet s = scriptError ErrNumberTooBig)"
proof -
  have ok: "ead_ok noNet (sampleEAD 5) (2 # replicate 32 0)" "ead_ok noNet (sampleEAD 200) (2 # replicate 32 0)"
    by (simp_all add: ead_ok_def sampleEAD_def noNet_def eadAddress_def ScriptAddress_def serializeKey_zero keyLen_def str_def)
  have n: "ead_ShardID (sampleEAD k) = k" for k by (simp add: sampleEAD_def)
  from ead_roundtrip [OF ok(1)] ead_roundtrip [OF ok(2)] ok show ?thesis by (auto simp: n)
qed

text \<open>C28. A multi-signature script of up to sixteen public keys is taken apart into its ingredients: it is
  classified as such, \<^verbatim>\<open>CalcMultiSigStats\<close> returns the number of keys and of required signatures, and
  \<^verbatim>\<open>ExtractPkScriptAddrs\<close> the addresses in order. With sorted keys the script does not depend on the
  order of the keys.\<close>

theorem multisig_roundtrip:
  assumes "list_all (net_address e net) pubkeys" "list_all (\<lambda>a. addrClass a = PubKeyTy) pubkeys"
    and "0 < length pubkeys" "length pubkeys \<le> 16" "0 \<le> n" "n \<le> int (length pubkeys)"
    and "mset pubkeys' = mset pubkeys"
  shows "(\<exists>s. MultiSigScript pubkeys n False = Inr s \<and> GetScriptClass N s = MultiSigTy \<and>
      CalcMultiSigStats s MultiSigTy = Inr (int (length pubkeys), n) \<and>
      ExtractPkScriptAddrs e N s net = Inr (MultiSigTy, pubkeys, n)) \<and>
    MultiSigScript pubkeys' n True = MultiSigScript pubkeys n True"
proof -
  have k: "list_all keyLen (map ScriptAddress pubkeys)"
    using assms(1,2) by (auto simp: list_all_iff net_address_def addrClass_def ScriptAddress_def split: Address.splits)
  have ord: "pubKeysToAddresses pubkeys False = map ScriptAddress pubkeys" by (simp add: pubKeysToAddresses_def)
  obtain s where s: "MultiSigScript pubkeys n False = Inr s" "parseE s = Inr (multiSigPops n (map ScriptAddress pubkeys))"
    by (rule MultiSigScript_pops [OF k assms(4-6), of False]) (simp only: ord)
  with multiSigPops_class [OF k, of n N] CalcMultiSigStats_pops [OF s(2)] ExtractPkScriptAddrs_multisig [OF s(2) assms(1-6)] assms(3-6)
  have "\<exists>s. MultiSigScript pubkeys n False = Inr s \<and> GetScriptClass N s = MultiSigTy \<and>
    CalcMultiSigStats s MultiSigTy = Inr (int (length pubkeys), n) \<and>
    ExtractPkScriptAddrs e N s net = Inr (MultiSigTy, pubkeys, n)" by (auto simp: GetScriptClass_def)
  moreover have "pubKeysToAddresses pubkeys' True = pubKeysToAddresses pubkeys True"
    using assms(7) by (simp add: pubKeysToAddresses_def Let_def mset_map properties_for_sort)
  moreover have "length pubkeys' = length pubkeys" using assms(7) by (rule mset_eq_length)
  ultimately show ?thesis by (simp add: MultiSigScript_def)
qed

theorem multisig_roundtrip_witness:
  "net_address zeroKeyEnv MainNetParams (AddressPubKey PKFCompressed (0, 0) 0) \<and>
   (\<exists>s. MultiSigScript [AddressPubKey PKFCompressed (0, 0) 0] 1 False = Inr s \<and>
     ExtractPkScriptAddrs zeroKeyEnv noNet s MainNetParams = Inr (MultiSigTy, [AddressPubKey PKFCompressed (0, 0) 0], 1))"
proof -
  let ?a = "AddressPubKey PKFCompressed (0, 0) 0"
  have n: "net_address zeroKeyEnv MainNetParams ?a"
    by (simp add: net_address_def serializeKey_zero zeroKeyEnv_def keyLen_def MainNetParams_def)
  then have "list_all (net_address zeroKeyEnv MainNetParams) [?a]" "list_all (\<lambda>a. addrClass a = PubKeyTy) [?a]" by (simp_all add: addrClass_def)
  from multisig_roundtrip [OF this, of 1 "[?a]" noNet] n show ?thesis by auto
qed

end
