(* ===== verification/KVStore.thy ===== *)
theory KVStore
  imports Prelude
begin

text \<open>
  What a store of key/value pairs promises to its clients, as \<^verbatim>\<open>database/interface.go\<close> documents it
  for buckets: a lookup after an update sees the update and nothing else. Treaps, transactions and
  buckets provide it; the commit of pending updates and the store of unspent outputs rely on it.
\<close>

locale kv_store =
  fixes ok :: "'s \<Rightarrow> bool"
    and lookup :: "'s \<Rightarrow> bytes \<Rightarrow> bytes option"
    and update :: "'s \<Rightarrow> bytes \<Rightarrow> bytes \<Rightarrow> 's"
    and remove :: "'s \<Rightarrow> bytes \<Rightarrow> 's"
  assumes update_ok: "ok s \<Longrightarrow> ok (update s k v)"
    and remove_ok: "ok s \<Longrightarrow> ok (remove s k)"
    and lookup_update: "ok s \<Longrightarrow> lookup (update s k v) = (lookup s)(k \<mapsto> v)"
    and lookup_remove: "ok s \<Longrightarrow> lookup (remove s k) = (lookup s)(k := None)"
begin

lemma updates:
  assumes "ok s"
  shows "ok (foldl (\<lambda>s (k, v). update s k v) s ps)" "lookup (foldl (\<lambda>s (k, v). update s k v) s ps) = lookup s ++ map_of (rev ps)"
proof -
  have "ok (foldl (\<lambda>s (k, v). update s k v) s ps) \<and> lookup (foldl (\<lambda>s (k, v). update s k v) s ps) = lookup s ++ map_of (rev ps)"
    using assms by (induction ps arbitrary: s) (auto simp: update_ok lookup_update map_add_upd_left dom_def split: prod.splits)
  then show "ok (foldl (\<lambda>s (k, v). update s k v) s ps)" "lookup (foldl (\<lambda>s (k, v). update s k v) s ps) = lookup s ++ map_of (rev ps)" by blast+
qed

lemma removes:
  assumes "ok s"
  shows "ok (foldl remove s ks)" "lookup (foldl remove s ks) = (\<lambda>k. if k \<in> set ks then None else lookup s k)"
proof -
  have "ok (foldl remove s ks) \<and> lookup (foldl remove s ks) = (\<lambda>k. if k \<in> set ks then None else lookup s k)"
    using assms by (induction ks arbitrary: s) (auto simp: remove_ok lookup_remove)
  then show "ok (foldl remove s ks)" "lookup (foldl remove s ks) = (\<lambda>k. if k \<in> set ks then None else lookup s k)" by blast+
qed

end

end
