(* ===== verification/Treap.thy ===== *)
theory Treap
  imports KVStore "HOL-Library.List_Lexorder"
begin

text \<open>
  The treaps of the database (\<^verbatim>\<open>database/internal/treap\<close>): ordered key/value maps that hold the
  pending updates of a transaction and the write-back cache. A nil pointer is \<open>NilNode\<close>. The
  stack of parents that an operation keeps is the path from the node back to the root, so an
  update of the tree in place is the tree relinked along the path; the priorities drawn from
  \<^verbatim>\<open>rand.Int\<close> are arguments. \<^verbatim>\<open>bytes.Compare\<close> is the lexicographic order. The lemmas show
  that the operations implement a finite map, keep the order, the count and the size, and visit
  the pairs in ascending order, and which of them keep the order of priorities.
\<close>

section \<open>Nodes\<close>

datatype treapNode = NilNode | TreapNode bytes bytes int treapNode treapNode

abbreviation (input) nodeFieldsSize :: u64 where "nodeFieldsSize \<equiv> 72"

definition nodeSize :: "bytes \<Rightarrow> bytes \<Rightarrow> u64" where
  "nodeSize key val = nodeFieldsSize + of_nat (length key + length val)"

fun getNode :: "treapNode \<Rightarrow> bytes \<Rightarrow> treapNode" where
  "getNode NilNode key = NilNode"
| "getNode (TreapNode k v p l r) key =
     (if key < k then getNode l key else if key > k then getNode r key else TreapNode k v p l r)"

text \<open>A parent on the stack, seen from its left or its right child.\<close>

datatype frame = LeftOf bytes bytes int treapNode | RightOf bytes bytes int treapNode

fun descend :: "treapNode \<Rightarrow> bytes \<Rightarrow> frame list \<Rightarrow> treapNode \<times> frame list" where
  "descend NilNode key parents = (NilNode, parents)"
| "descend (TreapNode k v p l r) key parents =
     (if key < k then descend l key (LeftOf k v p r # parents)
      else if key > k then descend r key (RightOf k v p l # parents)
      else (TreapNode k v p l r, parents))"

fun relink :: "treapNode \<Rightarrow> frame list \<Rightarrow> treapNode" where
  "relink node [] = node"
| "relink node (LeftOf k v p r # parents) = relink (TreapNode k v p node r) parents"
| "relink node (RightOf k v p l # parents) = relink (TreapNode k v p l node) parents"

text \<open>The loop of \<^verbatim>\<open>Put\<close> that rotates a new node up, and the loop of \<^verbatim>\<open>Delete\<close> that rotates a node
  with the given children down until it can be cut off.\<close>

fun rotateUp :: "bytes \<Rightarrow> bytes \<Rightarrow> int \<Rightarrow> treapNode \<Rightarrow> treapNode \<Rightarrow> frame list \<Rightarrow> treapNode" where
  "rotateUp k v p l r [] = TreapNode k v p l r"
| "rotateUp k v p l r (LeftOf pk pv pp pr # parents) =
     (if p \<ge> pp then relink (TreapNode k v p l r) (LeftOf pk pv pp pr # parents)
      else rotateUp k v p l (TreapNode pk pv pp r pr) parents)"
| "rotateUp k v p l r (RightOf pk pv pp pl # parents) =
     (if p \<ge> pp then relink (TreapNode k v p l r) (RightOf pk pv pp pl # parents)
      else rotateUp k v p (TreapNode pk pv pp pl l) r parents)"

function sink :: "treapNode \<Rightarrow> treapNode \<Rightarrow> treapNode" where
  "sink NilNode NilNode = NilNode"
| "sink NilNode (TreapNode rk rv rp rl rr) = TreapNode rk rv rp (sink NilNode rl) rr"
| "sink (TreapNode lk lv lp ll lr) NilNode = TreapNode lk lv lp ll (sink lr NilNode)"
| "sink (TreapNode lk lv lp ll lr) (TreapNode rk rv rp rl rr) =
     (if lp \<ge> rp then TreapNode lk lv lp ll (sink lr (TreapNode rk rv rp rl rr))
      else TreapNode rk rv rp (sink (TreapNode lk lv lp ll lr) rl) rr)"
  by pat_completeness auto
termination
  by (relation "measure (\<lambda>(l, r). size l + size r)") auto

section \<open>Treaps\<close>

record Treap =
  t_root :: treapNode
  t_count :: int
  t_totalSize :: u64

definition NewTreap :: Treap where
  "NewTreap = \<lparr>t_root = NilNode, t_count = 0, t_totalSize = 0\<rparr>"

definition Len :: "Treap \<Rightarrow> int" where
  "Len t = t_count t"

definition Size :: "Treap \<Rightarrow> u64" where
  "Size t = t_totalSize t"

definition Has :: "Treap \<Rightarrow> bytes \<Rightarrow> bool" where
  "Has t key \<longleftrightarrow> getNode (t_root t) key \<noteq> NilNode"

definition Get :: "Treap \<Rightarrow> bytes \<Rightarrow> bytes option" where
  "Get t key = (case getNode (t_root t) key of NilNode \<Rightarrow> None | TreapNode _ v _ _ _ \<Rightarrow> Some v)"

definition Put :: "int \<Rightarrow> Treap \<Rightarrow> bytes \<Rightarrow> bytes \<Rightarrow> Treap" where
  "Put rnd t key val =
     (if t_root t = NilNode then
        \<lparr>t_root = TreapNode key val rnd NilNode NilNode, t_count = 1, t_totalSize = nodeSize key val\<rparr>
      else
        case descend (t_root t) key [] of
          (TreapNode k v p l r, parents) \<Rightarrow>
            t\<lparr>t_root := relink (TreapNode k val p l r) parents,
              t_totalSize := t_totalSize t - of_nat (length v) + of_nat (length val)\<rparr>
        | (NilNode, parents) \<Rightarrow>
            t\<lparr>t_root := rotateUp key val rnd NilNode NilNode parents,
              t_count := t_count t + 1, t_totalSize := t_totalSize t + nodeSize key val\<rparr>)"

definition Delete :: "Treap \<Rightarrow> bytes \<Rightarrow> Treap" where
  "Delete t key =
     (case descend (t_root t) key [] of
        (NilNode, parents) \<Rightarrow> t
      | (TreapNode k v p l r, parents) \<Rightarrow>
          if parents = [] \<and> l = NilNode \<and> r = NilNode then
            \<lparr>t_root = NilNode, t_count = 0, t_totalSize = 0\<rparr>
          else
            t\<lparr>t_root := relink (sink l r) parents, t_count := t_count t - 1,
              t_totalSize := t_totalSize t - nodeSize k v\<rparr>)"

text \<open>The immutable treap copies the nodes on the path and returns a treap with a new root.\<close>

definition newImmutable :: "treapNode \<Rightarrow> int \<Rightarrow> u64 \<Rightarrow> Treap" where
  "newImmutable root cnt tot = \<lparr>t_root = root, t_count = cnt, t_totalSize = tot\<rparr>"

definition ImmutablePut :: "int \<Rightarrow> Treap \<Rightarrow> bytes \<Rightarrow> bytes \<Rightarrow> Treap" where
  "ImmutablePut rnd t key val =
     (if t_root t = NilNode then newImmutable (TreapNode key val rnd NilNode NilNode) 1 (nodeSize key val)
      else
        case descend (t_root t) key [] of
          (TreapNode k v p l r, parents) \<Rightarrow>
            newImmutable (relink (TreapNode k val p l r) parents) (t_count t)
              (t_totalSize t - of_nat (length v) + of_nat (length val))
        | (NilNode, parents) \<Rightarrow>
            newImmutable (rotateUp key val rnd NilNode NilNode parents) (t_count t + 1) (t_totalSize t + nodeSize key val))"

definition ImmutableDelete :: "Treap \<Rightarrow> bytes \<Rightarrow> Treap" where
  "ImmutableDelete t key =
     (case descend (t_root t) key [] of
        (NilNode, parents) \<Rightarrow> t
      | (TreapNode k v p l r, parents) \<Rightarrow>
          if parents = [] \<and> l = NilNode \<and> r = NilNode then newImmutable NilNode 0 0
          else newImmutable (relink (sink l r) parents) (t_count t - 1) (t_totalSize t - nodeSize k v))"

text \<open>\<^verbatim>\<open>ForEach\<close> keeps a stack of nodes whose left subtrees have been visited; the callback works on a
  state and stops the traversal with false.\<close>

fun pushLeft :: "treapNode \<Rightarrow> treapNode list \<Rightarrow> treapNode list" where
  "pushLeft NilNode parents = parents"
| "pushLeft (TreapNode k v p l r) parents = pushLeft l (TreapNode k v p l r # parents)"

fun rightSizes :: "treapNode list \<Rightarrow> nat" where
  "rightSizes [] = 0"
| "rightSizes (NilNode # ns) = Suc (rightSizes ns)"
| "rightSizes (TreapNode k v p l r # ns) = Suc (size r + rightSizes ns)"

lemma rightSizes_pushLeft: "rightSizes (pushLeft n ns) \<le> size n + rightSizes ns"
  by (induction n ns rule: pushLeft.induct) simp_all

function forEachLoop :: "(bytes \<Rightarrow> bytes \<Rightarrow> 's \<Rightarrow> bool \<times> 's) \<Rightarrow> treapNode list \<Rightarrow> 's \<Rightarrow> 's" where
  "forEachLoop fn [] s = s"
| "forEachLoop fn (NilNode # parents) s = s"
| "forEachLoop fn (TreapNode k v p l r # parents) s =
     (case fn k v s of (goOn, s') \<Rightarrow> if goOn then forEachLoop fn (pushLeft r parents) s' else s')"
  by pat_completeness auto
termination
  by (relation "measure (\<lambda>(fn, ns, s). rightSizes ns)") (auto simp: le_imp_less_Suc rightSizes_pushLeft)

definition ForEach :: "(bytes \<Rightarrow> bytes \<Rightarrow> 's \<Rightarrow> bool \<times> 's) \<Rightarrow> Treap \<Rightarrow> 's \<Rightarrow> 's" where
  "ForEach fn t s = forEachLoop fn (pushLeft (t_root t) []) s"

section \<open>Order of the keys\<close>

fun inorder :: "treapNode \<Rightarrow> (bytes \<times> bytes) list" where
  "inorder NilNode = []"
| "inorder (TreapNode k v p l r) = inorder l @ (k, v) # inorder r"

fun before :: "frame list \<Rightarrow> (bytes \<times> bytes) list" where
  "before [] = []"
| "before (LeftOf k v p r # fs) = before fs"
| "before (RightOf k v p l # fs) = before fs @ inorder l @ [(k, v)]"

fun after :: "frame list \<Rightarrow> (bytes \<times> bytes) list" where
  "after [] = []"
| "after (LeftOf k v p r # fs) = (k, v) # inorder r @ after fs"
| "after (RightOf k v p l # fs) = after fs"

definition ordered :: "(bytes \<times> bytes) list \<Rightarrow> bool" where
  "ordered ps \<longleftrightarrow> sorted_wrt (<) (map fst ps)"

definition bst :: "treapNode \<Rightarrow> bool" where
  "bst t \<longleftrightarrow> ordered (inorder t)"

lemma inorder_relink: "inorder (relink t fs) = before fs @ inorder t @ after fs"
  by (induction t fs rule: relink.induct) simp_all

lemma inorder_rotateUp: "inorder (rotateUp k v p l r fs) = before fs @ inorder (TreapNode k v p l r) @ after fs"
  by (induction k v p l r fs rule: rotateUp.induct) (simp_all add: inorder_relink)

lemma inorder_sink: "inorder (sink l r) = inorder l @ inorder r"
  by (induction l r rule: sink.induct) simp_all

lemma relink_descend: "descend t key fs = (n, gs) \<Longrightarrow> relink n gs = relink t fs"
  by (induction t key fs rule: descend.induct) (auto split: if_splits)

lemma ordered_append: "ordered (xs @ ys) \<longleftrightarrow> ordered xs \<and> ordered ys \<and> (\<forall>x \<in> set xs. \<forall>y \<in> set ys. fst x < fst y)"
  by (auto simp: ordered_def sorted_wrt_append)

lemma ordered_Cons: "ordered (x # ys) \<longleftrightarrow> (\<forall>y \<in> set ys. fst x < fst y) \<and> ordered ys"
  by (auto simp: ordered_def)

lemma ordered_Nil: "ordered []"
  by (simp add: ordered_def)

lemmas ordered_simps = ordered_append ordered_Cons ordered_Nil

lemma descend_order:
  assumes "descend t key fs = (n, gs)" "ordered (before fs @ inorder t @ after fs)"
    and "\<forall>x \<in> set (before fs). fst x < key" "\<forall>x \<in> set (after fs). key < fst x"
  shows "(\<forall>x \<in> set (before gs). fst x < key) \<and> (\<forall>x \<in> set (after gs). key < fst x) \<and>
    (\<forall>k v p l r. n = TreapNode k v p l r \<longrightarrow> k = key)"
  using assms
proof (induction t key fs rule: descend.induct)
  case (2 k v p l r key fs)
  consider "key < k" | "k < key" | "key = k" by fastforce
  then show ?case
  proof cases
    case 1
    have "descend l key (LeftOf k v p r # fs) = (n, gs)" using 2(3) 1 by simp
    then show ?thesis using 1 2(4-6) by (intro "2.IH"(1)) (auto simp: ordered_simps intro: less_trans)
  next
    case 2
    have "descend r key (RightOf k v p l # fs) = (n, gs)" using "2.prems"(1) 2 less_not_sym [OF 2] by simp
    then show ?thesis using 2 "2.prems"(2-4) by (intro "2.IH"(2)) (auto simp: ordered_simps intro: less_trans)
  next
    case 3
    then show ?thesis using "2.prems" by auto
  qed
qed auto

text \<open>The treap as a finite map.\<close>

definition entries :: "Treap \<Rightarrow> bytes \<rightharpoonup> bytes" where
  "entries t = map_of (inorder (t_root t))"

fun sizes :: "(bytes \<times> bytes) list \<Rightarrow> u64" where
  "sizes [] = 0"
| "sizes ((k, v) # ps) = nodeSize k v + sizes ps"

text \<open>The keys ascend, and the count and the size are those of the pairs.\<close>

definition treap_ok :: "Treap \<Rightarrow> bool" where
  "treap_ok t \<longleftrightarrow> bst (t_root t) \<and> t_count t = int (length (inorder (t_root t))) \<and> t_totalSize t = sizes (inorder (t_root t))"

lemma sizes_append: "sizes (xs @ ys) = sizes xs + sizes ys"
  by (induction xs rule: sizes.induct) simp_all

lemma map_of_none: "\<forall>x \<in> set xs. fst x \<noteq> k \<Longrightarrow> map_of xs k = None"
  by (induction xs) auto

lemma map_of_split:
  fixes k :: bytes
  assumes "\<forall>x \<in> set xs. fst x < k" "\<forall>y \<in> set ys. k < fst y"
  shows "map_of (xs @ (k, v) # ys) = (map_of (xs @ ys))(k \<mapsto> v)" "(map_of (xs @ ys))(k := None) = map_of (xs @ ys)"
proof -
  have n: "map_of xs k = None" "map_of ys k = None" by (rule map_of_none; use assms in fastforce)+
  show "map_of (xs @ (k, v) # ys) = (map_of (xs @ ys))(k \<mapsto> v)"
    using n(1) by (auto simp: map_add_def fun_eq_iff split: option.splits)
  show "(map_of (xs @ ys))(k := None) = map_of (xs @ ys)" using n by (auto simp: map_add_def fun_eq_iff)
qed

lemma getNode_lookup: "ordered (inorder t) \<Longrightarrow> (case getNode t key of NilNode \<Rightarrow> None | TreapNode _ v _ _ _ \<Rightarrow> Some v) = map_of (inorder t) key"
proof (induction t key rule: getNode.induct)
  case (2 k v p l r key)
  have o: "ordered (inorder l)" "ordered (inorder r)" "\<forall>x \<in> set (inorder l). fst x < k" "\<forall>y \<in> set (inorder r). k < fst y"
    using 2(3) by (auto simp: ordered_simps)
  consider "key < k" | "k < key" | "key = k" by fastforce
  then show ?case
  proof cases
    case 1
    then have "map_of (inorder r) key = None" using o(4) by (intro map_of_none) auto
    then show ?thesis using 1 "2.IH"(1) [OF 1 o(1)] by (auto simp: map_add_def split: option.splits)
  next
    case 2
    then have "map_of (inorder l) key = None" using o(3) by (intro map_of_none) auto
    then show ?thesis using 2 less_not_sym [OF 2] "2.IH"(2) [OF less_not_sym [OF 2] 2 o(2)]
      by (auto simp: map_add_def split: option.splits)
  next
    case 3
    have "map_of (inorder l) k = None" using o(3) by (intro map_of_none) auto
    with 3 show ?thesis by (simp add: map_add_def)
  qed
qed simp

lemma Get_entries: "treap_ok t \<Longrightarrow> Get t key = entries t key"
  using getNode_lookup [of "t_root t" key] by (simp add: treap_ok_def bst_def Get_def entries_def)

lemma Has_Get: "Has t key \<longleftrightarrow> Get t key \<noteq> None"
  by (simp add: Has_def Get_def split: treapNode.splits)

lemma descend_root:
  assumes "treap_ok t" "descend (t_root t) key [] = (n, fs)"
  shows "inorder (t_root t) = before fs @ inorder n @ after fs" "\<forall>x \<in> set (before fs). fst x < key" "\<forall>x \<in> set (after fs). key < fst x"
    "n = TreapNode k v p l r \<Longrightarrow> k = key"
proof -
  show "inorder (t_root t) = before fs @ inorder n @ after fs"
    using relink_descend [OF assms(2)] inorder_relink [of n fs] by simp
  have "(\<forall>x \<in> set (before fs). fst x < key) \<and> (\<forall>x \<in> set (after fs). key < fst x) \<and> (\<forall>k v p l r. n = TreapNode k v p l r \<longrightarrow> k = key)"
    using assms by (intro descend_order) (auto simp: treap_ok_def bst_def)
  then show "\<forall>x \<in> set (before fs). fst x < key" "\<forall>x \<in> set (after fs). key < fst x" "n = TreapNode k v p l r \<Longrightarrow> k = key" by blast+
qed

lemma Put_spec:
  assumes "treap_ok t"
  shows "treap_ok (Put rnd t key val) \<and> entries (Put rnd t key val) = (entries t)(key \<mapsto> val)"
proof (cases "t_root t = NilNode")
  case True
  then show ?thesis by (auto simp: Put_def treap_ok_def bst_def ordered_simps entries_def)
next
  case False
  obtain n fs where d: "descend (t_root t) key [] = (n, fs)" by fastforce
  note o = descend_root [OF assms d]
  show ?thesis
  proof (cases n)
    case NilNode
    then have "inorder (t_root (Put rnd t key val)) = before fs @ (key, val) # after fs"
      using False d by (simp add: Put_def inorder_rotateUp)
    then show ?thesis using assms False d NilNode o(1-3) map_of_split(1) [OF o(2,3)]
      by (auto simp: treap_ok_def bst_def ordered_simps entries_def Put_def sizes_append)
  next
    case (TreapNode k v p l r)
    then have k: "k = key" using o(4) by blast
    have i: "inorder (t_root (Put rnd t key val)) = (before fs @ inorder l) @ (key, val) # inorder r @ after fs"
      using False d TreapNode k by (simp add: Put_def inorder_relink)
    have j: "inorder (t_root t) = (before fs @ inorder l) @ (key, v) # inorder r @ after fs" using o(1) TreapNode k by simp
    have b: "\<forall>x \<in> set (before fs @ inorder l). fst x < key" "\<forall>y \<in> set (inorder r @ after fs). key < fst y"
      using assms unfolding treap_ok_def bst_def j by (auto simp: ordered_simps)
    have "t_totalSize (Put rnd t key val) = sizes (inorder (t_root (Put rnd t key val)))"
      using assms False d TreapNode k unfolding treap_ok_def i
      by (simp add: j sizes_append Put_def nodeSize_def)
    moreover have "ordered (inorder (t_root (Put rnd t key val)))"
      using assms b unfolding treap_ok_def bst_def i j by (simp add: ordered_simps)
    moreover have "t_count (Put rnd t key val) = int (length (inorder (t_root (Put rnd t key val))))"
      using assms False d TreapNode unfolding treap_ok_def i by (simp add: j Put_def)
    moreover have "entries (Put rnd t key val) = (entries t)(key \<mapsto> val)"
      unfolding entries_def i j map_of_split(1) [OF b] by simp
    ultimately show ?thesis by (simp add: treap_ok_def bst_def)
  qed
qed

lemma Delete_spec:
  assumes "treap_ok t"
  shows "treap_ok (Delete t key) \<and> entries (Delete t key) = (entries t)(key := None)"
proof -
  obtain n fs where d: "descend (t_root t) key [] = (n, fs)" by fastforce
  note o = descend_root [OF assms d]
  show ?thesis
  proof (cases n)
    case NilNode
    then show ?thesis using assms d map_of_split(2) [OF o(2,3)] o(1) by (simp add: Delete_def entries_def)
  next
    case (TreapNode k v p l r)
    then have k: "k = key" using o(4) by blast
    have j: "inorder (t_root t) = (before fs @ inorder l) @ (key, v) # inorder r @ after fs" using o(1) TreapNode k by simp
    have b: "\<forall>x \<in> set (before fs @ inorder l). fst x < key" "\<forall>y \<in> set (inorder r @ after fs). key < fst y"
      using assms unfolding treap_ok_def bst_def j by (auto simp: ordered_simps)
    have i: "inorder (t_root (Delete t key)) = (before fs @ inorder l) @ inorder r @ after fs"
      using d TreapNode by (simp add: Delete_def inorder_relink inorder_sink)
    have "t_totalSize (Delete t key) = sizes (inorder (t_root (Delete t key)))"
      using assms d TreapNode k unfolding treap_ok_def i by (auto simp: j sizes_append Delete_def)
    moreover have "t_count (Delete t key) = int (length (inorder (t_root (Delete t key))))"
      using assms d TreapNode unfolding treap_ok_def i by (auto simp: j Delete_def)
    moreover have "ordered (inorder (t_root (Delete t key)))"
      using assms b unfolding treap_ok_def bst_def i j by (auto simp: ordered_simps intro: less_trans)
    moreover have "entries (Delete t key) = (entries t)(key := None)"
      using map_of_split(2) [OF b] unfolding entries_def i j map_of_split(1) [OF b] by simp
    ultimately show ?thesis by (simp add: treap_ok_def bst_def)
  qed
qed

lemma NewTreap_spec: "treap_ok NewTreap" "entries NewTreap = Map.empty"
  by (simp_all add: treap_ok_def NewTreap_def bst_def ordered_Nil entries_def)

interpretation treap: kv_store treap_ok Get "Put rnd" Delete for rnd
proof
  fix t k v
  assume t: "treap_ok t"
  note p = Put_spec [OF t, of rnd k v] and d = Delete_spec [OF t, of k]
  show "treap_ok (Put rnd t k v)" "treap_ok (Delete t k)" using p d by blast+
  show "Get (Put rnd t k v) = (Get t)(k \<mapsto> v)" "Get (Delete t k) = (Get t)(k := None)"
    using p d t by (auto simp: Get_entries fun_eq_iff)
qed

lemma immutable_simps: "ImmutablePut rnd t key val = Put rnd t key val" "ImmutableDelete t key = Delete t key"
  by (simp_all add: ImmutablePut_def Put_def ImmutableDelete_def Delete_def newImmutable_def split: treapNode.splits prod.splits)

interpretation immutable: kv_store treap_ok Get "ImmutablePut rnd" ImmutableDelete for rnd
  unfolding immutable_simps by (rule treap.kv_store_axioms)

section \<open>Traversal\<close>

fun visit :: "(bytes \<Rightarrow> bytes \<Rightarrow> 's \<Rightarrow> bool \<times> 's) \<Rightarrow> (bytes \<times> bytes) list \<Rightarrow> 's \<Rightarrow> 's" where
  "visit fn [] s = s"
| "visit fn ((k, v) # ps) s = (case fn k v s of (goOn, s') \<Rightarrow> if goOn then visit fn ps s' else s')"

fun waiting :: "treapNode list \<Rightarrow> (bytes \<times> bytes) list" where
  "waiting [] = []"
| "waiting (NilNode # ns) = waiting ns"
| "waiting (TreapNode k v p l r # ns) = (k, v) # inorder r @ waiting ns"

lemma waiting_pushLeft: "waiting (pushLeft n ns) = inorder n @ waiting ns"
  by (induction n ns rule: pushLeft.induct) simp_all

lemma pushLeft_nodes: "NilNode \<notin> set ns \<Longrightarrow> NilNode \<notin> set (pushLeft n ns)"
  by (induction n ns rule: pushLeft.induct) simp_all

lemma forEachLoop_visit: "NilNode \<notin> set ns \<Longrightarrow> forEachLoop fn ns s = visit fn (waiting ns) s"
  by (induction fn ns s rule: forEachLoop.induct) (auto simp: waiting_pushLeft pushLeft_nodes split: prod.splits)

lemma ForEach_visit: "ForEach fn t s = visit fn (inorder (t_root t)) s"
  by (simp add: ForEach_def forEachLoop_visit waiting_pushLeft pushLeft_nodes)

lemma visit_all: "visit (\<lambda>k v s. (True, f k v s)) ps s = foldl (\<lambda>s (k, v). f k v s) s ps"
  by (induction ps arbitrary: s) auto

section \<open>Order of the priorities\<close>

fun above :: "int \<Rightarrow> treapNode \<Rightarrow> bool" where
  "above q NilNode = True"
| "above q (TreapNode k v p l r) = (q \<le> p)"

fun heap :: "treapNode \<Rightarrow> bool" where
  "heap NilNode = True"
| "heap (TreapNode k v p l r) = (heap l \<and> heap r \<and> above p l \<and> above p r)"

fun underFrames :: "int \<Rightarrow> frame list \<Rightarrow> bool" where
  "underFrames q [] = True"
| "underFrames q (LeftOf k v p r # fs) = (p \<le> q)"
| "underFrames q (RightOf k v p l # fs) = (p \<le> q)"

fun heapFrames :: "frame list \<Rightarrow> bool" where
  "heapFrames [] = True"
| "heapFrames (LeftOf k v p r # fs) = (heap r \<and> above p r \<and> underFrames p fs \<and> heapFrames fs)"
| "heapFrames (RightOf k v p l # fs) = (heap l \<and> above p l \<and> underFrames p fs \<and> heapFrames fs)"

definition hangs :: "treapNode \<Rightarrow> frame list \<Rightarrow> bool" where
  "hangs t fs \<longleftrightarrow> (case t of NilNode \<Rightarrow> True | TreapNode k v p l r \<Rightarrow> underFrames p fs)"

lemma above_trans: "above p t \<Longrightarrow> q \<le> p \<Longrightarrow> above q t"
  by (cases t) auto

lemma hangs_frames:
  "hangs t (LeftOf k v p r # fs) \<longleftrightarrow> above p t" "hangs t (RightOf k v p l # fs) \<longleftrightarrow> above p t" "hangs t []"
  "hangs (TreapNode k v p l r) fs \<longleftrightarrow> underFrames p fs"
  by (cases t; simp add: hangs_def)+

lemma above_hangs: "above p t \<Longrightarrow> underFrames p fs \<Longrightarrow> hangs t fs"
  by (cases fs rule: heapFrames.cases) (auto simp: hangs_frames intro: above_trans)

lemma heap_relink: "heap (relink t fs) \<longleftrightarrow> heap t \<and> hangs t fs \<and> heapFrames fs"
  by (induction t fs rule: relink.induct) (auto simp: hangs_frames)

lemma heap_rotateUp:
  "heap (TreapNode k v p l r) \<Longrightarrow> hangs l fs \<Longrightarrow> hangs r fs \<Longrightarrow> heapFrames fs \<Longrightarrow> heap (rotateUp k v p l r fs)"
  by (induction k v p l r fs rule: rotateUp.induct) (auto simp: heap_relink hangs_frames intro: above_trans above_hangs)

lemma heap_descend: "descend t key fs = (n, gs) \<Longrightarrow> heap (relink t fs) \<Longrightarrow> heap (relink n gs)"
  by (simp add: relink_descend)

lemma heap_Put: "heap (t_root t) \<Longrightarrow> heap (t_root (Put rnd t key val))"
proof -
  assume h: "heap (t_root t)"
  obtain n fs where d: "descend (t_root t) key [] = (n, fs)" by fastforce
  then have r: "heap (relink n fs)" using h heap_descend [OF d] by simp
  show ?thesis
  proof (cases n)
    case NilNode
    then have "heap (rotateUp key val rnd NilNode NilNode fs)" using r by (intro heap_rotateUp) (auto simp: heap_relink hangs_def)
    then show ?thesis using d NilNode by (simp add: Put_def)
  next
    case (TreapNode k v p l r)
    then show ?thesis using d r by (simp add: Put_def heap_relink hangs_frames)
  qed
qed

section \<open>Properties\<close>

text \<open>A history of updates, on treaps and on finite maps.\<close>

datatype treapOp = PutOp int bytes bytes | DeleteOp bytes

fun applyOp :: "Treap \<Rightarrow> treapOp \<Rightarrow> Treap" where
  "applyOp t (PutOp rnd key val) = Put rnd t key val"
| "applyOp t (DeleteOp key) = Delete t key"

fun mapOp :: "(bytes \<rightharpoonup> bytes) \<Rightarrow> treapOp \<Rightarrow> (bytes \<rightharpoonup> bytes)" where
  "mapOp m (PutOp rnd key val) = m(key \<mapsto> val)"
| "mapOp m (DeleteOp key) = m(key := None)"

lemma history: "treap_ok t \<Longrightarrow> treap_ok (foldl applyOp t ops) \<and> Get (foldl applyOp t ops) = foldl mapOp (Get t) ops"
proof (induction ops arbitrary: t)
  case (Cons a ops)
  have "treap_ok (applyOp t a) \<and> Get (applyOp t a) = mapOp (Get t) a"
    using Cons.prems by (cases a) (auto simp: treap.update_ok treap.remove_ok treap.lookup_update treap.lookup_remove)
  with Cons.IH show ?case by fastforce
qed simp

text \<open>C19. A treap implements a finite map: after any history of \<^verbatim>\<open>Put\<close> and \<^verbatim>\<open>Delete\<close> calls, with any
  priorities, \<^verbatim>\<open>Get\<close> and \<^verbatim>\<open>Has\<close> answer as the map with the same history, \<^verbatim>\<open>Len\<close> is the number of its
  keys, \<^verbatim>\<open>Size\<close> the sum of the sizes of its pairs, and \<^verbatim>\<open>ForEach\<close> visits its pairs in ascending order.\<close>

theorem treap_refines_map:
  "\<exists>ps. sorted_wrt (<) (map fst ps) \<and> map_of ps = foldl mapOp Map.empty ops \<and>
    Get (foldl applyOp NewTreap ops) = map_of ps \<and> (\<forall>k. Has (foldl applyOp NewTreap ops) k = (map_of ps k \<noteq> None)) \<and>
    Len (foldl applyOp NewTreap ops) = int (length ps) \<and> Size (foldl applyOp NewTreap ops) = sizes ps \<and>
    ForEach fn (foldl applyOp NewTreap ops) s = visit fn ps s"
proof -
  let ?t = "foldl applyOp NewTreap ops"
  have g: "Get NewTreap = Map.empty" by (simp add: Get_def NewTreap_def fun_eq_iff)
  have h: "treap_ok ?t" "Get ?t = foldl mapOp Map.empty ops" using history [OF NewTreap_spec(1), of ops] g by simp_all
  have "map_of (inorder (t_root ?t)) = Get ?t" using Get_entries [OF h(1)] by (auto simp: entries_def)
  then show ?thesis using h
    by (intro exI [of _ "inorder (t_root ?t)"]) (simp add: treap_ok_def bst_def ordered_def Len_def Size_def ForEach_visit Has_Get)
qed

text \<open>\<^verbatim>\<open>Put\<close> keeps the priorities in the order of a min-heap, as its comment says; \<^verbatim>\<open>Delete\<close> does not,
  because it rotates up the child with the larger priority. The keys stay in order either way.\<close>

theorem treap_heap_order:
  assumes "heap (t_root t)"
  shows "heap (t_root (Put rnd t key val)) \<and>
    (\<exists>u k. treap_ok u \<and> heap (t_root u) \<and> treap_ok (Delete u k) \<and> \<not> heap (t_root (Delete u k)))"
proof
  show "heap (t_root (Put rnd t key val))" by (rule heap_Put [OF assms])
  let ?u = "Put 2 (Put 3 (Put 1 NewTreap [2] []) [3] []) [1] []"
  have "treap_ok ?u" using NewTreap_spec(1) treap.update_ok by blast
  moreover have "heap (t_root ?u)" "\<not> heap (t_root (Delete ?u [2]))"
    by (simp_all add: Put_def NewTreap_def Delete_def)
  ultimately show "\<exists>u k. treap_ok u \<and> heap (t_root u) \<and> treap_ok (Delete u k) \<and> \<not> heap (t_root (Delete u k))"
    using treap.remove_ok by blast
qed

theorem treap_heap_order_witness:
  "heap (t_root (Put 7 NewTreap [1] [2])) \<and> heap (t_root (Put 5 (Put 7 NewTreap [1] [2]) [3] []))"
proof -
  have h: "heap (t_root (Put 7 NewTreap [1] [2]))" by (simp add: Put_def NewTreap_def)
  with treap_heap_order [OF h, of 5 "[3]" "[]"] show ?thesis by blast
qed

end
