(* ===== verification/MetaStore.thy ===== *)
theory MetaStore
  imports Treap
begin

text \<open>
  The metadata store of the database (\<^verbatim>\<open>database/ffldb/db.go\<close> and \<^verbatim>\<open>dbcache.go\<close>): transactions
  collect their updates in two treaps over a snapshot of the cache, the cache collects the updates
  of committed transactions in two more treaps over leveldb, and buckets are prefixes of keys.
  leveldb is a parameter: a record of its operations, each of which may fail. The clock, the
  result of syncing the block files, the factor 1.5 on a size and the priorities of the treaps
  are parameters as well. The flat block files and the cursors are not modelled. The lemmas show
  that transactions are stores of key/value pairs, that a commit is all or nothing whether or not
  the cache is flushed, and that buckets do not interfere.
\<close>

section \<open>leveldb\<close>

record 'l leveldb =
  ldbGet :: "'l \<Rightarrow> bytes \<Rightarrow> bytes option"
  ldbHas :: "'l \<Rightarrow> bytes \<Rightarrow> bool"
  ldbOpenTransaction :: "'l \<Rightarrow> 'l option"
  ldbPut :: "'l \<Rightarrow> bytes \<Rightarrow> bytes \<Rightarrow> 'l option"
  ldbDelete :: "'l \<Rightarrow> bytes \<Rightarrow> 'l option"
  ldbCommit :: "'l \<Rightarrow> 'l option"

text \<open>An operation that succeeds does what its documentation says.\<close>

definition ldb_ok :: "'l leveldb \<Rightarrow> bool" where
  "ldb_ok L \<longleftrightarrow> (\<forall>l k. ldbHas L l k = (ldbGet L l k \<noteq> None)) \<and>
     (\<forall>l l'. ldbOpenTransaction L l = Some l' \<longrightarrow> ldbGet L l' = ldbGet L l) \<and>
     (\<forall>l k v l'. ldbPut L l k v = Some l' \<longrightarrow> ldbGet L l' = (ldbGet L l)(k \<mapsto> v)) \<and>
     (\<forall>l k l'. ldbDelete L l k = Some l' \<longrightarrow> ldbGet L l' = (ldbGet L l)(k := None)) \<and>
     (\<forall>l l'. ldbCommit L l = Some l' \<longrightarrow> ldbGet L l' = ldbGet L l)"

section \<open>Snapshots and the cache\<close>

record 'l dbCacheSnapshot =
  dbSnapshot :: 'l
  snapKeys :: Treap
  snapRemove :: Treap

definition SnapHas :: "'l leveldb \<Rightarrow> 'l dbCacheSnapshot \<Rightarrow> bytes \<Rightarrow> bool" where
  "SnapHas L snap key =
     (if Has (snapRemove snap) key then False
      else if Has (snapKeys snap) key then True
      else ldbHas L (dbSnapshot snap) key)"

definition SnapGet :: "'l leveldb \<Rightarrow> 'l dbCacheSnapshot \<Rightarrow> bytes \<Rightarrow> bytes option" where
  "SnapGet L snap key =
     (if Has (snapRemove snap) key then None
      else case Get (snapKeys snap) key of Some val \<Rightarrow> Some val | None \<Rightarrow> ldbGet L (dbSnapshot snap) key)"

record 'l dbCache =
  ldb :: 'l
  maxSize :: u64
  flushInterval :: int
  lastFlush :: int
  cachedKeys :: Treap
  cachedRemove :: Treap

definition newDBCache :: "'l \<Rightarrow> u64 \<Rightarrow> int \<Rightarrow> int \<Rightarrow> 'l dbCache" where
  "newDBCache l mx interval now = \<lparr>ldb = l, maxSize = mx, flushInterval = interval, lastFlush = now,
     cachedKeys = NewTreap, cachedRemove = NewTreap\<rparr>"

definition Snapshot :: "'l dbCache \<Rightarrow> 'l dbCacheSnapshot" where
  "Snapshot c = \<lparr>dbSnapshot = ldb c, snapKeys = cachedKeys c, snapRemove = cachedRemove c\<rparr>"

section \<open>Transactions\<close>

record 'l transaction =
  tx_closed :: bool
  tx_writable :: bool
  tx_snapshot :: "'l dbCacheSnapshot"
  pendingKeys :: Treap
  pendingRemove :: Treap

definition begin_tx :: "'l dbCache \<Rightarrow> bool \<Rightarrow> 'l transaction" where
  "begin_tx c writable = \<lparr>tx_closed = False, tx_writable = writable, tx_snapshot = Snapshot c,
     pendingKeys = NewTreap, pendingRemove = NewTreap\<rparr>"

definition hasKey :: "'l leveldb \<Rightarrow> 'l transaction \<Rightarrow> bytes \<Rightarrow> bool" where
  "hasKey L t key =
     (if tx_writable t \<and> Has (pendingRemove t) key then False
      else if tx_writable t \<and> Has (pendingKeys t) key then True
      else SnapHas L (tx_snapshot t) key)"

definition fetchKey :: "'l leveldb \<Rightarrow> 'l transaction \<Rightarrow> bytes \<Rightarrow> bytes option" where
  "fetchKey L t key =
     (if tx_writable t \<and> Has (pendingRemove t) key then None
      else case (if tx_writable t then Get (pendingKeys t) key else None) of
             Some val \<Rightarrow> Some val
           | None \<Rightarrow> SnapGet L (tx_snapshot t) key)"

text \<open>The priorities are given by the treap and the key they are drawn for.\<close>

type_synonym rand = "Treap \<Rightarrow> bytes \<Rightarrow> int"

definition putKey :: "rand \<Rightarrow> 'l transaction \<Rightarrow> bytes \<Rightarrow> bytes \<Rightarrow> 'l transaction" where
  "putKey rnd t key val =
     t\<lparr>pendingRemove := Delete (pendingRemove t) key,
       pendingKeys := Put (rnd (pendingKeys t) key) (pendingKeys t) key val\<rparr>"

definition deleteKey :: "rand \<Rightarrow> 'l transaction \<Rightarrow> bytes \<Rightarrow> 'l transaction" where
  "deleteKey rnd t key =
     t\<lparr>pendingKeys := Delete (pendingKeys t) key,
       pendingRemove := Put (rnd (pendingRemove t) key) (pendingRemove t) key []\<rparr>"

section \<open>Commit\<close>

text \<open>The callbacks of \<^verbatim>\<open>commitTreaps\<close> stop at the first error of the leveldb transaction, which is then
  discarded.\<close>

definition commitTreaps :: "'l leveldb \<Rightarrow> 'l \<Rightarrow> Treap \<Rightarrow> Treap \<Rightarrow> 'l option" where
  "commitTreaps L l keys remove =
     Option.bind (ldbOpenTransaction L l) (\<lambda>l.
     Option.bind (ForEach (\<lambda>k v s. let s' = Option.bind s (\<lambda>l. ldbPut L l k v) in (s' \<noteq> None, s')) keys (Some l)) (\<lambda>l.
     Option.bind (ForEach (\<lambda>k v s. let s' = Option.bind s (\<lambda>l. ldbDelete L l k) in (s' \<noteq> None, s')) remove (Some l)) (\<lambda>l.
       ldbCommit L l)))"

text \<open>\<^verbatim>\<open>flush\<close> returns whether it succeeded; the time of the last flush is set in any case.\<close>

definition flush :: "'l leveldb \<Rightarrow> bool \<Rightarrow> int \<Rightarrow> 'l dbCache \<Rightarrow> bool \<times> 'l dbCache" where
  "flush L synced now c =
     (let c = c\<lparr>lastFlush := now\<rparr>
      in if \<not> synced then (False, c)
         else if Len (cachedKeys c) = 0 \<and> Len (cachedRemove c) = 0 then (True, c)
         else case commitTreaps L (ldb c) (cachedKeys c) (cachedRemove c) of
                None \<Rightarrow> (False, c)
              | Some l \<Rightarrow> (True, c\<lparr>ldb := l, cachedKeys := NewTreap, cachedRemove := NewTreap\<rparr>))"

definition needsFlush :: "(u64 \<Rightarrow> u64) \<Rightarrow> int \<Rightarrow> 'l dbCache \<Rightarrow> 'l transaction \<Rightarrow> bool" where
  "needsFlush scale now c t \<longleftrightarrow> now - lastFlush c > flushInterval c \<or>
     scale (Size (snapKeys (tx_snapshot t)) + Size (snapRemove (tx_snapshot t))) > maxSize c"

definition commitTx ::
  "'l leveldb \<Rightarrow> (u64 \<Rightarrow> u64) \<Rightarrow> bool \<Rightarrow> int \<Rightarrow> rand \<Rightarrow> 'l dbCache \<Rightarrow> 'l transaction \<Rightarrow> bool \<times> 'l dbCache" where
  "commitTx L scale synced now rnd c t =
     (if needsFlush scale now c t then
        (case flush L synced now c of
           (False, c) \<Rightarrow> (False, c)
         | (True, c) \<Rightarrow>
             (case commitTreaps L (ldb c) (pendingKeys t) (pendingRemove t) of
                None \<Rightarrow> (False, c)
              | Some l \<Rightarrow> (True, c\<lparr>ldb := l\<rparr>)))
      else
        let (keys, remove) =
              ForEach (\<lambda>k v (keys, remove). (True, ImmutablePut (rnd keys k) keys k v, ImmutableDelete remove k))
                (pendingKeys t) (cachedKeys c, cachedRemove c);
            (keys, remove) =
              ForEach (\<lambda>k v (keys, remove). (True, ImmutableDelete keys k, ImmutablePut (rnd remove k) remove k []))
                (pendingRemove t) (keys, remove)
        in (True, c\<lparr>cachedKeys := keys, cachedRemove := remove\<rparr>))"

section \<open>Buckets\<close>

datatype meta_err = ErrTxClosed | ErrTxNotWritable | ErrKeyRequired | ErrBucketNameRequired | ErrBucketExists

type_synonym 'a meta_result = "meta_err failure + 'a"

definition checkClosed :: "'l transaction \<Rightarrow> unit meta_result" where
  "checkClosed t = (if tx_closed t then Inl (Err ErrTxClosed) else Inr ())"

definition bucketIndexPrefix :: bytes where "bucketIndexPrefix = str ''bidx''"
definition curBucketIDKeyName :: bytes where "curBucketIDKeyName = str ''bidx-cbid''"
definition metadataBucketID :: bytes where "metadataBucketID = [0, 0, 0, 0]"
definition blockIdxBucketID :: bytes where "blockIdxBucketID = [0, 0, 0, 1]"
definition blockIdxBucketName :: bytes where "blockIdxBucketName = str ''ffldb-blockidx''"

definition bucketIndexKey :: "bytes \<Rightarrow> bytes \<Rightarrow> bytes" where
  "bucketIndexKey parentID key = bucketIndexPrefix @ parentID @ key"

definition bucketizedKey :: "bytes \<Rightarrow> bytes \<Rightarrow> bytes" where
  "bucketizedKey bucketID key = bucketID @ key"

definition writableTx :: "'l transaction \<Rightarrow> unit meta_result" where
  "writableTx t = bindE (checkClosed t) (\<lambda>_. if tx_writable t then Inr () else Inl (Err ErrTxNotWritable))"

definition BucketPut :: "rand \<Rightarrow> bytes \<Rightarrow> 'l transaction \<Rightarrow> bytes \<Rightarrow> bytes \<Rightarrow> 'l transaction meta_result" where
  "BucketPut rnd bid t key val =
     bindE (writableTx t) (\<lambda>_.
       if key = [] then Inl (Err ErrKeyRequired) else Inr (putKey rnd t (bucketizedKey bid key) val))"

definition BucketGet :: "'l leveldb \<Rightarrow> bytes \<Rightarrow> 'l transaction \<Rightarrow> bytes \<Rightarrow> bytes option" where
  "BucketGet L bid t key =
     (if tx_closed t \<or> key = [] then None else fetchKey L t (bucketizedKey bid key))"

definition BucketDelete :: "rand \<Rightarrow> bytes \<Rightarrow> 'l transaction \<Rightarrow> bytes \<Rightarrow> 'l transaction meta_result" where
  "BucketDelete rnd bid t key =
     bindE (writableTx t) (\<lambda>_.
       if key = [] then Inr t else Inr (deleteKey rnd t (bucketizedKey bid key)))"

text \<open>The identifier of a bucket is an array of four bytes: the entry of the bucket index is copied into it.\<close>

definition copyID :: "bytes \<Rightarrow> bytes" where
  "copyID childID = take 4 (childID @ replicate 4 0)"

definition Bucket :: "'l leveldb \<Rightarrow> bytes \<Rightarrow> 'l transaction \<Rightarrow> bytes \<Rightarrow> bytes option" where
  "Bucket L bid t key =
     (if tx_closed t then None else map_option copyID (fetchKey L t (bucketIndexKey bid key)))"

definition beUint32 :: "bytes \<Rightarrow> u32 meta_result" where
  "beUint32 b = (if length b < 4 then Inl Panic
     else Inr (push_bit 24 (ucast (b ! 0)) OR push_bit 16 (ucast (b ! 1)) OR push_bit 8 (ucast (b ! 2)) OR ucast (b ! 3)))"

definition bePutUint32 :: "u32 \<Rightarrow> bytes" where
  "bePutUint32 w = [ucast (drop_bit 24 w), ucast (drop_bit 16 w), ucast (drop_bit 8 w), ucast w]"

definition nextBucketID :: "'l leveldb \<Rightarrow> rand \<Rightarrow> 'l transaction \<Rightarrow> (bytes \<times> 'l transaction) meta_result" where
  "nextBucketID L rnd t =
     bindE (beUint32 (case fetchKey L t curBucketIDKeyName of Some b \<Rightarrow> b | None \<Rightarrow> [])) (\<lambda>curBucketNum.
       let nextID = bePutUint32 (curBucketNum + 1)
       in Inr (nextID, putKey rnd t curBucketIDKeyName nextID))"

definition CreateBucket :: "'l leveldb \<Rightarrow> rand \<Rightarrow> bytes \<Rightarrow> 'l transaction \<Rightarrow> bytes \<Rightarrow> (bytes \<times> 'l transaction) meta_result" where
  "CreateBucket L rnd bid t key =
     bindE (writableTx t) (\<lambda>_.
       let bidxKey = bucketIndexKey bid key
       in if key = [] then Inl (Err ErrBucketNameRequired)
          else if hasKey L t bidxKey then Inl (Err ErrBucketExists)
          else
            bindE (if bid = metadataBucketID \<and> key = blockIdxBucketName then Inr (blockIdxBucketID, t)
                   else nextBucketID L rnd t) (\<lambda>(childID, t).
              Inr (childID, putKey rnd t bidxKey childID)))"

definition GetOrCreateBucket :: "'l leveldb \<Rightarrow> rand \<Rightarrow> bytes \<Rightarrow> 'l transaction \<Rightarrow> bytes \<Rightarrow> (bytes \<times> 'l transaction) meta_result" where
  "GetOrCreateBucket L rnd bid t key =
     bindE (checkClosed t) (\<lambda>_.
       case fetchKey L t (bucketIndexKey bid key) of
         Some childID \<Rightarrow> Inr (copyID childID, t)
       | None \<Rightarrow> CreateBucket L rnd bid t key)"

definition CreateBucketIfNotExists :: "'l leveldb \<Rightarrow> rand \<Rightarrow> bytes \<Rightarrow> 'l transaction \<Rightarrow> bytes \<Rightarrow> (bytes \<times> 'l transaction) meta_result" where
  "CreateBucketIfNotExists L rnd bid t key =
     bindE (writableTx t) (\<lambda>_.
       case Bucket L bid t key of Some childID \<Rightarrow> Inr (childID, t) | None \<Rightarrow> CreateBucket L rnd bid t key)"

section \<open>Layers of updates\<close>

text \<open>Pending updates over a base; a removal wins over an update.\<close>

definition overlay :: "(bytes \<rightharpoonup> bytes) \<Rightarrow> (bytes \<rightharpoonup> bytes) \<Rightarrow> (bytes \<rightharpoonup> bytes) \<Rightarrow> (bytes \<rightharpoonup> bytes)" where
  "overlay keys remove base = (\<lambda>k. if remove k \<noteq> None then None else (base ++ keys) k)"

lemma SnapGet_overlay: "SnapGet L snap = overlay (Get (snapKeys snap)) (Get (snapRemove snap)) (ldbGet L (dbSnapshot snap))"
  by (auto simp: SnapGet_def overlay_def Has_Get map_add_def fun_eq_iff split: option.splits)

lemma SnapHas_SnapGet: "ldb_ok L \<Longrightarrow> SnapHas L snap k \<longleftrightarrow> SnapGet L snap k \<noteq> None"
  by (auto simp: SnapHas_def SnapGet_def Has_Get ldb_ok_def split: option.splits)

lemma fetchKey_overlay:
  "tx_writable t \<Longrightarrow> fetchKey L t = overlay (Get (pendingKeys t)) (Get (pendingRemove t)) (SnapGet L (tx_snapshot t))"
  "\<not> tx_writable t \<Longrightarrow> fetchKey L t = SnapGet L (tx_snapshot t)"
  by (auto simp: fetchKey_def overlay_def Has_Get map_add_def fun_eq_iff split: option.splits)

lemma hasKey_fetchKey: "ldb_ok L \<Longrightarrow> hasKey L t k \<longleftrightarrow> fetchKey L t k \<noteq> None"
  by (auto simp: hasKey_def fetchKey_def Has_Get SnapHas_SnapGet split: option.splits)

lemma overlay_put: "overlay (keys(k \<mapsto> v)) (remove(k := None)) base = (overlay keys remove base)(k \<mapsto> v)"
  by (auto simp: overlay_def map_add_def fun_eq_iff split: option.splits)

lemma overlay_delete: "overlay (keys(k := None)) (remove(k \<mapsto> v)) base = (overlay keys remove base)(k := None)"
  by (auto simp: overlay_def map_add_def fun_eq_iff split: option.splits)

definition tx_ok :: "'l transaction \<Rightarrow> bool" where
  "tx_ok t \<longleftrightarrow> tx_writable t \<and> treap_ok (pendingKeys t) \<and> treap_ok (pendingRemove t)"

definition cache_ok :: "'l dbCache \<Rightarrow> bool" where
  "cache_ok c \<longleftrightarrow> treap_ok (cachedKeys c) \<and> treap_ok (cachedRemove c)"

definition cacheView :: "'l leveldb \<Rightarrow> 'l dbCache \<Rightarrow> bytes \<rightharpoonup> bytes" where
  "cacheView L c = SnapGet L (Snapshot c)"

lemma cacheView_overlay: "cacheView L c = overlay (Get (cachedKeys c)) (Get (cachedRemove c)) (ldbGet L (ldb c))"
  by (simp add: cacheView_def Snapshot_def SnapGet_overlay)

interpretation meta: kv_store tx_ok "fetchKey L" "putKey rnd" "deleteKey rnd" for L rnd
proof
  fix t :: "'a transaction" and k v
  assume t: "tx_ok t"
  show "tx_ok (putKey rnd t k v)" "tx_ok (deleteKey rnd t k)"
    using t by (simp_all add: tx_ok_def putKey_def deleteKey_def treap.update_ok treap.remove_ok)
  show "fetchKey L (putKey rnd t k v) = (fetchKey L t)(k \<mapsto> v)"
    using t by (simp add: fetchKey_overlay tx_ok_def putKey_def treap.lookup_update treap.lookup_remove overlay_put)
  show "fetchKey L (deleteKey rnd t k) = (fetchKey L t)(k := None)"
    using t by (simp add: fetchKey_overlay tx_ok_def deleteKey_def treap.lookup_update treap.lookup_remove overlay_delete)
qed

section \<open>Commits\<close>

lemma map_of_rev: "distinct (map fst ps) \<Longrightarrow> map_of (rev ps) = map_of ps"
proof (induction ps)
  case (Cons p ps)
  then have "map_of ps (fst p) = None" by (simp add: map_of_eq_None_iff)
  with Cons show ?case by (auto simp: map_add_def fun_eq_iff split: option.splits)
qed simp

lemma Get_pairs:
  assumes "treap_ok t"
  shows "Get t = map_of (inorder (t_root t))" "map_of (rev (inorder (t_root t))) = Get t"
proof -
  show g: "Get t = map_of (inorder (t_root t))" using Get_entries [OF assms] by (auto simp: entries_def)
  have "distinct (map fst (inorder (t_root t)))"
    using assms strict_sorted_iff by (auto simp: treap_ok_def bst_def ordered_def)
  then show "map_of (rev (inorder (t_root t))) = Get t" unfolding g by (rule map_of_rev)
qed

lemma visit_puts:
  assumes "ldb_ok L" "visit (\<lambda>k v s. let s' = Option.bind s (\<lambda>l. ldbPut L l k v) in (s' \<noteq> None, s')) ps (Some l) = Some l'"
  shows "ldbGet L l' = ldbGet L l ++ map_of (rev ps)"
  using assms(2)
proof (induction ps arbitrary: l)
  case (Cons p ps)
  obtain k v where p: "p = (k, v)" by fastforce
  with Cons.prems obtain m where m: "ldbPut L l k v = Some m" by (cases "ldbPut L l k v") auto
  then have "ldbGet L m = (ldbGet L l)(k \<mapsto> v)" using assms(1) by (simp add: ldb_ok_def)
  with Cons.IH [of m] Cons.prems p m show ?case by (auto simp: map_add_def fun_eq_iff split: option.splits)
qed simp

lemma visit_deletes:
  assumes "ldb_ok L" "visit (\<lambda>k v s. let s' = Option.bind s (\<lambda>l. ldbDelete L l k) in (s' \<noteq> None, s')) ps (Some l) = Some l'"
  shows "ldbGet L l' = (\<lambda>k. if map_of ps k \<noteq> None then None else ldbGet L l k)"
  using assms(2)
proof (induction ps arbitrary: l)
  case (Cons p ps)
  obtain k v where p: "p = (k, v)" by fastforce
  with Cons.prems obtain m where m: "ldbDelete L l k = Some m" by (cases "ldbDelete L l k") auto
  then have "ldbGet L m = (ldbGet L l)(k := None)" using assms(1) by (simp add: ldb_ok_def)
  with Cons.IH [of m] Cons.prems p m show ?case by (auto simp: fun_eq_iff)
qed simp

lemma commitTreaps_view:
  assumes "ldb_ok L" "treap_ok keys" "treap_ok remove" "commitTreaps L l keys remove = Some l'"
  shows "ldbGet L l' = overlay (Get keys) (Get remove) (ldbGet L l)"
proof -
  from assms(4) obtain l1 l2 l3 where s: "ldbOpenTransaction L l = Some l1"
      "visit (\<lambda>k v s. let s' = Option.bind s (\<lambda>l. ldbPut L l k v) in (s' \<noteq> None, s')) (inorder (t_root keys)) (Some l1) = Some l2"
      "visit (\<lambda>k v s. let s' = Option.bind s (\<lambda>l. ldbDelete L l k) in (s' \<noteq> None, s')) (inorder (t_root remove)) (Some l2) = Some l3"
      "ldbCommit L l3 = Some l'"
    by (auto simp: commitTreaps_def ForEach_visit bind_eq_Some_conv)
  have "ldbGet L l1 = ldbGet L l" "ldbGet L l' = ldbGet L l3" using assms(1) s(1,4) by (simp_all add: ldb_ok_def)
  with visit_puts [OF assms(1) s(2)] visit_deletes [OF assms(1) s(3)] Get_pairs(2) [OF assms(2)] Get_pairs(1) [OF assms(3)]
  show ?thesis by (auto simp: overlay_def fun_eq_iff)
qed

lemma flush_view:
  assumes "ldb_ok L" "cache_ok c" "flush L synced now c = (b, c')"
  shows "cache_ok c' \<and> cacheView L c' = cacheView L c \<and> (b \<longrightarrow> Get (cachedKeys c') = Map.empty \<and> Get (cachedRemove c') = Map.empty)"
proof -
  have e: "Get NewTreap = Map.empty" by (simp add: Get_def NewTreap_def fun_eq_iff)
  have z: "Get t = Map.empty" if "treap_ok t" "Len t = 0" for t
    using that Get_pairs(1) [OF that(1)] by (simp add: Len_def treap_ok_def)
  show ?thesis
  proof (cases "commitTreaps L (ldb c) (cachedKeys c) (cachedRemove c)")
    case None
    then show ?thesis using assms(2,3) z by (auto simp: flush_def cache_ok_def cacheView_overlay Let_def split: if_splits)
  next
    case (Some l)
    note v = commitTreaps_view [OF assms(1) _ _ Some]
    then show ?thesis using assms(2,3) z Some NewTreap_spec(1) e
      by (auto simp: flush_def cache_ok_def cacheView_overlay overlay_def Let_def split: if_splits)
  qed
qed

lemma merge_keys:
  assumes "treap_ok keys" "treap_ok remove"
    and "foldl (\<lambda>(keys, remove) (k, v). (ImmutablePut (rnd keys k) keys k v, ImmutableDelete remove k)) (keys, remove) ps = (keys', remove')"
  shows "treap_ok keys' \<and> treap_ok remove' \<and> Get keys' = Get keys ++ map_of (rev ps) \<and>
    Get remove' = (\<lambda>k. if map_of ps k \<noteq> None then None else Get remove k)"
  using assms
proof (induction ps arbitrary: keys remove)
  case (Cons p ps)
  obtain k v where p: "p = (k, v)" by fastforce
  have "treap_ok (ImmutablePut (rnd keys k) keys k v)" "treap_ok (ImmutableDelete remove k)"
    using Cons.prems by (simp_all add: immutable.update_ok immutable.remove_ok)
  from Cons.IH [OF this] Cons.prems(3) p
  show ?case using Cons.prems(1,2)
    by (auto simp: immutable.lookup_update immutable.lookup_remove map_add_def fun_eq_iff split: option.splits)
qed simp

lemma merge_removes:
  assumes "treap_ok keys" "treap_ok remove"
    and "foldl (\<lambda>(keys, remove) (k, v). (ImmutableDelete keys k, ImmutablePut (rnd remove k) remove k [])) (keys, remove) ps = (keys', remove')"
  shows "treap_ok keys' \<and> treap_ok remove' \<and> Get keys' = (\<lambda>k. if map_of ps k \<noteq> None then None else Get keys k) \<and>
    Get remove' = (\<lambda>k. if map_of ps k \<noteq> None then Some [] else Get remove k)"
  using assms
proof (induction ps arbitrary: keys remove)
  case (Cons p ps)
  obtain k v where p: "p = (k, v)" by fastforce
  have "treap_ok (ImmutableDelete keys k)" "treap_ok (ImmutablePut (rnd remove k) remove k [])"
    using Cons.prems by (simp_all add: immutable.update_ok immutable.remove_ok)
  from Cons.IH [OF this] Cons.prems(3) p
  show ?case using Cons.prems(1,2)
    by (auto simp: immutable.lookup_update immutable.lookup_remove fun_eq_iff)
qed simp

lemma ForEach_pair: "ForEach (\<lambda>k v (a, b). (True, f k v a b, g k v a b)) t (a0, b0) = foldl (\<lambda>(a, b) (k, v). (f k v a b, g k v a b)) (a0, b0) (inorder (t_root t))"
proof -
  have "visit (\<lambda>k v (a, b). (True, f k v a b, g k v a b)) ps (a0, b0) = foldl (\<lambda>(a, b) (k, v). (f k v a b, g k v a b)) (a0, b0) ps" for ps a0 b0
    by (induction ps arbitrary: a0 b0) auto
  then show ?thesis by (simp add: ForEach_visit)
qed

text \<open>A transaction that was begun on the cache as it is at the commit: only one writer is active.\<close>

lemma commitTx_view:
  assumes "ldb_ok L" "cache_ok c" "tx_ok t" "tx_snapshot t = Snapshot c" "commitTx L scale synced now rnd c t = (b, c')"
  shows "cache_ok c' \<and> cacheView L c' = (if b then fetchKey L t else cacheView L c)"
proof -
  have tv: "fetchKey L t = overlay (Get (pendingKeys t)) (Get (pendingRemove t)) (cacheView L c)"
    using assms(3,4) by (simp add: fetchKey_overlay tx_ok_def cacheView_def)
  have ok: "treap_ok (pendingKeys t)" "treap_ok (pendingRemove t)" using assms(3) by (simp_all add: tx_ok_def)
  show ?thesis
  proof (cases "needsFlush scale now c t")
    case True
    obtain f c1 where f: "flush L synced now c = (f, c1)" by fastforce
    note v = flush_view [OF assms(1,2) f]
    show ?thesis
    proof (cases "f \<and> commitTreaps L (ldb c1) (pendingKeys t) (pendingRemove t) \<noteq> None")
      case False
      then have "b = False" "c' = c1" using assms(5) True f by (auto simp: commitTx_def split: option.splits bool.splits)
      with v show ?thesis by simp
    next
      case True
      then obtain l where l: "commitTreaps L (ldb c1) (pendingKeys t) (pendingRemove t) = Some l" by blast
      then have r: "b = True" "c' = c1\<lparr>ldb := l\<rparr>" using assms(5) \<open>needsFlush scale now c t\<close> f True by (auto simp: commitTx_def)
      have e: "Get (cachedKeys c1) = Map.empty" "Get (cachedRemove c1) = Map.empty" using v True by auto
      have "ldbGet L (ldb c1) = cacheView L c" using v e by (simp add: cacheView_overlay [of L c1] overlay_def)
      with commitTreaps_view [OF assms(1) ok l] r e v tv show ?thesis
        by (simp add: cacheView_overlay [of L "c1\<lparr>ldb := l\<rparr>"] overlay_def cache_ok_def)
    qed
  next
    case False
    obtain k1 r1 where 1: "foldl (\<lambda>(keys, remove) (k, v). (ImmutablePut (rnd keys k) keys k v, ImmutableDelete remove k))
        (cachedKeys c, cachedRemove c) (inorder (t_root (pendingKeys t))) = (k1, r1)" by fastforce
    obtain k2 r2 where 2: "foldl (\<lambda>(keys, remove) (k, v). (ImmutableDelete keys k, ImmutablePut (rnd remove k) remove k []))
        (k1, r1) (inorder (t_root (pendingRemove t))) = (k2, r2)" by fastforce
    have r: "b = True" "c' = c\<lparr>cachedKeys := k2, cachedRemove := r2\<rparr>" using assms(5) False 1 2 by (simp_all add: commitTx_def ForEach_pair)
    have c: "treap_ok (cachedKeys c)" "treap_ok (cachedRemove c)" using assms(2) by (simp_all add: cache_ok_def)
    note m1 = merge_keys [OF c 1]
    then have m2: "treap_ok k2 \<and> treap_ok r2 \<and> Get k2 = (\<lambda>k. if map_of (inorder (t_root (pendingRemove t))) k \<noteq> None then None else Get k1 k) \<and>
      Get r2 = (\<lambda>k. if map_of (inorder (t_root (pendingRemove t))) k \<noteq> None then Some [] else Get r1 k)"
      using merge_removes [OF _ _ 2] by blast
    show ?thesis using m1 m2 r tv Get_pairs [OF ok(1)] Get_pairs(1) [OF ok(2)]
      by (auto simp: cache_ok_def cacheView_overlay overlay_def fun_eq_iff map_add_def split: option.splits)
  qed
qed

section \<open>Buckets as stores\<close>

lemma bucketizedKey_eq: "length a = length b \<Longrightarrow> bucketizedKey a j = bucketizedKey b k \<longleftrightarrow> a = b \<and> j = k"
  by (simp add: bucketizedKey_def)

interpretation bucket: kv_store tx_ok "\<lambda>t k. fetchKey L t (bucketizedKey bid k)"
  "\<lambda>t k. putKey rnd t (bucketizedKey bid k)" "\<lambda>t k. deleteKey rnd t (bucketizedKey bid k)" for L rnd bid
  by unfold_locales (auto simp: meta.update_ok meta.remove_ok meta.lookup_update meta.lookup_remove bucketizedKey_eq fun_eq_iff)

lemma bucket_ops:
  assumes "\<not> tx_closed t" "tx_writable t" "key \<noteq> []"
  shows "BucketPut rnd bid t key val = Inr (putKey rnd t (bucketizedKey bid key) val)"
    "BucketDelete rnd bid t key = Inr (deleteKey rnd t (bucketizedKey bid key))"
    "BucketGet L bid t key = fetchKey L t (bucketizedKey bid key)"
  using assms by (simp_all add: BucketPut_def BucketDelete_def BucketGet_def writableTx_def checkClosed_def)

lemma tx_flags [simp]: "tx_closed (putKey rnd t k v) = tx_closed t" "tx_closed (deleteKey rnd t k) = tx_closed t"
  "tx_writable (putKey rnd t k v) = tx_writable t" "tx_writable (deleteKey rnd t k) = tx_writable t"
  "tx_snapshot (putKey rnd t k v) = tx_snapshot t" "tx_snapshot (deleteKey rnd t k) = tx_snapshot t"
  by (simp_all add: putKey_def deleteKey_def)

lemma begin_ok: "tx_ok (begin_tx c True)" "tx_snapshot (begin_tx c w) = Snapshot c" "fetchKey L (begin_tx c w) = cacheView L c"
  "\<not> tx_closed (begin_tx c w)"
proof -
  have "Get NewTreap = Map.empty" by (simp add: Get_def NewTreap_def fun_eq_iff)
  then show "fetchKey L (begin_tx c w) = cacheView L c"
    by (cases w) (simp_all add: fetchKey_overlay begin_tx_def cacheView_def overlay_def)
qed (simp_all add: tx_ok_def begin_tx_def NewTreap_spec)

section \<open>Properties\<close>

text \<open>The updates of a transaction, as in the history of a treap.\<close>

fun txOp :: "rand \<Rightarrow> 'l transaction \<Rightarrow> treapOp \<Rightarrow> 'l transaction" where
  "txOp rnd t (PutOp p key val) = putKey rnd t key val"
| "txOp rnd t (DeleteOp key) = deleteKey rnd t key"

lemma txOps:
  "tx_ok t \<Longrightarrow> tx_ok (foldl (txOp rnd) t ops) \<and> tx_snapshot (foldl (txOp rnd) t ops) = tx_snapshot t \<and>
   fetchKey L (foldl (txOp rnd) t ops) = foldl mapOp (fetchKey L t) ops"
proof (induction ops arbitrary: t)
  case (Cons a ops)
  have "tx_ok (txOp rnd t a) \<and> tx_snapshot (txOp rnd t a) = tx_snapshot t \<and> fetchKey L (txOp rnd t a) = mapOp (fetchKey L t) a"
    using Cons.prems by (cases a) (auto simp: meta.update_ok meta.remove_ok meta.lookup_update meta.lookup_remove)
  with Cons.IH show ?case by fastforce
qed simp

text \<open>C16. Transactions are all or nothing: after any sequence of updates, the transaction reads the
  database with these updates applied. When \<^verbatim>\<open>commitTx\<close> succeeds, every later transaction reads the
  same. When it fails, in the flush of the cache or in the leveldb transaction, every later
  transaction reads the database as it was before.\<close>

theorem db_commit_atomic:
  assumes "ldb_ok L" "cache_ok c" "commitTx L scale synced now rnd c (foldl (txOp rnd') (begin_tx c True) ops) = (b, c')"
  shows "cache_ok c' \<and> fetchKey L (foldl (txOp rnd') (begin_tx c True) ops) = foldl mapOp (fetchKey L (begin_tx c True)) ops \<and>
    fetchKey L (begin_tx c' w) = (if b then foldl mapOp (fetchKey L (begin_tx c True)) ops else fetchKey L (begin_tx c True))"
proof -
  let ?t = "foldl (txOp rnd') (begin_tx c True) ops"
  have t: "tx_ok ?t" "tx_snapshot ?t = Snapshot c" "fetchKey L ?t = foldl mapOp (fetchKey L (begin_tx c True)) ops"
    using txOps [OF begin_ok(1), of rnd' c ops L] by (simp_all add: begin_ok)
  from commitTx_view [OF assms(1,2) t(1,2) assms(3)] t(3) show ?thesis by (simp add: begin_ok(3))
qed

definition mapDB :: "(bytes \<rightharpoonup> bytes) leveldb" where
  "mapDB = \<lparr>ldbGet = (\<lambda>m. m), ldbHas = (\<lambda>m k. m k \<noteq> None), ldbOpenTransaction = Some, ldbPut = (\<lambda>m k v. Some (m(k \<mapsto> v))),
     ldbDelete = (\<lambda>m k. Some (m(k := None))), ldbCommit = Some\<rparr>"

lemma mapDB_ok: "ldb_ok mapDB"
  by (simp add: ldb_ok_def mapDB_def)

definition emptyCache :: "(bytes \<rightharpoonup> bytes) dbCache" where
  "emptyCache = newDBCache Map.empty 100 300 0"

theorem db_commit_atomic_witness:
  "ldb_ok mapDB \<and> cache_ok emptyCache \<and>
   (\<exists>c'. commitTx mapDB id True 1000 (\<lambda>t k. 7) emptyCache
       (foldl (txOp (\<lambda>t k. 7)) (begin_tx emptyCache True) [PutOp 0 [1] [2]]) = (True, c') \<and>
     fetchKey mapDB (begin_tx c' False) [1] = Some [2])"
proof -
  let ?c = emptyCache
  have c: "cache_ok ?c" by (simp add: cache_ok_def emptyCache_def newDBCache_def NewTreap_spec)
  let ?t = "foldl (txOp (\<lambda>t k. 7)) (begin_tx ?c True) [PutOp 0 [1] [2]]"
  have f: "fst (commitTx mapDB id True 1000 (\<lambda>t k. 7) ?c ?t)"
    by (simp add: commitTx_def needsFlush_def emptyCache_def newDBCache_def flush_def Len_def NewTreap_def commitTreaps_def mapDB_def
      begin_tx_def putKey_def Put_def Delete_def ForEach_def Let_def)
  obtain b c' where r: "commitTx mapDB id True 1000 (\<lambda>t k. 7) ?c ?t = (b, c')" by (rule prod.exhaust)
  with f have c': "commitTx mapDB id True 1000 (\<lambda>t k. 7) ?c ?t = (True, c')" by (simp only: fst_conv)
  from db_commit_atomic [OF mapDB_ok c c', where w = False] have "fetchKey mapDB (begin_tx c' False) [1] = Some [2]" by simp
  with c' mapDB_ok c show ?thesis by blast
qed

text \<open>C40. Buckets do not interfere: a successful \<^verbatim>\<open>Put\<close> or \<^verbatim>\<open>Delete\<close> in one bucket is seen by \<^verbatim>\<open>Get\<close> in that
  bucket under that key and changes no other key, no other bucket and, unless the identifier of the
  bucket is the prefix of the bucket index, no entry of the bucket index.\<close>

theorem bucket_isolation:
  assumes "tx_ok t" "length a = 4" "length b = 4" "a \<noteq> bucketIndexPrefix" "BucketPut rnd a t key val = Inr t'" "BucketDelete rnd a t key = Inr t''"
  shows "BucketGet L b t' j = (if b = a \<and> j = key then Some val else BucketGet L b t j) \<and> Bucket L b t' name = Bucket L b t name \<and>
    BucketGet L b t'' j = (if b = a \<and> j = key then None else BucketGet L b t j) \<and> Bucket L b t'' name = Bucket L b t name"
proof -
  have t: "\<not> tx_closed t" "tx_writable t" "key \<noteq> []" "t' = putKey rnd t (bucketizedKey a key) val" "t'' = deleteKey rnd t (bucketizedKey a key)"
    using assms(5,6) by (auto simp: BucketPut_def BucketDelete_def writableTx_def checkClosed_def split: if_splits)
  have p: "length bucketIndexPrefix = 4" by (simp add: bucketIndexPrefix_def str_def)
  then have n: "bucketIndexKey b name \<noteq> bucketizedKey a key" using assms(2,4) by (auto simp: bucketIndexKey_def bucketizedKey_def)
  show ?thesis using t(1-3) assms(1-3) n unfolding t(4,5)
    by (auto simp: BucketGet_def Bucket_def meta.lookup_update meta.lookup_remove bucketizedKey_eq)
qed

theorem bucket_isolation_witness:
  "(\<exists>t'. BucketPut (\<lambda>t k. 7) [0, 0, 0, 2] (begin_tx emptyCache True) [1] [9] = Inr t' \<and>
     BucketGet mapDB [0, 0, 0, 2] t' [1] = Some [9] \<and> BucketGet mapDB [0, 0, 0, 3] t' [1] = None)"
proof -
  let ?t = "begin_tx emptyCache True"
  have ops: "BucketPut (\<lambda>t k. 7) [0, 0, 0, 2] ?t [1] [9] = Inr (putKey (\<lambda>t k. 7) ?t (bucketizedKey [0, 0, 0, 2] [1]) [9])"
    "BucketDelete (\<lambda>t k. 7) [0, 0, 0, 2] ?t [1] = Inr (deleteKey (\<lambda>t k. 7) ?t (bucketizedKey [0, 0, 0, 2] [1]))"
    by (rule bucket_ops; simp add: begin_tx_def)+
  have e: "BucketGet mapDB [0, 0, 0, 3] ?t [1] = None"
    by (simp add: BucketGet_def begin_ok(3) cacheView_overlay overlay_def emptyCache_def newDBCache_def mapDB_def Get_def NewTreap_def)
  have "[0, 0, 0, 2] \<noteq> bucketIndexPrefix" by (simp add: bucketIndexPrefix_def str_def)
  from bucket_isolation [OF begin_ok(1) _ _ this ops, where L = mapDB and b = "[0, 0, 0, 2]" and j = "[1]"]
    bucket_isolation [OF begin_ok(1) _ _ this ops, where L = mapDB and b = "[0, 0, 0, 3]" and j = "[1]"] ops(1) e
  show ?thesis by simp
qed

end
