(* ===== verification/UtxoStore.thy ===== *)
theory UtxoStore
  imports Compress MetaStore
begin

text \<open>
  The unspent outputs and the spend journal in the database (\<^verbatim>\<open>node/chaindata/chaindb_io.go\<close>, with the
  entries of \<^verbatim>\<open>utxoviewpoint.go\<close>). A serialised entry is the header code, the reserved byte of the
  spend journal and the compressed output; the buffers of announced size are the bytes written.
  The loop of \<^verbatim>\<open>PutUtxoView\<close> over a Go map has an order as an argument. The lemmas show that entries
  and journals survive their encoding, that a journal with too few entries is refused, and that
  the bucket of unspent outputs implements the map of unspent outputs.
\<close>

section \<open>Errors\<close>

datatype store_err = DeserializeError | AssertError | CorruptionError | MetaError meta_err

type_synonym 'a store_result = "store_err failure + 'a"

definition mapErr :: "('e \<Rightarrow> 'f) \<Rightarrow> 'e failure + 'a \<Rightarrow> 'f failure + 'a" where
  "mapErr f m = (case m of Inl (Err x) \<Rightarrow> Inl (Err (f x)) | Inl Panic \<Rightarrow> Inl Panic | Inr a \<Rightarrow> Inr a)"

lemma mapErr_Inr [simp]: "mapErr f (Inr a) = Inr a"
  by (simp add: mapErr_def)

section \<open>The spend journal\<close>

record SpentTxOut =
  st_Amount :: int
  st_PkScript :: bytes
  st_Height :: int
  st_IsCoinBase :: bool

definition headerCode :: "int \<Rightarrow> bool \<Rightarrow> u64" where
  "headerCode height isCoinBase =
     (let code = push_bit 1 (word_of_int height :: u64) in if isCoinBase then code OR 1 else code)"

definition spentTxOutHeaderCode :: "SpentTxOut \<Rightarrow> u64" where
  "spentTxOutHeaderCode stxo = headerCode (st_Height stxo) (st_IsCoinBase stxo)"

definition spentTxOutSerializeSize :: "env \<Rightarrow> SpentTxOut \<Rightarrow> nat" where
  "spentTxOutSerializeSize e stxo =
     serializeSizeVLQ (spentTxOutHeaderCode stxo) + (if st_Height stxo > 0 then serializeSizeVLQ 0 else 0) +
     compressedTxOutSize e (word_of_int (st_Amount stxo)) (st_PkScript stxo)"

definition putSpentTxOut :: "env \<Rightarrow> SpentTxOut \<Rightarrow> bytes" where
  "putSpentTxOut e stxo =
     putVLQ (spentTxOutHeaderCode stxo) @ (if st_Height stxo > 0 then putVLQ 0 else []) @
     putCompressedTxOut e (word_of_int (st_Amount stxo)) (st_PkScript stxo)"

definition decodeSpentTxOut :: "env \<Rightarrow> bytes \<Rightarrow> (SpentTxOut \<times> nat) store_result" where
  "decodeSpentTxOut e serialized =
     (if length serialized = 0 then Inl (Err DeserializeError)
      else
        let (code, offset) = deserializeVLQ serialized
        in if offset \<ge> length serialized then Inl (Err DeserializeError)
           else
             let isCoinBase = (code AND 1 \<noteq> 0); height = to_int32 (uint (drop_bit 1 code));
                 offset = (if height > 0 then offset + snd (deserializeVLQ (drop offset serialized)) else offset)
             in if height > 0 \<and> offset \<ge> length serialized then Inl (Err DeserializeError)
                else
                  bindE (mapErr (\<lambda>_. DeserializeError) (decodeCompressedTxOut e (drop offset serialized))) (\<lambda>(am, script, bytesRead).
                    Inr (\<lparr>st_Amount = sint am, st_PkScript = script, st_Height = height, st_IsCoinBase = isCoinBase\<rparr>,
                      offset + bytesRead)))"

text \<open>The entries are read from the last one on.\<close>

fun readStxos :: "env \<Rightarrow> nat \<Rightarrow> bytes \<Rightarrow> SpentTxOut list store_result" where
  "readStxos e 0 serialized = Inr []"
| "readStxos e (Suc n) serialized =
     bindE (decodeSpentTxOut e serialized) (\<lambda>(stxo, bytesRead).
     bindE (readStxos e n (drop bytesRead serialized)) (\<lambda>stxos. Inr (stxos @ [stxo])))"

definition deserializeSpendJournalEntry :: "env \<Rightarrow> bytes \<Rightarrow> MsgTx list \<Rightarrow> SpentTxOut list store_result" where
  "deserializeSpendJournalEntry e serialized txns =
     (let numStxos = sum_list (map (\<lambda>t. length (TxIns t)) txns)
      in if length serialized = 0 then (if numStxos \<noteq> 0 then Inl (Err AssertError) else Inr [])
         else readStxos e numStxos serialized)"

definition serializeSpendJournalEntry :: "env \<Rightarrow> SpentTxOut list \<Rightarrow> bytes" where
  "serializeSpendJournalEntry e stxos = concat (map (putSpentTxOut e) (rev stxos))"

section \<open>Unspent outputs\<close>

abbreviation (input) tfCoinBase :: u8 where "tfCoinBase \<equiv> 1"
abbreviation (input) tfSpent :: u8 where "tfSpent \<equiv> 2"
abbreviation (input) tfModified :: u8 where "tfModified \<equiv> 4"

record UtxoEntry =
  u_amount :: int
  u_pkScript :: bytes
  u_blockHeight :: int
  u_packedFlags :: u8

definition isModified :: "UtxoEntry \<Rightarrow> bool" where
  "isModified u \<longleftrightarrow> u_packedFlags u AND tfModified = tfModified"

definition IsCoinBaseEntry :: "UtxoEntry \<Rightarrow> bool" where
  "IsCoinBaseEntry u \<longleftrightarrow> u_packedFlags u AND tfCoinBase = tfCoinBase"

definition IsSpent :: "UtxoEntry \<Rightarrow> bool" where
  "IsSpent u \<longleftrightarrow> u_packedFlags u AND tfSpent = tfSpent"

definition Spend :: "UtxoEntry \<Rightarrow> UtxoEntry" where
  "Spend u = (if IsSpent u then u else u\<lparr>u_packedFlags := u_packedFlags u OR (tfSpent OR tfModified)\<rparr>)"

definition outpointKey :: "OutPoint \<Rightarrow> bytes" where
  "outpointKey outpoint = Hash outpoint @ putVLQ (ucast (Index outpoint))"

definition keyToOutpoint :: "bytes \<Rightarrow> OutPoint store_result" where
  "keyToOutpoint key =
     (if length key < 32 then Inl Panic
      else Inr \<lparr>Hash = take 32 key, Index = ucast (fst (deserializeVLQ (drop 32 key)))\<rparr>)"

definition utxoEntryHeaderCode :: "UtxoEntry \<Rightarrow> u64 store_result" where
  "utxoEntryHeaderCode u =
     (if IsSpent u then Inl (Err AssertError) else Inr (headerCode (u_blockHeight u) (IsCoinBaseEntry u)))"

text \<open>A spent entry has no serialisation.\<close>

definition serializeUtxoEntry :: "env \<Rightarrow> UtxoEntry \<Rightarrow> bytes option store_result" where
  "serializeUtxoEntry e u =
     (if IsSpent u then Inr None
      else bindE (utxoEntryHeaderCode u) (\<lambda>code.
        Inr (Some (putVLQ code @ putCompressedTxOut e (word_of_int (u_amount u)) (u_pkScript u)))))"

definition DeserializeUtxoEntry :: "env \<Rightarrow> bytes \<Rightarrow> UtxoEntry store_result" where
  "DeserializeUtxoEntry e serialized =
     (let (code, offset) = deserializeVLQ serialized
      in if offset \<ge> length serialized then Inl (Err DeserializeError)
         else
           bindE (mapErr (\<lambda>_. DeserializeError) (decodeCompressedTxOut e (drop offset serialized))) (\<lambda>(am, script, _).
             Inr \<lparr>u_amount = sint am, u_pkScript = script, u_blockHeight = to_int32 (uint (drop_bit 1 code)),
               u_packedFlags = (if code AND 1 \<noteq> 0 then tfCoinBase else 0)\<rparr>))"

section \<open>The buckets\<close>

definition UtxoSetBucketName :: bytes where "UtxoSetBucketName = str ''utxosetv2''"
definition SpendJournalBucketName :: bytes where "SpendJournalBucketName = str ''spendjournal''"

text \<open>A missing bucket is a nil interface, and calling a method of it panics.\<close>

definition metaBucket :: "'l leveldb \<Rightarrow> 'l transaction \<Rightarrow> bytes \<Rightarrow> bytes store_result" where
  "metaBucket L t name = (case Bucket L metadataBucketID t name of None \<Rightarrow> Inl Panic | Some bid \<Rightarrow> Inr bid)"

definition corrupt :: "'a store_result \<Rightarrow> 'a store_result" where
  "corrupt m = mapErr (\<lambda>x. if x = DeserializeError then CorruptionError else x) m"

definition FetchSpendJournalEntry ::
  "env \<Rightarrow> 'l leveldb \<Rightarrow> 'l transaction \<Rightarrow> bytes \<Rightarrow> MsgTx list \<Rightarrow> SpentTxOut list store_result" where
  "FetchSpendJournalEntry e L t blockHash txns =
     bindE (metaBucket L t SpendJournalBucketName) (\<lambda>bid.
       let serialized = (case BucketGet L bid t blockHash of Some s \<Rightarrow> s | None \<Rightarrow> [])
       in if txns = [] then Inl Panic else corrupt (deserializeSpendJournalEntry e serialized (tl txns)))"

definition PutSpendJournalEntry ::
  "env \<Rightarrow> 'l leveldb \<Rightarrow> rand \<Rightarrow> 'l transaction \<Rightarrow> bytes \<Rightarrow> SpentTxOut list \<Rightarrow> 'l transaction store_result" where
  "PutSpendJournalEntry e L rnd t blockHash stxos =
     bindE (metaBucket L t SpendJournalBucketName) (\<lambda>bid.
       mapErr MetaError (BucketPut rnd bid t blockHash (serializeSpendJournalEntry e stxos)))"

definition RemoveSpendJournalEntry ::
  "'l leveldb \<Rightarrow> rand \<Rightarrow> 'l transaction \<Rightarrow> bytes \<Rightarrow> 'l transaction store_result" where
  "RemoveSpendJournalEntry L rnd t blockHash =
     bindE (metaBucket L t SpendJournalBucketName) (\<lambda>bid. mapErr MetaError (BucketDelete rnd bid t blockHash))"

definition FetchUtxoEntry :: "env \<Rightarrow> 'l leveldb \<Rightarrow> 'l transaction \<Rightarrow> OutPoint \<Rightarrow> UtxoEntry option store_result" where
  "FetchUtxoEntry e L t outpoint =
     bindE (metaBucket L t UtxoSetBucketName) (\<lambda>bid.
       case BucketGet L bid t (outpointKey outpoint) of
         None \<Rightarrow> Inr None
       | Some serializedUtxo \<Rightarrow>
           if length serializedUtxo = 0 then Inl (Err AssertError)
           else corrupt (bindE (DeserializeUtxoEntry e serializedUtxo) (\<lambda>u. Inr (Some u))))"

text \<open>The entries of a view: an absent key, a nil pointer or an entry.\<close>

type_synonym utxo_entries = "OutPoint \<Rightarrow> UtxoEntry option option"

definition putEntry ::
  "env \<Rightarrow> rand \<Rightarrow> bytes store_result \<Rightarrow> utxo_entries \<Rightarrow> 'l transaction \<Rightarrow> OutPoint \<Rightarrow> 'l transaction store_result" where
  "putEntry e rnd bucket ents t outpoint =
     (case ents outpoint of
        Some (Some u) \<Rightarrow>
          if \<not> isModified u then Inr t
          else if IsSpent u then bindE bucket (\<lambda>bid. mapErr MetaError (BucketDelete rnd bid t (outpointKey outpoint)))
          else
            bindE (serializeUtxoEntry e u) (\<lambda>serialized.
            bindE bucket (\<lambda>bid.
              mapErr MetaError (BucketPut rnd bid t (outpointKey outpoint) (case serialized of Some s \<Rightarrow> s | None \<Rightarrow> []))))
      | _ \<Rightarrow> Inr t)"

fun putEntries ::
  "env \<Rightarrow> rand \<Rightarrow> bytes store_result \<Rightarrow> utxo_entries \<Rightarrow> OutPoint list \<Rightarrow> 'l transaction \<Rightarrow> 'l transaction store_result" where
  "putEntries e rnd bucket ents [] t = Inr t"
| "putEntries e rnd bucket ents (outpoint # order) t =
     bindE (putEntry e rnd bucket ents t outpoint) (\<lambda>t. putEntries e rnd bucket ents order t)"

definition PutUtxoView ::
  "env \<Rightarrow> 'l leveldb \<Rightarrow> rand \<Rightarrow> OutPoint list \<Rightarrow> utxo_entries \<Rightarrow> 'l transaction \<Rightarrow> 'l transaction store_result" where
  "PutUtxoView e L rnd order ents t = putEntries e rnd (metaBucket L t UtxoSetBucketName) ents order t"

section \<open>Entries survive their encoding\<close>

lemma headerCode_roundtrip:
  assumes "0 \<le> h" "h < 2 ^ 31"
  shows "to_int32 (uint (drop_bit 1 (headerCode h b))) = h" "headerCode h b AND 1 \<noteq> 0 \<longleftrightarrow> b"
proof -
  have e: "even (push_bit 1 (word_of_int h :: u64))" by simp
  have "headerCode h b = word_of_int (2 * h + (if b then 1 else 0))"
    using e by (simp add: headerCode_def Let_def or_one_eq)
  then have u: "uint (headerCode h b) = 2 * h + (if b then 1 else 0)"
    using assms by (simp only: uint_word_of_int) simp
  then have "uint (drop_bit 1 (headerCode h b)) = h" by (simp add: drop_bit_eq_div uint_div)
  then show "to_int32 (uint (drop_bit 1 (headerCode h b))) = h" using assms by simp
  have "headerCode h b AND 1 = 0 \<longleftrightarrow> uint (headerCode h b) mod 2 = 0"
    by (simp add: and_one_eq word_uint_eq_iff uint_mod)
  then show "headerCode h b AND 1 \<noteq> 0 \<longleftrightarrow> b" unfolding u by simp
qed

definition txout_ok :: "int \<Rightarrow> bytes \<Rightarrow> int \<Rightarrow> bool" where
  "txout_ok am script height \<longleftrightarrow> 0 \<le> am \<and> am \<le> 2 * 10 ^ 18 \<and> length script < 2 ^ 62 \<and> 0 \<le> height \<and> height < 2 ^ 31"

lemma txout_decode:
  assumes "keys_recover e" "txout_ok am script height"
  shows "\<exists>n. decodeCompressedTxOut e (putCompressedTxOut e (word_of_int am) script @ rest) = Inr (word_of_int am, script, n) \<and>
      length (putCompressedTxOut e (word_of_int am) script) = n \<and> n = compressedTxOutSize e (word_of_int am) script"
    "sint (word_of_int am :: u64) = am" "putCompressedTxOut e (word_of_int am) script \<noteq> []"
proof -
  have u: "uint (word_of_int am :: u64) = am" using assms(2) by (simp only: uint_word_of_int) (simp add: txout_ok_def)
  then have "unat (word_of_int am :: u64) = nat am" by (simp add: unat_eq_nat_uint)
  then have "unat (word_of_int am :: u64) \<le> 2 * 10 ^ 18" using assms(2) by (auto simp: txout_ok_def nat_le_iff)
  then show "\<exists>n. decodeCompressedTxOut e (putCompressedTxOut e (word_of_int am) script @ rest) = Inr (word_of_int am, script, n) \<and>
      length (putCompressedTxOut e (word_of_int am) script) = n \<and> n = compressedTxOutSize e (word_of_int am) script"
    using txout_roundtrip [OF assms(1), of script "word_of_int am" rest] assms(2) by (simp add: txout_ok_def)
  show "sint (word_of_int am :: u64) = am" using assms(2) u by (simp add: sint_uint txout_ok_def signed_take_bit_int_eq_self)
  show "putCompressedTxOut e (word_of_int am) script \<noteq> []" by (simp add: putCompressedTxOut_def putVLQ_nonempty)
qed

definition stxo_ok :: "SpentTxOut \<Rightarrow> bool" where
  "stxo_ok stxo \<longleftrightarrow> txout_ok (st_Amount stxo) (st_PkScript stxo) (st_Height stxo)"

lemma decode_putSpentTxOut:
  assumes "keys_recover e" "stxo_ok stxo"
  shows "decodeSpentTxOut e (putSpentTxOut e stxo @ rest) = Inr (stxo, length (putSpentTxOut e stxo))"
    "length (putSpentTxOut e stxo) = spentTxOutSerializeSize e stxo"
proof -
  let ?code = "spentTxOutHeaderCode stxo" and ?out = "putCompressedTxOut e (word_of_int (st_Amount stxo)) (st_PkScript stxo)"
  let ?mid = "if st_Height stxo > 0 then putVLQ 0 else []"
  have ok: "txout_ok (st_Amount stxo) (st_PkScript stxo) (st_Height stxo)" using assms(2) by (simp add: stxo_ok_def)
  note d = txout_decode [OF assms(1) ok]
  obtain n where n: "decodeCompressedTxOut e (?out @ rest) = Inr (word_of_int (st_Amount stxo), st_PkScript stxo, n)" "length ?out = n"
      "n = compressedTxOutSize e (word_of_int (st_Amount stxo)) (st_PkScript stxo)"
    using d(1) [of rest] by blast
  have "0 < n" using n(2) d(3) by auto
  have h: "to_int32 (uint (drop_bit 1 ?code)) = st_Height stxo" "?code AND 1 \<noteq> 0 \<longleftrightarrow> st_IsCoinBase stxo"
    using ok headerCode_roundtrip by (simp_all add: spentTxOutHeaderCode_def txout_ok_def)
  have v: "deserializeVLQ (putVLQ ?code @ ?mid @ ?out @ rest) = (?code, length (putVLQ ?code))" by (rule VLQ_roundtrip)
  have m: "deserializeVLQ (putVLQ 0 @ ?out @ rest) = (0, length (putVLQ 0))" by (rule VLQ_roundtrip)
  show "decodeSpentTxOut e (putSpentTxOut e stxo @ rest) = Inr (stxo, length (putSpentTxOut e stxo))"
    using n(1,2) h v m d(2,3) \<open>0 < n\<close> by (simp add: decodeSpentTxOut_def putSpentTxOut_def putVLQ_nonempty Let_def)
  show "length (putSpentTxOut e stxo) = spentTxOutSerializeSize e stxo"
    using n by (simp add: putSpentTxOut_def spentTxOutSerializeSize_def VLQ_size)
qed

lemma readStxos_roundtrip:
  assumes "keys_recover e" "list_all stxo_ok stxos"
  shows "readStxos e (length stxos) (serializeSpendJournalEntry e stxos @ rest) = Inr stxos"
  using assms(2)
proof (induction stxos arbitrary: rest rule: rev_induct)
  case (snoc stxo stxos)
  have s: "serializeSpendJournalEntry e (stxos @ [stxo]) @ rest = putSpentTxOut e stxo @ serializeSpendJournalEntry e stxos @ rest"
    by (simp add: serializeSpendJournalEntry_def)
  show ?case using snoc decode_putSpentTxOut(1) [OF assms(1), of stxo] unfolding s by simp
qed (simp add: serializeSpendJournalEntry_def)

lemma readStxos_short:
  assumes "keys_recover e" "list_all stxo_ok stxos" "length stxos < n"
  shows "readStxos e n (serializeSpendJournalEntry e stxos) = Inl (Err DeserializeError)"
  using assms(2,3)
proof (induction stxos arbitrary: n rule: rev_induct)
  case Nil
  then show ?case by (cases n) (simp_all add: serializeSpendJournalEntry_def decodeSpentTxOut_def)
next
  case (snoc stxo stxos)
  have s: "serializeSpendJournalEntry e (stxos @ [stxo]) = putSpentTxOut e stxo @ serializeSpendJournalEntry e stxos"
    by (simp add: serializeSpendJournalEntry_def)
  obtain m where m: "n = Suc m" "length stxos < m" using snoc.prems(2) by (cases n) auto
  show ?case using snoc m decode_putSpentTxOut(1) [OF assms(1), of stxo "serializeSpendJournalEntry e stxos"] unfolding s m(1) by simp
qed

lemma serialize_journal_empty: "serializeSpendJournalEntry e stxos = [] \<longleftrightarrow> stxos = []"
  by (auto simp: serializeSpendJournalEntry_def putSpentTxOut_def putVLQ_nonempty)

text \<open>What remains of an entry in the database: the modified and the spent flag are not stored.\<close>

definition stored :: "UtxoEntry \<Rightarrow> UtxoEntry" where
  "stored u = u\<lparr>u_packedFlags := (if IsCoinBaseEntry u then tfCoinBase else 0)\<rparr>"

definition entry_ok :: "UtxoEntry \<Rightarrow> bool" where
  "entry_ok u \<longleftrightarrow> txout_ok (u_amount u) (u_pkScript u) (u_blockHeight u)"

lemma utxo_entry_roundtrip:
  assumes "keys_recover e" "entry_ok u" "\<not> IsSpent u"
  obtains s where "serializeUtxoEntry e u = Inr (Some s)" "s \<noteq> []" "DeserializeUtxoEntry e s = Inr (stored u)"
proof -
  let ?code = "headerCode (u_blockHeight u) (IsCoinBaseEntry u)" and ?out = "putCompressedTxOut e (word_of_int (u_amount u)) (u_pkScript u)"
  have ok: "txout_ok (u_amount u) (u_pkScript u) (u_blockHeight u)" using assms(2) by (simp add: entry_ok_def)
  note d = txout_decode [OF assms(1) ok]
  obtain n where n: "decodeCompressedTxOut e ?out = Inr (word_of_int (u_amount u), u_pkScript u, n)" using d(1) [of "[]"] by auto
  have h: "to_int32 (uint (drop_bit 1 ?code)) = u_blockHeight u" "?code AND 1 \<noteq> 0 \<longleftrightarrow> IsCoinBaseEntry u"
    using ok headerCode_roundtrip by (simp_all add: txout_ok_def)
  have v: "deserializeVLQ (putVLQ ?code @ ?out) = (?code, length (putVLQ ?code))" by (rule VLQ_roundtrip)
  show thesis
  proof (rule that)
    show "serializeUtxoEntry e u = Inr (Some (putVLQ ?code @ ?out))" using assms(3) by (simp add: serializeUtxoEntry_def utxoEntryHeaderCode_def)
    show "putVLQ ?code @ ?out \<noteq> []" by (simp add: putVLQ_nonempty)
    show "DeserializeUtxoEntry e (putVLQ ?code @ ?out) = Inr (stored u)"
      using v n h d(2,3) by (simp add: DeserializeUtxoEntry_def stored_def)
  qed
qed

lemma ucast_up_down: "ucast (ucast (w :: u32) :: u64) = w"
  by (rule bit_word_eqI) (simp add: bit_simps)

lemma outpointKey_inj:
  assumes "length (Hash a) = 32" "length (Hash b) = 32"
  shows "outpointKey a = outpointKey b \<longleftrightarrow> a = b"
proof
  assume eq: "outpointKey a = outpointKey b"
  then have h: "Hash a = Hash b" "putVLQ (ucast (Index a)) = putVLQ (ucast (Index b))" using assms by (simp_all add: outpointKey_def)
  from h(2) have "(ucast (Index a) :: u64) = ucast (Index b)"
    using VLQ_roundtrip [of "ucast (Index a)" "[]"] VLQ_roundtrip [of "ucast (Index b)" "[]"] by simp
  then have "Index a = Index b" by (metis ucast_up_down)
  with h show "a = b" by simp
qed simp

lemma keyToOutpoint_outpointKey:
  assumes "length (Hash a) = 32"
  shows "keyToOutpoint (outpointKey a) = Inr a"
  using assms VLQ_roundtrip [of "ucast (Index a)" "[]"] by (simp add: keyToOutpoint_def outpointKey_def ucast_up_down)

section \<open>The bucket of unspent outputs\<close>

definition view_ok :: "utxo_entries \<Rightarrow> bool" where
  "view_ok ents \<longleftrightarrow> (\<forall>p u. ents p = Some (Some u) \<longrightarrow> length (Hash p) = 32 \<and> entry_ok u)"

text \<open>The change a view makes to the value of a key, if it makes one.\<close>

definition change :: "env \<Rightarrow> utxo_entries \<Rightarrow> OutPoint \<Rightarrow> bytes option option" where
  "change e ents p =
     (case ents p of
        Some (Some u) \<Rightarrow>
          if \<not> isModified u then None else if IsSpent u then Some None else Some (projr (serializeUtxoEntry e u))
      | _ \<Rightarrow> None)"

definition utxo_tx :: "'l leveldb \<Rightarrow> bytes \<Rightarrow> 'l transaction \<Rightarrow> bool" where
  "utxo_tx L bid t \<longleftrightarrow> tx_ok t \<and> \<not> tx_closed t \<and> bid \<noteq> bucketIndexPrefix \<and> length bid = 4 \<and> metaBucket L t UtxoSetBucketName = Inr bid"

lemma outpointKey_nonempty: "outpointKey p \<noteq> []"
  by (simp add: outpointKey_def putVLQ_nonempty)

lemma metaBucket_other:
  assumes "tx_ok t" "length bid = 4" "bid \<noteq> bucketIndexPrefix"
  shows "metaBucket L (putKey rnd t (bucketizedKey bid k) v) name = metaBucket L t name"
    "metaBucket L (deleteKey rnd t (bucketizedKey bid k)) name = metaBucket L t name"
proof -
  have "length bucketIndexPrefix = 4" by (simp add: bucketIndexPrefix_def str_def)
  then have n: "bucketIndexKey b name \<noteq> bucketizedKey bid k" for b using assms(2,3) by (auto simp: bucketIndexKey_def bucketizedKey_def)
  show "metaBucket L (putKey rnd t (bucketizedKey bid k) v) name = metaBucket L t name"
    "metaBucket L (deleteKey rnd t (bucketizedKey bid k)) name = metaBucket L t name"
    using n assms(1) by (simp_all add: metaBucket_def Bucket_def meta.lookup_update meta.lookup_remove)
qed

lemma putEntry_change:
  assumes "keys_recover e" "view_ok ents" "utxo_tx L bid t"
  obtains t' where "putEntry e rnd (Inr bid) ents t p = Inr t'" "utxo_tx L bid t'" "tx_snapshot t' = tx_snapshot t"
    "fetchKey L t' = (case change e ents p of None \<Rightarrow> fetchKey L t | Some v \<Rightarrow> (fetchKey L t)(bucketizedKey bid (outpointKey p) := v))"
proof -
  have t: "tx_ok t" "\<not> tx_closed t" "tx_writable t" "length bid = 4" "bid \<noteq> bucketIndexPrefix" using assms(3) by (auto simp: utxo_tx_def tx_ok_def)
  note ops = bucket_ops [OF t(2,3) outpointKey_nonempty]
  have inv: "utxo_tx L bid (putKey rnd t (bucketizedKey bid k) v)" "utxo_tx L bid (deleteKey rnd t (bucketizedKey bid k))" for k v
    using assms(3) metaBucket_other [OF t(1,4,5)] by (simp_all add: utxo_tx_def meta.update_ok meta.remove_ok)
  show thesis
  proof (cases "\<exists>u. ents p = Some (Some u) \<and> isModified u")
    case False
    then have "putEntry e rnd (Inr bid) ents t p = Inr t" "change e ents p = None"
      by (auto simp: putEntry_def change_def split: option.splits)
    with assms(3) show ?thesis by (intro that) simp_all
  next
    case True
    then obtain u where u: "ents p = Some (Some u)" "isModified u" by blast
    then have "entry_ok u" using assms(2) by (simp add: view_ok_def)
    show ?thesis
    proof (cases "IsSpent u")
      case True
      then show ?thesis using u ops(2) inv(2) t(1)
        by (intro that [of "deleteKey rnd t (bucketizedKey bid (outpointKey p))"]) (simp_all add: putEntry_def change_def meta.lookup_remove)
    next
      case False
      obtain s where s: "serializeUtxoEntry e u = Inr (Some s)" by (rule utxo_entry_roundtrip [OF assms(1) \<open>entry_ok u\<close> False])
      then show ?thesis using u ops(1) inv(1) t(1) False
        by (intro that [of "putKey rnd t (bucketizedKey bid (outpointKey p)) s"]) (simp_all add: putEntry_def change_def meta.lookup_update)
    qed
  qed
qed

lemma putEntries_changes:
  assumes "keys_recover e" "view_ok ents" "utxo_tx L bid t"
  obtains t' where "putEntries e rnd (Inr bid) ents order t = Inr t'" "utxo_tx L bid t'" "tx_snapshot t' = tx_snapshot t"
    "\<And>q. length (Hash q) = 32 \<Longrightarrow> fetchKey L t' (bucketizedKey bid (outpointKey q)) =
      (if q \<in> set order \<and> change e ents q \<noteq> None then the (change e ents q) else fetchKey L t (bucketizedKey bid (outpointKey q)))"
  using assms(3)
proof (induction order arbitrary: t thesis)
  case (Cons p order)
  obtain t1 where t1: "putEntry e rnd (Inr bid) ents t p = Inr t1" "utxo_tx L bid t1" "tx_snapshot t1 = tx_snapshot t"
      "fetchKey L t1 = (case change e ents p of None \<Rightarrow> fetchKey L t | Some v \<Rightarrow> (fetchKey L t)(bucketizedKey bid (outpointKey p) := v))"
    by (rule putEntry_change [OF assms(1,2) Cons.prems(2)])
  have p: "length (Hash p) = 32" if "change e ents p \<noteq> None"
    using that assms(2) by (auto simp: change_def view_ok_def split: option.splits)
  from t1(2) show ?case
  proof (rule Cons.IH [rotated])
    fix t2
    assume t2: "putEntries e rnd (Inr bid) ents order t1 = Inr t2" "utxo_tx L bid t2" "tx_snapshot t2 = tx_snapshot t1"
      "\<And>q. length (Hash q) = 32 \<Longrightarrow> fetchKey L t2 (bucketizedKey bid (outpointKey q)) =
        (if q \<in> set order \<and> change e ents q \<noteq> None then the (change e ents q) else fetchKey L t1 (bucketizedKey bid (outpointKey q)))"
    show thesis
    proof (rule Cons.prems(1))
      show "putEntries e rnd (Inr bid) ents (p # order) t = Inr t2" using t1(1) t2(1) by simp
      show "utxo_tx L bid t2" "tx_snapshot t2 = tx_snapshot t" using t1(3) t2(2,3) by simp_all
      fix q :: OutPoint
      assume q: "length (Hash q) = 32"
      have "fetchKey L t1 (bucketizedKey bid (outpointKey q)) =
          (if q = p \<and> change e ents q \<noteq> None then the (change e ents q) else fetchKey L t (bucketizedKey bid (outpointKey q)))"
        using t1(4) p q outpointKey_inj by (auto simp: bucketizedKey_eq split: option.splits)
      with t2(4) [OF q] show "fetchKey L t2 (bucketizedKey bid (outpointKey q)) =
          (if q \<in> set (p # order) \<and> change e ents q \<noteq> None then the (change e ents q) else fetchKey L t (bucketizedKey bid (outpointKey q)))"
        by auto
    qed
  qed
qed simp

lemma FetchUtxoEntry_cong:
  assumes "fetchKey L t = fetchKey L t'" "tx_closed t = tx_closed t'"
  shows "FetchUtxoEntry e L t p = FetchUtxoEntry e L t' p"
  unfolding FetchUtxoEntry_def metaBucket_def Bucket_def BucketGet_def assms by (rule refl)

lemma FetchUtxoEntry_tx:
  assumes "utxo_tx L bid t"
  shows "FetchUtxoEntry e L t p =
    (case fetchKey L t (bucketizedKey bid (outpointKey p)) of
       None \<Rightarrow> Inr None
     | Some s \<Rightarrow> if length s = 0 then Inl (Err AssertError) else corrupt (bindE (DeserializeUtxoEntry e s) (\<lambda>u. Inr (Some u))))"
  using assms by (simp add: FetchUtxoEntry_def utxo_tx_def BucketGet_def outpointKey_nonempty)

section \<open>Properties\<close>

text \<open>C17. The bucket of unspent outputs implements the map of unspent outputs: \<^verbatim>\<open>PutUtxoView\<close> succeeds, in
  whatever order the entries of the view are visited, and once its transaction is committed,
  \<^verbatim>\<open>FetchUtxoEntry\<close> in a later transaction returns nothing for an output that the view has spent, the
  entry of the view for any other modified output, and the earlier answer for every other output.\<close>

theorem utxo_store_refines:
  assumes "keys_recover e" "ldb_ok L" "cache_ok c" "view_ok ents" "utxo_tx L bid (begin_tx c True)"
    and "set order = {p. ents p \<noteq> None}" "length (Hash q) = 32"
  shows "\<exists>t. PutUtxoView e L rnd order ents (begin_tx c True) = Inr t \<and>
    (\<forall>c'. commitTx L scale synced now rnd' c t = (True, c') \<longrightarrow>
      FetchUtxoEntry e L (begin_tx c' False) q =
        (case ents q of
           Some (Some u) \<Rightarrow>
             if isModified u then Inr (if IsSpent u then None else Some (stored u)) else FetchUtxoEntry e L (begin_tx c False) q
         | _ \<Rightarrow> FetchUtxoEntry e L (begin_tx c False) q))"
proof -
  have b: "metaBucket L (begin_tx c True) UtxoSetBucketName = Inr bid" using assms(5) by (simp add: utxo_tx_def)
  obtain t where t: "putEntries e rnd (Inr bid) ents order (begin_tx c True) = Inr t" "utxo_tx L bid t" "tx_snapshot t = Snapshot c"
      "fetchKey L t (bucketizedKey bid (outpointKey q)) =
        (if q \<in> set order \<and> change e ents q \<noteq> None then the (change e ents q)
         else fetchKey L (begin_tx c True) (bucketizedKey bid (outpointKey q)))"
    by (rule putEntries_changes [OF assms(1,4,5), of rnd order]) (auto simp: begin_ok assms(7))
  have f: "FetchUtxoEntry e L t q =
      (case ents q of
         Some (Some u) \<Rightarrow> if isModified u then Inr (if IsSpent u then None else Some (stored u)) else FetchUtxoEntry e L (begin_tx c True) q
       | _ \<Rightarrow> FetchUtxoEntry e L (begin_tx c True) q)"
  proof (cases "\<exists>u. ents q = Some (Some u) \<and> isModified u")
    case False
    then have "change e ents q = None" by (auto simp: change_def split: option.splits)
    with False t(4) show ?thesis by (auto simp: FetchUtxoEntry_tx [OF t(2)] FetchUtxoEntry_tx [OF assms(5)] split: option.splits)
  next
    case True
    then obtain u where u: "ents q = Some (Some u)" "isModified u" by blast
    then have q: "q \<in> set order" "entry_ok u" using assms(4,6) by (auto simp: view_ok_def)
    show ?thesis
    proof (cases "IsSpent u")
      case True
      then show ?thesis using u q t(4) by (simp add: FetchUtxoEntry_tx [OF t(2)] change_def)
    next
      case False
      obtain s where "serializeUtxoEntry e u = Inr (Some s)" "s \<noteq> []" "DeserializeUtxoEntry e s = Inr (stored u)"
        by (rule utxo_entry_roundtrip [OF assms(1) q(2) False])
      then show ?thesis using u q t(4) False by (simp add: FetchUtxoEntry_tx [OF t(2)] change_def corrupt_def)
    qed
  qed
  have "FetchUtxoEntry e L (begin_tx c' False) q = FetchUtxoEntry e L t q" if "commitTx L scale synced now rnd' c t = (True, c')" for c'
  proof (rule FetchUtxoEntry_cong)
    have ok: "tx_ok t" "\<not> tx_closed t" using t(2) by (simp_all add: utxo_tx_def)
    show "fetchKey L (begin_tx c' False) = fetchKey L t" using commitTx_view [OF assms(2,3) ok(1) t(3) that] by (simp add: begin_ok(3))
    show "tx_closed (begin_tx c' False) = tx_closed t" using ok(2) by (simp add: begin_ok(4))
  qed
  moreover have g: "FetchUtxoEntry e L (begin_tx c False) q = FetchUtxoEntry e L (begin_tx c True) q"
    by (rule FetchUtxoEntry_cong) (simp_all add: begin_ok)
  ultimately show ?thesis using f t(1) b unfolding g by (intro exI [of _ t]) (simp add: PutUtxoView_def)
qed

text \<open>A database with the bucket of unspent outputs and nothing in it.\<close>

definition utxoCache :: "(bytes \<rightharpoonup> bytes) dbCache" where
  "utxoCache = newDBCache [bucketIndexKey metadataBucketID UtxoSetBucketName \<mapsto> [0, 0, 0, 5]] 100 300 0"

definition sampleView :: utxo_entries where
  "sampleView = [\<lparr>Hash = replicate 32 1, Index = 0\<rparr> \<mapsto> Some \<lparr>u_amount = 50, u_pkScript = [OP_1], u_blockHeight = 7, u_packedFlags = 5\<rparr>]"

theorem utxo_store_refines_witness:
  "keys_recover zeroKeyEnv \<and> ldb_ok mapDB \<and> cache_ok utxoCache \<and> view_ok sampleView \<and> utxo_tx mapDB [0, 0, 0, 5] (begin_tx utxoCache True) \<and>
   (\<exists>t. PutUtxoView zeroKeyEnv mapDB (\<lambda>t k. 1) [\<lparr>Hash = replicate 32 1, Index = 0\<rparr>] sampleView (begin_tx utxoCache True) = Inr t)"
proof -
  have c: "cache_ok utxoCache" by (simp add: cache_ok_def utxoCache_def newDBCache_def NewTreap_spec)
  have v: "view_ok sampleView"
    by (auto simp: view_ok_def sampleView_def entry_ok_def txout_ok_def split: if_splits)
  have "cacheView mapDB utxoCache = [bucketIndexKey metadataBucketID UtxoSetBucketName \<mapsto> [0, 0, 0, 5]]"
    by (simp add: cacheView_overlay overlay_def utxoCache_def newDBCache_def mapDB_def Get_def NewTreap_def map_add_def fun_eq_iff)
  then have u: "utxo_tx mapDB [0, 0, 0, 5] (begin_tx utxoCache True)"
    by (simp add: utxo_tx_def begin_ok metaBucket_def Bucket_def copyID_def bucketIndexPrefix_def str_def)
  have o: "set [\<lparr>Hash = replicate 32 1, Index = 0\<rparr>] = {p. sampleView p \<noteq> None}" by (auto simp: sampleView_def split: if_splits)
  have "\<exists>t. PutUtxoView zeroKeyEnv mapDB (\<lambda>t k. 1) [\<lparr>Hash = replicate 32 1, Index = 0\<rparr>] sampleView (begin_tx utxoCache True) = Inr t"
    using utxo_store_refines [OF zeroKeyEnv_recovers mapDB_ok c v u o, of "\<lparr>Hash = replicate 32 1, Index = 0\<rparr>" "\<lambda>t k. 1" id True 0 "\<lambda>t k. 1"]
    by auto
  with c v u mapDB_ok zeroKeyEnv_recovers show ?thesis by blast
qed

text \<open>C18. The spend journal of a block is read back exactly when it has one entry for each input of the
  transactions after the coinbase: then \<^verbatim>\<open>deserializeSpendJournalEntry\<close> returns the entries that
  \<^verbatim>\<open>serializeSpendJournalEntry\<close> wrote, in as many bytes as announced. With fewer entries it fails.\<close>

theorem spend_journal_roundtrip:
  assumes "keys_recover e" "list_all stxo_ok stxos"
  shows "(length stxos = sum_list (map (\<lambda>t. length (TxIns t)) txns) \<longrightarrow>
      deserializeSpendJournalEntry e (serializeSpendJournalEntry e stxos) txns = Inr stxos) \<and>
    (length stxos < sum_list (map (\<lambda>t. length (TxIns t)) txns) \<longrightarrow>
      deserializeSpendJournalEntry e (serializeSpendJournalEntry e stxos) txns =
        Inl (Err (if stxos = [] then AssertError else DeserializeError))) \<and>
    length (serializeSpendJournalEntry e stxos) = sum_list (map (spentTxOutSerializeSize e) stxos)"
proof -
  have "sum_list (map (\<lambda>s. length (putSpentTxOut e s)) stxos) = sum_list (map (spentTxOutSerializeSize e) stxos)"
    using assms(2) decode_putSpentTxOut(2) [OF assms(1)] by (induction stxos) auto
  then have len: "length (serializeSpendJournalEntry e stxos) = sum_list (map (spentTxOutSerializeSize e) stxos)"
    by (simp add: serializeSpendJournalEntry_def length_concat rev_map [symmetric] sum_list_rev comp_def)
  let ?n = "sum_list (map (\<lambda>t. length (TxIns t)) txns)"
  have "deserializeSpendJournalEntry e (serializeSpendJournalEntry e stxos) txns =
    (if stxos = [] then if ?n \<noteq> 0 then Inl (Err AssertError) else Inr [] else readStxos e ?n (serializeSpendJournalEntry e stxos))"
    unfolding deserializeSpendJournalEntry_def Let_def length_0_conv serialize_journal_empty by (rule refl)
  moreover have "length stxos = ?n \<Longrightarrow> readStxos e ?n (serializeSpendJournalEntry e stxos) = Inr stxos"
    using readStxos_roundtrip [OF assms, of "[]"] by simp
  ultimately show ?thesis using readStxos_short [OF assms, of ?n] len by (cases "stxos = []") auto
qed

definition sampleStxo :: SpentTxOut where
  "sampleStxo = \<lparr>st_Amount = 5000, st_PkScript = [OP_1], st_Height = 9, st_IsCoinBase = False\<rparr>"

theorem spend_journal_roundtrip_witness:
  "list_all stxo_ok [sampleStxo] \<and>
   deserializeSpendJournalEntry zeroKeyEnv (serializeSpendJournalEntry zeroKeyEnv [sampleStxo]) [AddTxIn (NewMsgTx 1) (NewTxIn \<lparr>Hash = [], Index = 0\<rparr> [] [])]
     = Inr [sampleStxo]"
proof -
  have s: "list_all stxo_ok [sampleStxo]" by (simp add: stxo_ok_def txout_ok_def sampleStxo_def)
  with spend_journal_roundtrip [OF zeroKeyEnv_recovers s, of "[AddTxIn (NewMsgTx 1) (NewTxIn \<lparr>Hash = [], Index = 0\<rparr> [] [])]"]
  show ?thesis by (simp add: AddTxIn_def NewMsgTx_def)
qed

end
