(* ===== verification/EADAddr.thy ===== *)
theory EADAddr
  imports StandardScripts
begin

text \<open>
  Registered exchange agents: the addresses of an owner and their encoding
  (\<^verbatim>\<open>types/wire/msg_ead_info.go\<close>), and the set of owners that a view of the chain keeps
  (\<^verbatim>\<open>eadAddrSet\<close> of \<^verbatim>\<open>node/chaindata/utxoviewpoint.go\<close>). An owner may be mapped to a nil pointer.
  The random identifier of a new owner is a parameter. A time is its number of seconds. The
  lemmas show that the encoding is read back, that an owner has at most one address for a host
  and shard, and that adding an address to an owner whose last address was removed panics.
\<close>

section \<open>IP addresses\<close>

text \<open>\<^verbatim>\<open>To16\<close> and \<^verbatim>\<open>Equal\<close> of the standard library.\<close>

definition v4InV6Prefix :: bytes where
  "v4InV6Prefix = replicate 10 0 @ [0xff, 0xff]"

definition To16 :: "bytes \<Rightarrow> bytes" where
  "To16 ip = (if length ip = 4 then v4InV6Prefix @ ip else if length ip = 16 then ip else [])"

definition IPEqual :: "bytes option \<Rightarrow> bytes option \<Rightarrow> bool" where
  "IPEqual a b =
     (let ip = (case a of Some i \<Rightarrow> i | None \<Rightarrow> []); x = (case b of Some i \<Rightarrow> i | None \<Rightarrow> [])
      in if length ip = length x then ip = x
         else if length ip = 4 \<and> length x = 16 then v4InV6Prefix @ ip = x
         else if length ip = 16 \<and> length x = 4 then ip = v4InV6Prefix @ x
         else False)"

section \<open>Addresses\<close>

record EADAddress =
  ea_IP :: "bytes option"
  ea_Port :: u16
  ea_URL :: bytes
  ea_ExpiresAt :: int
  ea_Shard :: u32
  ea_TxHash :: bytes
  ea_TxOutIndex :: int

record EADAddresses =
  ea_ID :: u64
  ea_OwnerPubKey :: bytes
  ea_Addresses :: "EADAddress list"

definition EADEq :: "EADAddress \<Rightarrow> bytes option \<Rightarrow> bytes \<Rightarrow> u32 \<Rightarrow> bool" where
  "EADEq msg ip url shardID \<longleftrightarrow>
     (ea_IP msg = None \<or> IPEqual (ea_IP msg) ip) \<and> (ea_URL msg = [] \<or> ea_URL msg = url) \<and> ea_Shard msg = shardID"

definition AddAddress ::
  "EADAddresses \<Rightarrow> bytes option \<Rightarrow> bytes \<Rightarrow> u16 \<Rightarrow> int \<Rightarrow> u32 \<Rightarrow> bytes \<Rightarrow> int \<Rightarrow> EADAddresses" where
  "AddAddress msg ip url port expiresAt shardID txhash ind =
     msg\<lparr>ea_Addresses := filter (\<lambda>p. \<not> EADEq p ip url shardID) (ea_Addresses msg) @
       [\<lparr>ea_IP = ip, ea_Port = port, ea_URL = url, ea_ExpiresAt = expiresAt, ea_Shard = shardID,
         ea_TxHash = txhash, ea_TxOutIndex = ind\<rparr>]\<rparr>"

definition HasShard :: "EADAddress \<Rightarrow> u32 list \<Rightarrow> bool" where
  "HasShard msg shards \<longleftrightarrow> list_ex (\<lambda>shard. shard = ea_Shard msg) shards"

definition EADAddressEncode :: "EADAddress \<Rightarrow> bytes" where
  "EADAddressEncode msg =
     PutUint32 (word_of_int (ea_ExpiresAt msg)) @ PutUint32 (ea_Shard msg) @ ea_TxHash msg @
     PutUint32 (ucast (ea_Port msg)) @ PutUint64 (word_of_int (ea_TxOutIndex msg)) @
     [if ea_IP msg = None then 1 else 0] @
     (case ea_IP msg of
        Some ip \<Rightarrow> take 16 (To16 ip @ replicate 16 0)
      | None \<Rightarrow> WriteVarBytes (ea_URL msg))"

definition EADAddressDecode :: "bytes \<Rightarrow> EADAddress read_result" where
  "EADAddressDecode r =
     bindE (Uint32 r) (\<lambda>(expiresAt, r).
     bindE (Uint32 r) (\<lambda>(shard, r).
     bindE (readFull 32 r) (\<lambda>(txhash, r).
     bindE (Uint32 r) (\<lambda>(port, r).
     bindE (Uint64 r) (\<lambda>(txOutIndex, r).
     bindE (Uint8 r) (\<lambda>(isURL, r).
       let msg = \<lparr>ea_IP = None, ea_Port = ucast port, ea_URL = [], ea_ExpiresAt = uint expiresAt, ea_Shard = shard,
             ea_TxHash = txhash, ea_TxOutIndex = sint txOutIndex\<rparr>
       in if isURL = 0 then bindE (readFull 16 r) (\<lambda>(ip, r). Inr (msg\<lparr>ea_IP := Some ip\<rparr>, r))
          else bindE (ReadVarBytes MaxEADDomainLen r) (\<lambda>(domain, r). Inr (msg\<lparr>ea_URL := domain\<rparr>, r))))))))"

definition EADAddressesEncode :: "EADAddresses \<Rightarrow> bytes" where
  "EADAddressesEncode msg =
     WriteVarInt (ea_ID msg) @ WriteVarBytes (ea_OwnerPubKey msg) @
     WriteVarInt (of_nat (length (ea_Addresses msg))) @ concat (map EADAddressEncode (ea_Addresses msg))"

text \<open>Making a slice that does not fit into the address space panics; an address takes 96 bytes.\<close>

definition EADAddressSize :: nat where "EADAddressSize = 96"
definition maxAlloc :: nat where "maxAlloc = 2 ^ 48"

definition EADAddressesDecode :: "bytes \<Rightarrow> EADAddresses read_result" where
  "EADAddressesDecode r =
     bindE (ReadVarInt r) (\<lambda>(alias, r).
     bindE (ReadVarBytes 130 r) (\<lambda>(owner, r).
     bindE (ReadVarInt r) (\<lambda>(count, r).
     bindE (if unat count * EADAddressSize > maxAlloc then Inl Panic else Inr ()) (\<lambda>_.
     bindE (readN EADAddressDecode (unat count) r) (\<lambda>(addrs, r).
       Inr (\<lparr>ea_ID = alias, ea_OwnerPubKey = owner, ea_Addresses = addrs\<rparr>, r))))))"

section \<open>The set of owners\<close>

type_synonym eadAddrSet = "bytes \<Rightarrow> EADAddresses option option"

text \<open>A method call on the nil pointer of an owner dereferences it.\<close>

definition eadAdd :: "u32 \<Rightarrow> eadAddrSet \<Rightarrow> EADScriptData \<Rightarrow> bytes \<Rightarrow> int \<Rightarrow> eadAddrSet sresult" where
  "eadAdd rnd eSet d txhash outN =
     (let ownerKey = ead_RawKey d
      in bindE (case eSet ownerKey of
                  None \<Rightarrow> Inr \<lparr>ea_ID = ucast rnd, ea_OwnerPubKey = ownerKey, ea_Addresses = []\<rparr>
                | Some None \<Rightarrow> Inl Panic
                | Some (Some addr) \<Rightarrow> Inr addr) (\<lambda>addr.
           Inr (eSet(ownerKey \<mapsto> Some (AddAddress addr (ead_IP d) (ead_URL d) (word_of_int (ead_Port d)) (ead_ExpirationDate d)
             (ead_ShardID d) txhash outN)))))"

definition eadRemove :: "eadAddrSet \<Rightarrow> EADScriptData \<Rightarrow> eadAddrSet" where
  "eadRemove eSet d =
     (let ownerKey = ead_RawKey d
      in case eSet ownerKey of
           Some (Some address) \<Rightarrow>
             (if length (ea_Addresses address) < 1 then eSet(ownerKey \<mapsto> None)
              else
                let filtered = filter (\<lambda>p. \<not> EADEq p (ead_IP d) (ead_URL d) (ead_ShardID d)) (ea_Addresses address)
                in if filtered = [] then eSet(ownerKey \<mapsto> None)
                   else eSet(ownerKey \<mapsto> Some (address\<lparr>ea_Addresses := filtered\<rparr>)))
         | _ \<Rightarrow> eSet(ownerKey \<mapsto> None))"

section \<open>The encoding is read back\<close>

definition ead_address_ok :: "EADAddress \<Rightarrow> bool" where
  "ead_address_ok a \<longleftrightarrow> 0 \<le> ea_ExpiresAt a \<and> ea_ExpiresAt a < 2 ^ 32 \<and> length (ea_TxHash a) = 32 \<and>
     0 \<le> ea_TxOutIndex a \<and> ea_TxOutIndex a < 2 ^ 63 \<and>
     (case ea_IP a of Some ip \<Rightarrow> length ip = 16 \<and> ea_URL a = [] | None \<Rightarrow> length (ea_URL a) \<le> 256)"

lemma ReadVarBytes_WriteVarBytes:
  assumes "length b \<le> n" "n < 2 ^ 64"
  shows "ReadVarBytes n (WriteVarBytes b @ rest) = Inr (b, rest)"
proof -
  have "unat (of_nat (length b) :: u64) = length b" using assms by (intro unat_of_nat_64) simp
  then show ?thesis using assms(1) by (simp add: ReadVarBytes_def WriteVarBytes_def ReadVarInt_WriteVarInt)
qed

lemma EADAddress_roundtrip:
  assumes "ead_address_ok a"
  shows "EADAddressDecode (EADAddressEncode a @ rest) = Inr (a, rest)"
proof -
  have e: "uint (word_of_int (ea_ExpiresAt a) :: u32) = ea_ExpiresAt a"
    using assms by (simp only: uint_word_of_int) (simp add: ead_address_ok_def)
  have i: "sint (word_of_int (ea_TxOutIndex a) :: u64) = ea_TxOutIndex a"
    using assms by (intro sint_word_of_int_64) (simp_all add: ead_address_ok_def)
  have p: "(ucast (ucast (ea_Port a) :: u32) :: u16) = ea_Port a" by (rule bit_word_eqI) (simp add: bit_simps)
  show ?thesis using assms e i p
    by (cases "ea_IP a")
      (simp_all add: EADAddressDecode_def EADAddressEncode_def uint32.dec_enc uint64.dec_enc ead_address_ok_def To16_def
        ReadVarBytes_WriteVarBytes Let_def)
qed

lemma EADAddresses_roundtrip:
  assumes "list_all ead_address_ok (ea_Addresses m)" "length (ea_OwnerPubKey m) \<le> 130" "length (ea_Addresses m) < 2 ^ 40"
  shows "EADAddressesDecode (EADAddressesEncode m @ rest) = Inr (m, rest)"
proof -
  have "readN EADAddressDecode (length as) (concat (map EADAddressEncode as) @ rest) = Inr (as, rest)" if "list_all ead_address_ok as" for as
    using that by (induction as) (simp_all add: EADAddress_roundtrip)
  then show ?thesis using assms unat_of_nat_64 [of "length (ea_Addresses m)"]
    by (simp add: EADAddressSize_def maxAlloc_def EADAddressesDecode_def EADAddressesEncode_def ReadVarInt_WriteVarInt ReadVarBytes_WriteVarBytes)
qed

section \<open>Adding and removing\<close>

lemma AddAddress_unique:
  "filter (\<lambda>p. EADEq p ip url shard) (ea_Addresses (AddAddress m ip url port expires shard h i)) =
   [\<lparr>ea_IP = ip, ea_Port = port, ea_URL = url, ea_ExpiresAt = expires, ea_Shard = shard, ea_TxHash = h, ea_TxOutIndex = i\<rparr>]"
proof -
  have old: "filter (\<lambda>p. EADEq p ip url shard) (filter (\<lambda>p. \<not> EADEq p ip url shard) ps) = []" for ps
    by (simp add: filter_empty_conv)
  have "EADEq \<lparr>ea_IP = ip, ea_Port = port, ea_URL = url, ea_ExpiresAt = expires, ea_Shard = shard, ea_TxHash = h, ea_TxOutIndex = i\<rparr>
      ip url shard"
    by (simp add: EADEq_def IPEqual_def)
  then show ?thesis by (simp add: AddAddress_def old)
qed

lemma eadAdd_after_eadRemove:
  assumes "eSet (ead_RawKey d) = Some (Some owner)" "list_all (\<lambda>p. EADEq p (ead_IP d) (ead_URL d) (ead_ShardID d)) (ea_Addresses owner)"
    and "ead_RawKey d' = ead_RawKey d"
  shows "eadAdd rnd (eadRemove eSet d) d' h i = Inl Panic"
proof -
  have "filter (\<lambda>p. \<not> EADEq p (ead_IP d) (ead_URL d) (ead_ShardID d)) (ea_Addresses owner) = []"
    using assms(2) by (simp add: list_all_iff filter_empty_conv)
  then show ?thesis using assms(1,3) by (simp add: eadAdd_def eadRemove_def Let_def)
qed

end
