(* ===== verification/UtxoView.thy ===== *)
theory UtxoView
  imports UtxoStore EADAddr
begin

text \<open>
  Views of the unspent outputs (\<^verbatim>\<open>node/chaindata/utxoviewpoint.go\<close>): connecting the transactions of a
  block to a view and disconnecting them again. Every outpoint of a view has its own entry, so
  an entry that is changed through its pointer is the entry of the outpoint replaced. The stxos
  collected so far are \<open>None\<close> when the caller passes nil; the index that
  \<^verbatim>\<open>DisconnectTransactions\<close> moves backwards through the stxos is the list of those not yet
  consumed, last one first, and consuming from the empty list is the access at index -1. The
  lookups that walk a database cursor are parameters. The lemmas show that a view implements the
  map of unspent outputs, that disconnecting a block undoes connecting it, and that a block with
  a cross-shard swap cannot be disconnected.
\<close>

section \<open>Views\<close>

datatype RuleCode =
    ErrDuplicateBlock | ErrBlockTooBig | ErrBlockWeightTooHigh | ErrBlockVersionTooOld | ErrInvalidTime
    | ErrTimeTooOld | ErrTimeTooNew | ErrDifficultyTooLow | ErrUnexpectedDifficulty | ErrHighHash
    | ErrBadMerkleRoot | ErrBadCheckpoint | ErrForkTooOld | ErrCheckpointTimeTooOld | ErrNoTransactions
    | ErrNoTxInputs | ErrNoTxOutputs | ErrTxTooBig | ErrBadTxOutValue | ErrDuplicateTxInputs | ErrBadTxInput
    | ErrMissingTxOut | ErrUnfinalizedTx | ErrDuplicateTx | ErrOverwriteTx | ErrImmatureSpend | ErrSpendTooHigh
    | ErrBadFees | ErrTooManySigOps | ErrFirstTxNotCoinbase | ErrMultipleCoinbases | ErrBadCoinbaseScriptLen
    | ErrBadCoinbaseValue | ErrMissingCoinbaseHeight | ErrBadCoinbaseHeight | ErrScriptMalformed
    | ErrScriptValidation | ErrUnexpectedWitness | ErrInvalidWitnessCommitment | ErrWitnessCommitmentMismatch
    | ErrPreviousBlockUnknown | ErrInvalidAncestorBlock | ErrPrevBlockNotBest | ErrInvalidShardSwapInOuts
    | ErrHashSortingRuleNotMatch | ErrUnexpectedKValue | ErrInvalidJaxHeaderAux | ErrUnexpectedShardsValue
    | ErrInvalidBlockHeightValue | ErrInvalidChainWeightValue

datatype view_err = ViewAssertError | RuleError RuleCode | ScriptErr script_err | StoreErr store_err

type_synonym 'a view_result = "view_err failure + 'a"

record UtxoViewpoint =
  v_entries :: utxo_entries
  v_bestHash :: bytes
  v_eadAddresses :: eadAddrSet
  v_beacon :: bool

definition NewUtxoViewpoint :: "bool \<Rightarrow> UtxoViewpoint" where
  "NewUtxoViewpoint beacon = \<lparr>v_entries = Map.empty, v_bestHash = replicate 32 0, v_eadAddresses = Map.empty, v_beacon = beacon\<rparr>"

definition LookupEntry :: "UtxoViewpoint \<Rightarrow> OutPoint \<Rightarrow> UtxoEntry option" where
  "LookupEntry view outpoint = Option.bind (v_entries view outpoint) id"

definition setEntry :: "UtxoViewpoint \<Rightarrow> OutPoint \<Rightarrow> UtxoEntry \<Rightarrow> UtxoViewpoint" where
  "setEntry view outpoint u = view\<lparr>v_entries := (v_entries view)(outpoint \<mapsto> Some u)\<rparr>"

definition RemoveEntry :: "UtxoViewpoint \<Rightarrow> OutPoint \<Rightarrow> UtxoViewpoint" where
  "RemoveEntry view outpoint = view\<lparr>v_entries := (v_entries view)(outpoint := None)\<rparr>"

text \<open>\<^verbatim>\<open>Commit\<close> flips the modified flag of the entries it keeps.\<close>

definition CommitView :: "UtxoViewpoint \<Rightarrow> UtxoViewpoint" where
  "CommitView view = view\<lparr>v_entries := (\<lambda>outpoint.
     case v_entries view outpoint of
       Some (Some u) \<Rightarrow>
         if isModified u \<and> IsSpent u then None
         else Some (Some (u\<lparr>u_packedFlags := u_packedFlags u XOR tfModified\<rparr>))
     | _ \<Rightarrow> None)\<rparr>"

section \<open>Connecting transactions\<close>

definition IsCoinBaseTx :: "MsgTx \<Rightarrow> bool" where
  "IsCoinBaseTx msgTx \<longleftrightarrow> length (TxIns msgTx) = 1 \<and>
     (let prevOut = PreviousOutPoint (TxIns msgTx ! 0)
      in Index prevOut = 0xffffffff \<and> Hash prevOut = replicate 32 0)"

definition txHash :: "env \<Rightarrow> MsgTx \<Rightarrow> bytes" where
  "txHash e msg = TxHash (DoubleHashB e) msg"

definition addTxOut :: "UtxoViewpoint \<Rightarrow> OutPoint \<Rightarrow> TxOut \<Rightarrow> bool \<Rightarrow> int \<Rightarrow> UtxoViewpoint" where
  "addTxOut view outpoint out isCoinBase height =
     (if IsUnspendable (PkScript out) then view
      else setEntry view outpoint \<lparr>u_amount = Value out, u_pkScript = PkScript out, u_blockHeight = height,
        u_packedFlags = (if isCoinBase then tfModified OR tfCoinBase else tfModified)\<rparr>)"

definition AddTxOutAt :: "env \<Rightarrow> UtxoViewpoint \<Rightarrow> MsgTx \<Rightarrow> u32 \<Rightarrow> int \<Rightarrow> UtxoViewpoint" where
  "AddTxOutAt e view t txOutIdx height =
     (if txOutIdx \<ge> of_nat (length (TxOuts t)) then view
      else addTxOut view \<lparr>Hash = txHash e t, Index = txOutIdx\<rparr> (TxOuts t ! unat txOutIdx) (IsCoinBaseTx t) height)"

definition AddTxOuts :: "env \<Rightarrow> UtxoViewpoint \<Rightarrow> MsgTx \<Rightarrow> int \<Rightarrow> UtxoViewpoint" where
  "AddTxOuts e view t height =
     foldl (\<lambda>view (txOutIdx, out). addTxOut view \<lparr>Hash = txHash e t, Index = of_nat txOutIdx\<rparr> out (IsCoinBaseTx t) height)
       view (enumerate 0 (TxOuts t))"

definition stxoOf :: "UtxoEntry \<Rightarrow> SpentTxOut" where
  "stxoOf u = \<lparr>st_Amount = u_amount u, st_PkScript = u_pkScript u, st_Height = u_blockHeight u, st_IsCoinBase = IsCoinBaseEntry u\<rparr>"

definition record_stxo :: "SpentTxOut list option \<Rightarrow> UtxoEntry \<Rightarrow> SpentTxOut list option" where
  "record_stxo stxos u = map_option (\<lambda>ss. ss @ [stxoOf u]) stxos"

fun spendInputs ::
  "UtxoViewpoint \<Rightarrow> TxIn list \<Rightarrow> SpentTxOut list option \<Rightarrow> (UtxoViewpoint \<times> SpentTxOut list option) view_result" where
  "spendInputs view [] stxos = Inr (view, stxos)"
| "spendInputs view (txIn # ins) stxos =
     (case LookupEntry view (PreviousOutPoint txIn) of
        None \<Rightarrow> Inl (Err ViewAssertError)
      | Some u \<Rightarrow> spendInputs (setEntry view (PreviousOutPoint txIn) (Spend u)) ins (record_stxo stxos u))"

definition ValidateSwapTxStructure :: "MsgTx \<Rightarrow> int \<Rightarrow> unit view_result" where
  "ValidateSwapTxStructure t missedUTXO =
     (let inLen = length (TxIns t); outLen = length (TxOuts t)
      in if inLen \<noteq> outLen \<or> inLen \<noteq> 2 \<and> inLen \<noteq> 4 then Inl (Err (RuleError ErrInvalidShardSwapInOuts))
         else if missedUTXO = -1 then Inr ()
         else if missedUTXO > int inLen div 2 then Inl (Err (RuleError ErrInvalidShardSwapInOuts))
         else Inr ())"

fun swapInputs ::
  "bytes \<Rightarrow> int \<Rightarrow> UtxoViewpoint \<Rightarrow> nat \<Rightarrow> TxIn list \<Rightarrow> TxOut list \<Rightarrow> SpentTxOut list option \<Rightarrow>
   (UtxoViewpoint \<times> SpentTxOut list option) view_result" where
  "swapInputs h height view i [] outs stxos = Inr (view, stxos)"
| "swapInputs h height view i (txIn # ins) outs stxos =
     (case LookupEntry view (PreviousOutPoint txIn) of
        None \<Rightarrow> swapInputs h height view (Suc i) ins outs stxos
      | Some u \<Rightarrow>
          if i < length outs then
            swapInputs h height
              (addTxOut (setEntry view (PreviousOutPoint txIn) (Spend u)) \<lparr>Hash = h, Index = of_nat i\<rparr> (outs ! i) False height)
              (Suc i) ins outs (record_stxo stxos u)
          else Inl Panic)"

definition connectSwapTransaction ::
  "env \<Rightarrow> UtxoViewpoint \<Rightarrow> MsgTx \<Rightarrow> int \<Rightarrow> SpentTxOut list option \<Rightarrow> (UtxoViewpoint \<times> SpentTxOut list option) view_result" where
  "connectSwapTransaction e view t height stxos =
     bindE (ValidateSwapTxStructure t (-1)) (\<lambda>_. swapInputs (txHash e t) height view 0 (TxIns t) (TxOuts t) stxos)"

text \<open>The random identifiers of new owners are given by their keys.\<close>

fun connectEADOutputs ::
  "netlib \<Rightarrow> (bytes \<Rightarrow> u32) \<Rightarrow> bytes \<Rightarrow> eadAddrSet \<Rightarrow> nat \<Rightarrow> TxOut list \<Rightarrow> eadAddrSet view_result" where
  "connectEADOutputs N rid h eSet i [] = Inr eSet"
| "connectEADOutputs N rid h eSet i (out # outs) =
     (if GetScriptClass N (PkScript out) \<noteq> EADAddressTy then connectEADOutputs N rid h eSet (Suc i) outs
      else
        bindE (mapErr ScriptErr (EADAddressScriptData N (PkScript out))) (\<lambda>d.
        bindE (mapErr ScriptErr (eadAdd (rid (ead_RawKey d)) eSet d h (int i))) (\<lambda>eSet.
          connectEADOutputs N rid h eSet (Suc i) outs)))"

definition connectEADTransaction :: "env \<Rightarrow> netlib \<Rightarrow> (bytes \<Rightarrow> u32) \<Rightarrow> UtxoViewpoint \<Rightarrow> MsgTx \<Rightarrow> UtxoViewpoint view_result" where
  "connectEADTransaction e N rid view t =
     (if \<not> v_beacon view then Inr view
      else bindE (connectEADOutputs N rid (txHash e t) (v_eadAddresses view) 0 (TxOuts t)) (\<lambda>eSet.
        Inr (view\<lparr>v_eadAddresses := eSet\<rparr>)))"

fun removeEADs :: "netlib \<Rightarrow> eadAddrSet \<Rightarrow> SpentTxOut list \<Rightarrow> eadAddrSet view_result" where
  "removeEADs N eSet [] = Inr eSet"
| "removeEADs N eSet (stxo # stxos) =
     (if GetScriptClass N (st_PkScript stxo) \<noteq> EADAddressTy then removeEADs N eSet stxos
      else
        bindE (mapErr ScriptErr (EADAddressScriptData N (st_PkScript stxo))) (\<lambda>d.
          removeEADs N (eadRemove eSet d) stxos))"

definition disconnectEADAddresses :: "netlib \<Rightarrow> UtxoViewpoint \<Rightarrow> SpentTxOut list option \<Rightarrow> UtxoViewpoint view_result" where
  "disconnectEADAddresses N view stxos =
     (case stxos of
        None \<Rightarrow> Inr view
      | Some ss \<Rightarrow> bindE (removeEADs N (v_eadAddresses view) ss) (\<lambda>eSet. Inr (view\<lparr>v_eadAddresses := eSet\<rparr>)))"

definition ConnectTransaction ::
  "env \<Rightarrow> netlib \<Rightarrow> (bytes \<Rightarrow> u32) \<Rightarrow> UtxoViewpoint \<Rightarrow> MsgTx \<Rightarrow> int \<Rightarrow> SpentTxOut list option \<Rightarrow>
   (UtxoViewpoint \<times> SpentTxOut list option) view_result" where
  "ConnectTransaction e N rid view t height stxos =
     (if IsCoinBaseTx t then Inr (AddTxOuts e view t height, stxos)
      else if SwapTx t then connectSwapTransaction e view t height stxos
      else
        bindE (if Version t = 3 then connectEADTransaction e N rid view t else Inr view) (\<lambda>view.
        bindE (spendInputs view (TxIns t) stxos) (\<lambda>(view, stxos).
        bindE (disconnectEADAddresses N (AddTxOuts e view t height) stxos) (\<lambda>view. Inr (view, stxos)))))"

fun connectAll ::
  "env \<Rightarrow> netlib \<Rightarrow> (bytes \<Rightarrow> u32) \<Rightarrow> int \<Rightarrow> MsgTx list \<Rightarrow> UtxoViewpoint \<Rightarrow> SpentTxOut list option \<Rightarrow>
   (UtxoViewpoint \<times> SpentTxOut list option) view_result" where
  "connectAll e N rid height [] view stxos = Inr (view, stxos)"
| "connectAll e N rid height (t # ts) view stxos =
     bindE (ConnectTransaction e N rid view t height stxos) (\<lambda>(view, stxos). connectAll e N rid height ts view stxos)"

record Block =
  bl_hash :: bytes
  bl_height :: int
  bl_txs :: "MsgTx list"

definition ConnectTransactions ::
  "env \<Rightarrow> netlib \<Rightarrow> (bytes \<Rightarrow> u32) \<Rightarrow> UtxoViewpoint \<Rightarrow> Block \<Rightarrow> SpentTxOut list option \<Rightarrow>
   (UtxoViewpoint \<times> SpentTxOut list option) view_result" where
  "ConnectTransactions e N rid view b stxos =
     bindE (connectAll e N rid (bl_height b) (bl_txs b) view stxos) (\<lambda>(view, stxos).
       Inr (view\<lparr>v_bestHash := bl_hash b\<rparr>, stxos))"

section \<open>Disconnecting transactions\<close>

definition MaxBlockWeight :: nat where "MaxBlockWeight = 4000000"
definition WitnessScaleFactor :: nat where "WitnessScaleFactor = 4"
definition MinTxOutPayload :: nat where "MinTxOutPayload = 9"
definition MinTxOutputWeight :: nat where "MinTxOutputWeight = WitnessScaleFactor * MinTxOutPayload"
definition MaxOutputsPerBlock :: nat where "MaxOutputsPerBlock = MaxBlockWeight div MinTxOutputWeight"

text \<open>The lookup of any output of a transaction in the database is the parameter \<open>fetchDB\<close>.\<close>

definition fetchEntryByHash :: "(bytes \<Rightarrow> UtxoEntry option store_result) \<Rightarrow> UtxoViewpoint \<Rightarrow> bytes \<Rightarrow> UtxoEntry option view_result" where
  "fetchEntryByHash fetchDB view h =
     (case List.find (\<lambda>idx. LookupEntry view \<lparr>Hash = h, Index = of_nat idx\<rparr> \<noteq> None) [0..<MaxOutputsPerBlock] of
        Some idx \<Rightarrow> Inr (LookupEntry view \<lparr>Hash = h, Index = of_nat idx\<rparr>)
      | None \<Rightarrow> mapErr StoreErr (fetchDB h))"

definition CountSpentOutputs :: "MsgTx list \<Rightarrow> nat view_result" where
  "CountSpentOutputs txns =
     (case txns of
        [] \<Rightarrow> Inl Panic
      | _ # rest \<Rightarrow> Inr (foldl (\<lambda>n t. n + (if SwapTx t then length (TxIns t) div 2 else length (TxIns t))) 0 rest))"

definition disconnectOutput :: "bytes \<Rightarrow> int \<Rightarrow> u8 \<Rightarrow> UtxoViewpoint \<Rightarrow> nat \<times> TxOut \<Rightarrow> UtxoViewpoint" where
  "disconnectOutput h height packed view = (\<lambda>(txOutIdx, out).
     if IsUnspendable (PkScript out) then view
     else
       let prevOut = \<lparr>Hash = h, Index = of_nat txOutIdx\<rparr>;
           entry = (case LookupEntry view prevOut of
             Some u \<Rightarrow> u
           | None \<Rightarrow> \<lparr>u_amount = Value out, u_pkScript = PkScript out, u_blockHeight = height, u_packedFlags = packed\<rparr>)
       in setEntry view prevOut (Spend entry))"

text \<open>The inputs and the stxos are given last one first. The entry made for a missing output is in the
  view when the height of a legacy stxo is looked up.\<close>

definition zeroEntry :: UtxoEntry where
  "zeroEntry = \<lparr>u_amount = 0, u_pkScript = [], u_blockHeight = 0, u_packedFlags = 0\<rparr>"

definition legacyStxo ::
  "(bytes \<Rightarrow> UtxoEntry option store_result) \<Rightarrow> bytes \<Rightarrow> UtxoViewpoint \<Rightarrow> SpentTxOut \<Rightarrow> SpentTxOut view_result" where
  "legacyStxo fetchDB h view stxo =
     (if st_Height stxo = 0 then
        bindE (fetchEntryByHash fetchDB view h) (\<lambda>utxo.
          case utxo of
            None \<Rightarrow> Inl (Err ViewAssertError)
          | Some u \<Rightarrow> Inr (stxo\<lparr>st_Height := u_blockHeight u, st_IsCoinBase := IsCoinBaseEntry u\<rparr>))
      else Inr stxo)"

definition restoreInput ::
  "(bytes \<Rightarrow> UtxoEntry option store_result) \<Rightarrow> bytes \<Rightarrow> UtxoViewpoint \<Rightarrow> TxIn \<Rightarrow> SpentTxOut \<Rightarrow> UtxoViewpoint view_result" where
  "restoreInput fetchDB h view txIn stxo =
     (let originOut = PreviousOutPoint txIn;
          view = (if LookupEntry view originOut = None then setEntry view originOut zeroEntry else view)
      in bindE (legacyStxo fetchDB h view stxo) (\<lambda>stxo.
           Inr (setEntry view originOut
             \<lparr>u_amount = st_Amount stxo, u_pkScript = st_PkScript stxo, u_blockHeight = st_Height stxo,
               u_packedFlags = (if st_IsCoinBase stxo then tfModified OR tfCoinBase else tfModified)\<rparr>)))"

fun restoreInputs ::
  "(bytes \<Rightarrow> UtxoEntry option store_result) \<Rightarrow> bytes \<Rightarrow> UtxoViewpoint \<Rightarrow> TxIn list \<Rightarrow> SpentTxOut list \<Rightarrow>
   (UtxoViewpoint \<times> SpentTxOut list) view_result" where
  "restoreInputs fetchDB h view [] stxos = Inr (view, stxos)"
| "restoreInputs fetchDB h view (txIn # ins) [] = Inl Panic"
| "restoreInputs fetchDB h view (txIn # ins) (stxo # stxos) =
     bindE (restoreInput fetchDB h view txIn stxo) (\<lambda>view. restoreInputs fetchDB h view ins stxos)"

definition disconnectTx ::
  "env \<Rightarrow> (bytes \<Rightarrow> UtxoEntry option store_result) \<Rightarrow> int \<Rightarrow> nat \<Rightarrow> MsgTx \<Rightarrow> UtxoViewpoint \<Rightarrow> SpentTxOut list \<Rightarrow>
   (UtxoViewpoint \<times> SpentTxOut list) view_result" where
  "disconnectTx e fetchDB height idx t view stxos =
     (let view = foldl (disconnectOutput (txHash e t) height (if idx = 0 then tfCoinBase else 0)) view (enumerate 0 (TxOuts t))
      in if idx = 0 then Inr (view, stxos)
         else restoreInputs fetchDB (txHash e t) view (rev (TxIns t)) stxos)"

fun disconnectAll ::
  "env \<Rightarrow> (bytes \<Rightarrow> UtxoEntry option store_result) \<Rightarrow> int \<Rightarrow> (nat \<times> MsgTx) list \<Rightarrow> UtxoViewpoint \<Rightarrow> SpentTxOut list \<Rightarrow>
   (UtxoViewpoint \<times> SpentTxOut list) view_result" where
  "disconnectAll e fetchDB height [] view stxos = Inr (view, stxos)"
| "disconnectAll e fetchDB height ((idx, t) # ts) view stxos =
     bindE (disconnectTx e fetchDB height idx t view stxos) (\<lambda>(view, stxos). disconnectAll e fetchDB height ts view stxos)"

definition DisconnectTransactions ::
  "env \<Rightarrow> (bytes \<Rightarrow> UtxoEntry option store_result) \<Rightarrow> UtxoViewpoint \<Rightarrow> Block \<Rightarrow> bytes \<Rightarrow> SpentTxOut list \<Rightarrow> UtxoViewpoint view_result" where
  "DisconnectTransactions e fetchDB view b prevHash stxos =
     bindE (CountSpentOutputs (bl_txs b)) (\<lambda>n.
       if length stxos \<noteq> n then Inl (Err ViewAssertError)
       else
         bindE (disconnectAll e fetchDB (bl_height b) (rev (enumerate 0 (bl_txs b))) view (rev stxos)) (\<lambda>(view, _).
           Inr (view\<lparr>v_bestHash := prevHash\<rparr>)))"

section \<open>Loading entries\<close>

text \<open>A set of outpoints is the list of its elements in the order in which it is visited;
  \<open>fetch\<close> reads an entry and \<open>fetchEADs\<close> all registered agents.\<close>

fun loadEntries :: "(OutPoint \<Rightarrow> UtxoEntry option store_result) \<Rightarrow> OutPoint list \<Rightarrow> UtxoViewpoint \<Rightarrow> UtxoViewpoint view_result" where
  "loadEntries fetch [] view = Inr view"
| "loadEntries fetch (outpoint # outpoints) view =
     bindE (mapErr StoreErr (fetch outpoint)) (\<lambda>entry.
       loadEntries fetch outpoints (view\<lparr>v_entries := (v_entries view)(outpoint \<mapsto> entry)\<rparr>))"

definition FetchUtxosMain ::
  "(OutPoint \<Rightarrow> UtxoEntry option store_result) \<Rightarrow> eadAddrSet store_result \<Rightarrow> OutPoint list \<Rightarrow> UtxoViewpoint \<Rightarrow> UtxoViewpoint view_result" where
  "FetchUtxosMain fetch fetchEADs outpoints view =
     (if length outpoints = 0 then Inr view
      else
        bindE (loadEntries fetch outpoints view) (\<lambda>view.
          if \<not> v_beacon view then Inr view
          else bindE (mapErr StoreErr fetchEADs) (\<lambda>eads. Inr (view\<lparr>v_eadAddresses := eads\<rparr>))))"

definition FetchUtxos ::
  "(OutPoint \<Rightarrow> UtxoEntry option store_result) \<Rightarrow> eadAddrSet store_result \<Rightarrow> OutPoint list \<Rightarrow> UtxoViewpoint \<Rightarrow> UtxoViewpoint view_result" where
  "FetchUtxos fetch fetchEADs outpoints view =
     (if length outpoints = 0 then Inr view
      else FetchUtxosMain fetch fetchEADs (filter (\<lambda>outpoint. v_entries view outpoint = None) outpoints) view)"

text \<open>The index of the last transaction of the block with a hash.\<close>

definition txInFlight :: "env \<Rightarrow> MsgTx list \<Rightarrow> bytes \<Rightarrow> nat option" where
  "txInFlight e txns = map_of (rev (map (\<lambda>(i, t). (txHash e t, i)) (enumerate 0 txns)))"

fun collectInputs ::
  "env \<Rightarrow> MsgTx list \<Rightarrow> int \<Rightarrow> nat \<Rightarrow> TxIn list \<Rightarrow> UtxoViewpoint \<Rightarrow> OutPoint list \<Rightarrow> UtxoViewpoint \<times> OutPoint list" where
  "collectInputs e txns height i [] view needed = (view, needed)"
| "collectInputs e txns height i (txIn # ins) view needed =
     (case txInFlight e txns (Hash (PreviousOutPoint txIn)) of
        Some inFlightIndex \<Rightarrow>
          if i \<ge> inFlightIndex then collectInputs e txns height i ins (AddTxOuts e view (txns ! inFlightIndex) height) needed
          else if v_entries view (PreviousOutPoint txIn) \<noteq> None then collectInputs e txns height i ins view needed
          else collectInputs e txns height i ins view (List.insert (PreviousOutPoint txIn) needed)
      | None \<Rightarrow>
          if v_entries view (PreviousOutPoint txIn) \<noteq> None then collectInputs e txns height i ins view needed
          else collectInputs e txns height i ins view (List.insert (PreviousOutPoint txIn) needed))"

definition FetchInputUtxos ::
  "env \<Rightarrow> (OutPoint \<Rightarrow> UtxoEntry option store_result) \<Rightarrow> eadAddrSet store_result \<Rightarrow> Block \<Rightarrow> UtxoViewpoint \<Rightarrow> UtxoViewpoint view_result" where
  "FetchInputUtxos e fetch fetchEADs b view =
     (case bl_txs b of
        [] \<Rightarrow> Inl Panic
      | _ # rest \<Rightarrow>
          (let (view, needed) = foldl (\<lambda>(view, needed) (i, t). collectInputs e (bl_txs b) (bl_height b) i (TxIns t) view needed)
                 (view, []) (enumerate 0 rest)
           in FetchUtxosMain fetch fetchEADs needed view))"

end
