(* ===== verification/Reorg.thy ===== *)
theory Reorg
  imports UtxoView
begin

text \<open>
  What connecting and disconnecting a block do to the set of unspent outputs. The specification
  of a view is the map \<open>live\<close> from the outpoints that are unspent in it to what is recorded of them.
  Connecting a transaction refines \<open>applyTx\<close> on this map; disconnecting depends on it only, and
  the two are inverse to each other.
\<close>

section \<open>The map of unspent outputs\<close>

definition live :: "UtxoViewpoint \<Rightarrow> OutPoint \<rightharpoonup> SpentTxOut" where
  "live view p = (case LookupEntry view p of Some u \<Rightarrow> if IsSpent u then None else Some (stxoOf u) | None \<Rightarrow> None)"

definition createdOutputs :: "env \<Rightarrow> MsgTx \<Rightarrow> OutPoint set" where
  "createdOutputs e t = {\<lparr>Hash = txHash e t, Index = of_nat i\<rparr> | i. i < length (TxOuts t) \<and> \<not> IsUnspendable (PkScript (TxOuts t ! i))}"

definition outputOf :: "bool \<Rightarrow> int \<Rightarrow> TxOut \<Rightarrow> SpentTxOut" where
  "outputOf coinbase height out = \<lparr>st_Amount = Value out, st_PkScript = PkScript out, st_Height = height, st_IsCoinBase = coinbase\<rparr>"

definition applyOutputs :: "bytes \<Rightarrow> bool \<Rightarrow> int \<Rightarrow> (nat \<times> TxOut) list \<Rightarrow> (OutPoint \<rightharpoonup> SpentTxOut) \<Rightarrow> (OutPoint \<rightharpoonup> SpentTxOut)" where
  "applyOutputs h coinbase height outs m =
     foldl (\<lambda>m (i, out). if IsUnspendable (PkScript out) then m else m(\<lparr>Hash = h, Index = of_nat i\<rparr> \<mapsto> outputOf coinbase height out)) m outs"

definition inputsOf :: "MsgTx \<Rightarrow> OutPoint list" where
  "inputsOf t = map PreviousOutPoint (TxIns t)"

definition applyTx :: "env \<Rightarrow> int \<Rightarrow> MsgTx \<Rightarrow> (OutPoint \<rightharpoonup> SpentTxOut) \<Rightarrow> (OutPoint \<rightharpoonup> SpentTxOut)" where
  "applyTx e height t m =
     applyOutputs (txHash e t) (IsCoinBaseTx t) height (enumerate 0 (TxOuts t))
       (if IsCoinBaseTx t then m else m |` (- set (inputsOf t)))"

lemma live_setEntry: "live (setEntry view p u) = (live view)(p := if IsSpent u then None else Some (stxoOf u))"
  by (rule ext) (simp add: live_def LookupEntry_def setEntry_def)

lemma live_other_fields [simp]:
  "live (view\<lparr>v_bestHash := h\<rparr>) = live view" "live (view\<lparr>v_eadAddresses := s\<rparr>) = live view"
  by (simp_all add: live_def LookupEntry_def fun_eq_iff)

lemma or_and_spent: "(x OR (2 OR 4)) AND 2 = (2 :: u8)"
  by (rule bit_word_eqI) (auto simp: bit_simps)

lemma IsSpent_Spend [simp]: "IsSpent (Spend u)"
proof (cases "IsSpent u")
  case False
  then have "u_packedFlags (Spend u) = u_packedFlags u OR (2 OR 4)" by (simp add: Spend_def)
  then show ?thesis by (simp only: IsSpent_def or_and_spent)
qed (simp add: Spend_def)

lemma live_spend: "live (setEntry view p (Spend u)) = (live view)(p := None)"
  by (simp add: live_setEntry)

lemma live_addTxOut:
  "live (addTxOut view p out coinbase height) =
    (if IsUnspendable (PkScript out) then live view else (live view)(p \<mapsto> outputOf coinbase height out))"
  by (simp add: addTxOut_def live_setEntry IsSpent_def stxoOf_def IsCoinBaseEntry_def outputOf_def)

lemma live_AddTxOuts:
  "live (AddTxOuts e view t height) = applyOutputs (txHash e t) (IsCoinBaseTx t) height (enumerate 0 (TxOuts t)) (live view)"
proof -
  have "live (foldl (\<lambda>view (i, out). addTxOut view \<lparr>Hash = h, Index = of_nat i\<rparr> out cb height) view outs) =
      applyOutputs h cb height outs (live view)" for outs h cb
    by (induction outs arbitrary: view) (auto simp: applyOutputs_def live_addTxOut)
  then show ?thesis by (simp add: AddTxOuts_def)
qed

lemma spendInputs_live:
  assumes "distinct (map PreviousOutPoint ins)" "set (map PreviousOutPoint ins) \<subseteq> dom (live view)"
  shows "\<exists>view'. spendInputs view ins (Some ss) = Inr (view', Some (ss @ map (\<lambda>i. the (live view (PreviousOutPoint i))) ins)) \<and>
    live view' = live view |` (- set (map PreviousOutPoint ins)) \<and>
    v_eadAddresses view' = v_eadAddresses view \<and> v_beacon view' = v_beacon view"
  using assms
proof (induction ins arbitrary: view ss)
  case (Cons i ins)
  let ?p = "PreviousOutPoint i"
  obtain u where u: "LookupEntry view ?p = Some u" "\<not> IsSpent u" "live view ?p = Some (stxoOf u)"
    using Cons.prems(2) by (auto simp: live_def split: option.splits if_splits)
  let ?v = "setEntry view ?p (Spend u)"
  have v: "live ?v = (live view)(?p := None)" by (rule live_spend)
  have "?p \<notin> set (map PreviousOutPoint ins)" "set (map PreviousOutPoint ins) \<subseteq> dom (live view)" using Cons.prems by simp_all
  then have "set (map PreviousOutPoint ins) \<subseteq> dom (live ?v)" unfolding v by (simp add: subset_iff) blast
  then obtain view' where w: "spendInputs ?v ins (Some (ss @ [stxoOf u])) =
      Inr (view', Some ((ss @ [stxoOf u]) @ map (\<lambda>i. the (live ?v (PreviousOutPoint i))) ins))"
    "live view' = live ?v |` (- set (map PreviousOutPoint ins))"
    "v_eadAddresses view' = v_eadAddresses ?v" "v_beacon view' = v_beacon ?v"
    using Cons.IH [of ?v "ss @ [stxoOf u]"] Cons.prems(1) by auto
  have "map (\<lambda>i. the (live ?v (PreviousOutPoint i))) ins = map (\<lambda>i. the (live view (PreviousOutPoint i))) ins"
  proof (rule map_cong [OF refl])
    fix x assume "x \<in> set ins"
    then have "PreviousOutPoint x \<noteq> ?p" using Cons.prems(1) by (metis distinct.simps(2) image_eqI list.set_map list.simps(9))
    then show "the (live ?v (PreviousOutPoint x)) = the (live view (PreviousOutPoint x))" by (simp add: v)
  qed
  moreover have "live ?v |` (- set (map PreviousOutPoint ins)) = live view |` (- set (map PreviousOutPoint (i # ins)))"
    by (auto simp: v restrict_map_def fun_eq_iff)
  ultimately show ?case using u w by (simp add: record_stxo_def setEntry_def)
qed (simp add: restrict_map_def)

section \<open>Disconnecting\<close>

lemma live_disconnectOutputs:
  "live (foldl (disconnectOutput h height packed) view outs) =
   live view |` (- {\<lparr>Hash = h, Index = of_nat i\<rparr> | i out. (i, out) \<in> set outs \<and> \<not> IsUnspendable (PkScript out)})"
proof (induction outs arbitrary: view)
  case (Cons a outs)
  obtain i out where a: "a = (i, out)" by fastforce
  have "live (disconnectOutput h height packed view a) =
      (if IsUnspendable (PkScript out) then live view else (live view)(\<lparr>Hash = h, Index = of_nat i\<rparr> := None))"
    by (simp add: a disconnectOutput_def Let_def live_spend)
  then show ?case by (auto simp: Cons.IH restrict_map_def fun_eq_iff a)
qed (simp add: restrict_map_def)

lemma createdOutputs_enumerate:
  "{\<lparr>Hash = txHash e t, Index = of_nat i\<rparr> | i out. (i, out) \<in> set (enumerate 0 (TxOuts t)) \<and> \<not> IsUnspendable (PkScript out)} =
   createdOutputs e t"
  by (auto simp: createdOutputs_def in_set_enumerate_eq) 

lemma applyOutputs_outside:
  "p \<notin> {\<lparr>Hash = h, Index = of_nat i\<rparr> | i out. (i, out) \<in> set outs \<and> \<not> IsUnspendable (PkScript out)} \<Longrightarrow>
   applyOutputs h coinbase height outs m p = m p"
proof (induction outs arbitrary: m)
  case (Cons a outs)
  obtain i out where a: "a = (i, out)" by fastforce
  have "IsUnspendable (PkScript out) \<or> p \<noteq> \<lparr>Hash = h, Index = of_nat i\<rparr>" using Cons.prems a by auto
  moreover have "p \<notin> {\<lparr>Hash = h, Index = of_nat i\<rparr> | i out. (i, out) \<in> set outs \<and> \<not> IsUnspendable (PkScript out)}" using Cons.prems by auto
  note Cons.IH [OF this]
  ultimately show ?case by (auto simp: applyOutputs_def a)
qed (simp add: applyOutputs_def)

lemma restoreInput_live:
  assumes "st_Height s \<noteq> 0"
  shows "\<exists>view'. restoreInput fetchDB h view i s = Inr view' \<and> live view' = (live view)(PreviousOutPoint i \<mapsto> s)"
  using assms by (cases s) (auto simp: restoreInput_def legacyStxo_def Let_def live_setEntry IsSpent_def stxoOf_def IsCoinBaseEntry_def)

lemma restoreInputs_live:
  assumes "length ins = length ss" "\<forall>s \<in> set ss. st_Height s \<noteq> 0"
  shows "\<exists>view'. restoreInputs fetchDB h view ins (ss @ rest) = Inr (view', rest) \<and>
    live view' = live view ++ map_of (rev (zip (map PreviousOutPoint ins) ss))"
  using assms
proof (induction ins ss arbitrary: view rule: list_induct2)
  case (Cons i ins s ss)
  then obtain v where v: "restoreInput fetchDB h view i s = Inr v" "live v = (live view)(PreviousOutPoint i \<mapsto> s)"
    using restoreInput_live [of s fetchDB h view i] by auto
  then show ?case using Cons by (fastforce simp: map_add_def fun_eq_iff split: option.splits)
qed simp

section \<open>Transactions and blocks\<close>

text \<open>A transaction is applicable when it spends distinct unspent outputs and creates none that is unspent.\<close>

definition applicable :: "env \<Rightarrow> (OutPoint \<rightharpoonup> SpentTxOut) \<Rightarrow> MsgTx \<Rightarrow> bool" where
  "applicable e m t \<longleftrightarrow> \<not> IsCoinBaseTx t \<and> \<not> SwapTx t \<and> distinct (inputsOf t) \<and> set (inputsOf t) \<subseteq> dom m \<and>
     createdOutputs e t \<inter> dom m = {}"

fun applicableAll :: "env \<Rightarrow> int \<Rightarrow> (OutPoint \<rightharpoonup> SpentTxOut) \<Rightarrow> MsgTx list \<Rightarrow> bool" where
  "applicableAll e height m [] = True"
| "applicableAll e height m (t # ts) \<longleftrightarrow> applicable e m t \<and> applicableAll e height (applyTx e height t m) ts"

definition spentBy :: "(OutPoint \<rightharpoonup> SpentTxOut) \<Rightarrow> MsgTx \<Rightarrow> SpentTxOut list" where
  "spentBy m t = map (\<lambda>p. the (m p)) (inputsOf t)"

lemma bindE_cases:
  "bindE x f = Inr y \<longleftrightarrow> (\<exists>a. x = Inr a \<and> f a = Inr y)"
  by (cases x) simp_all

lemma connectEAD_live:
  "connectEADTransaction e N rid view t = Inr view' \<Longrightarrow> live view' = live view"
  by (auto simp: connectEADTransaction_def bindE_cases split: if_splits)

lemma disconnectEAD_live:
  "disconnectEADAddresses N view stxos = Inr view' \<Longrightarrow> live view' = live view"
  by (auto simp: disconnectEADAddresses_def bindE_cases split: option.splits)

lemma ConnectTransaction_refines:
  assumes "ConnectTransaction e N rid view t height (Some ss) = Inr (view', stxos)" "applicable e (live view) t"
  shows "live view' = applyTx e height t (live view)" "stxos = Some (ss @ spentBy (live view) t)"
proof -
  from assms obtain v v1 ss1 where c: "live v = live view" "spendInputs v (TxIns t) (Some ss) = Inr (v1, ss1)"
      "disconnectEADAddresses N (AddTxOuts e v1 t height) ss1 = Inr view'" "stxos = ss1"
    by (auto simp: ConnectTransaction_def applicable_def bindE_cases dest: connectEAD_live split: if_splits)
  have "live v1 = live view |` (- set (inputsOf t))" "ss1 = Some (ss @ spentBy (live view) t)"
    using spendInputs_live [of "TxIns t" v ss] c(1,2) assms(2) by (auto simp: applicable_def inputsOf_def spentBy_def comp_def)
  then show "live view' = applyTx e height t (live view)" "stxos = Some (ss @ spentBy (live view) t)"
    using disconnectEAD_live [OF c(3)] c(4) assms(2) by (simp_all add: live_AddTxOuts applyTx_def applicable_def)
qed

lemma applyOutputs_fresh:
  assumes "createdOutputs e t \<inter> dom m = {}"
  shows "applyOutputs (txHash e t) coinbase height (enumerate 0 (TxOuts t)) (m |` A) |` (- createdOutputs e t) = m |` A"
proof
  fix p
  have "m p = None" if "p \<in> createdOutputs e t" using assms that by blast
  then show "(applyOutputs (txHash e t) coinbase height (enumerate 0 (TxOuts t)) (m |` A) |` (- createdOutputs e t)) p = (m |` A) p"
    using applyOutputs_outside [of p "txHash e t" "enumerate 0 (TxOuts t)" coinbase height "m |` A"]
    unfolding createdOutputs_enumerate by (cases "p \<in> createdOutputs e t") (auto simp: restrict_map_def)
qed

lemma restore_spent:
  assumes "distinct ps" "set ps \<subseteq> dom m"
  shows "m |` (- set ps) ++ map_of (rev (zip (rev ps) (rev (map (\<lambda>p. the (m p)) ps)))) = m"
proof
  fix p
  have z: "rev (zip (rev ps) (rev (map (\<lambda>p. the (m p)) ps))) = map (\<lambda>p. (p, the (m p))) ps"
    by (simp add: zip_rev zip_map2 zip_same_conv_map)
  show "(m |` (- set ps) ++ map_of (rev (zip (rev ps) (rev (map (\<lambda>p. the (m p)) ps))))) p = m p"
    unfolding z using assms(2) by (auto simp: map_add_def map_of_map_restrict restrict_map_def split: option.splits)
qed

lemma disconnectTx_undoes:
  assumes "applicable e m t" "live view = applyTx e height t m" "\<forall>s \<in> set (spentBy m t). st_Height s \<noteq> 0" "i \<noteq> 0"
  shows "\<exists>view'. disconnectTx e fetchDB height i t view (rev (spentBy m t) @ rest) = Inr (view', rest) \<and> live view' = m"
proof -
  let ?v = "foldl (disconnectOutput (txHash e t) height 0) view (enumerate 0 (TxOuts t))"
  have "live ?v = m |` (- set (inputsOf t))"
    using assms(1) unfolding live_disconnectOutputs createdOutputs_enumerate assms(2) applyTx_def
    by (simp add: applicable_def applyOutputs_fresh)
  moreover obtain view' where w: "restoreInputs fetchDB (txHash e t) ?v (rev (TxIns t)) (rev (spentBy m t) @ rest) = Inr (view', rest)"
    "live view' = live ?v ++ map_of (rev (zip (map PreviousOutPoint (rev (TxIns t))) (rev (spentBy m t))))"
    using restoreInputs_live [of "rev (TxIns t)" "rev (spentBy m t)" fetchDB "txHash e t" ?v rest] assms(3)
    by (auto simp: spentBy_def inputsOf_def)
  ultimately have "live view' = m"
    using restore_spent [of "inputsOf t" m] assms(1) by (simp add: applicable_def inputsOf_def spentBy_def rev_map)
  then show ?thesis using w(1) assms(4) by (simp add: disconnectTx_def)
qed

fun applyAll :: "env \<Rightarrow> int \<Rightarrow> MsgTx list \<Rightarrow> (OutPoint \<rightharpoonup> SpentTxOut) \<Rightarrow> (OutPoint \<rightharpoonup> SpentTxOut)" where
  "applyAll e height [] m = m"
| "applyAll e height (t # ts) m = applyAll e height ts (applyTx e height t m)"

fun spentAll :: "env \<Rightarrow> int \<Rightarrow> (OutPoint \<rightharpoonup> SpentTxOut) \<Rightarrow> MsgTx list \<Rightarrow> SpentTxOut list" where
  "spentAll e height m [] = []"
| "spentAll e height m (t # ts) = spentBy m t @ spentAll e height (applyTx e height t m) ts"

lemma connectAll_refines:
  assumes "connectAll e N rid height ts view (Some ss) = Inr (view', stxos)" "applicableAll e height (live view) ts"
  shows "live view' = applyAll e height ts (live view) \<and> stxos = Some (ss @ spentAll e height (live view) ts)"
  using assms
proof (induction ts arbitrary: view ss)
  case (Cons t ts)
  then obtain v s where c: "ConnectTransaction e N rid view t height (Some ss) = Inr (v, s)" "connectAll e N rid height ts v s = Inr (view', stxos)"
    by (auto simp: bindE_cases)
  then show ?case using Cons.IH [of v "ss @ spentBy (live view) t"] Cons.prems(2) ConnectTransaction_refines [OF c(1)] by simp
qed simp

lemma disconnectAll_append:
  "disconnectAll e fetchDB height (xs @ ys) view stxos =
   bindE (disconnectAll e fetchDB height xs view stxos) (\<lambda>(view, stxos). disconnectAll e fetchDB height ys view stxos)"
  by (induction e fetchDB height xs view stxos rule: disconnectAll.induct) (simp_all add: bindE_def split: sum.splits prod.splits)

lemma disconnectAll_undoes:
  assumes "applicableAll e height m ts" "live view = applyAll e height ts m" "\<forall>s \<in> set (spentAll e height m ts). st_Height s \<noteq> 0" "n \<noteq> 0"
  shows "\<exists>view'. disconnectAll e fetchDB height (rev (enumerate n ts)) view (rev (spentAll e height m ts) @ rest) = Inr (view', rest) \<and>
    live view' = m"
  using assms
proof (induction ts arbitrary: m n rest)
  case (Cons t ts)
  let ?m = "applyTx e height t m"
  obtain v where v: "disconnectAll e fetchDB height (rev (enumerate (Suc n) ts)) view
      (rev (spentAll e height ?m ts) @ rev (spentBy m t) @ rest) = Inr (v, rev (spentBy m t) @ rest)" "live v = ?m"
    using Cons.IH [of ?m "Suc n" "rev (spentBy m t) @ rest"] Cons.prems by auto
  obtain w where "disconnectTx e fetchDB height n t v (rev (spentBy m t) @ rest) = Inr (w, rest)" "live w = m"
    using disconnectTx_undoes [of e m t v height n fetchDB rest] v(2) Cons.prems by auto
  with v(1) show ?case by (simp add: disconnectAll_append)
qed simp

lemma CountSpentOutputs_plain:
  assumes "applicableAll e height m ts"
  shows "CountSpentOutputs (cb # ts) = Inr (length (spentAll e height m ts))"
    "length (spentAll e height m ts) = sum_list (map (\<lambda>t. length (TxIns t)) ts)"
proof -
  have s: "length (spentAll e height m ts) = sum_list (map (\<lambda>t. length (TxIns t)) ts)" for m
    by (induction ts arbitrary: m) (simp_all add: spentBy_def inputsOf_def)
  have "foldl (\<lambda>n t. n + (if SwapTx t then length (TxIns t) div 2 else length (TxIns t))) k ts = k + sum_list (map (\<lambda>t. length (TxIns t)) ts)" for k
    using assms
  proof (induction ts arbitrary: k m)
    case (Cons t ts)
    then show ?case using Cons.IH [of "applyTx e height t m" "k + length (TxIns t)"] by (simp add: applicable_def)
  qed simp
  with s show "CountSpentOutputs (cb # ts) = Inr (length (spentAll e height m ts))" by (simp add: CountSpentOutputs_def)
  show "length (spentAll e height m ts) = sum_list (map (\<lambda>t. length (TxIns t)) ts)" by (rule s)
qed

definition blockApplicable :: "env \<Rightarrow> (OutPoint \<rightharpoonup> SpentTxOut) \<Rightarrow> Block \<Rightarrow> bool" where
  "blockApplicable e m b =
     (case bl_txs b of
        [] \<Rightarrow> False
      | cb # ts \<Rightarrow> IsCoinBaseTx cb \<and> createdOutputs e cb \<inter> dom m = {} \<and> applicableAll e (bl_height b) (applyTx e (bl_height b) cb m) ts)"

definition applyBlock :: "env \<Rightarrow> Block \<Rightarrow> (OutPoint \<rightharpoonup> SpentTxOut) \<Rightarrow> (OutPoint \<rightharpoonup> SpentTxOut)" where
  "applyBlock e b m = applyAll e (bl_height b) (bl_txs b) m"

lemma ConnectTransactions_refines:
  assumes "ConnectTransactions e N rid view b (Some []) = Inr (view', stxos)" "bl_txs b = cb # ts" "blockApplicable e (live view) b"
  shows "live view' = applyBlock e b (live view)" "v_bestHash view' = bl_hash b"
    "stxos = Some (spentAll e (bl_height b) (applyTx e (bl_height b) cb (live view)) ts)"
proof -
  have cb: "IsCoinBaseTx cb" "applicableAll e (bl_height b) (applyTx e (bl_height b) cb (live view)) ts"
    using assms(2,3) by (simp_all add: blockApplicable_def)
  let ?v = "AddTxOuts e view cb (bl_height b)"
  have v: "live ?v = applyTx e (bl_height b) cb (live view)" using cb(1) by (simp add: live_AddTxOuts applyTx_def)
  obtain w where w: "connectAll e N rid (bl_height b) ts ?v (Some []) = Inr (w, stxos)" "view' = w\<lparr>v_bestHash := bl_hash b\<rparr>"
    using assms(1,2) cb(1) by (auto simp: ConnectTransactions_def bindE_cases ConnectTransaction_def)
  have "live w = applyAll e (bl_height b) ts (live ?v) \<and> stxos = Some ([] @ spentAll e (bl_height b) (live ?v) ts)"
    using w(1) by (rule connectAll_refines) (simp add: v cb(2))
  with v w(2) assms(2) show "live view' = applyBlock e b (live view)" "v_bestHash view' = bl_hash b"
    "stxos = Some (spentAll e (bl_height b) (applyTx e (bl_height b) cb (live view)) ts)"
    by (simp_all add: applyBlock_def)
qed

lemma DisconnectTransactions_undoes:
  assumes "bl_txs b = cb # ts" "blockApplicable e m b" "live view = applyBlock e b m"
    and "stxos = spentAll e (bl_height b) (applyTx e (bl_height b) cb m) ts" "\<forall>s \<in> set stxos. st_Height s \<noteq> 0"
  shows "\<exists>view'. DisconnectTransactions e fetchDB view b prevHash stxos = Inr view' \<and> live view' = m \<and> v_bestHash view' = prevHash"
proof -
  let ?h = "bl_height b"
  have cb: "IsCoinBaseTx cb" "createdOutputs e cb \<inter> dom m = {}" "applicableAll e ?h (applyTx e ?h cb m) ts"
    using assms(1,2) by (simp_all add: blockApplicable_def)
  obtain v where v: "disconnectAll e fetchDB ?h (rev (enumerate (Suc 0) ts)) view (rev stxos) = Inr (v, [])" "live v = applyTx e ?h cb m"
    using disconnectAll_undoes [OF cb(3), of view "Suc 0" fetchDB "[]"] assms by (auto simp: applyBlock_def)
  let ?w = "foldl (disconnectOutput (txHash e cb) ?h 1) v (enumerate 0 (TxOuts cb))"
  have "live ?w = m"
    using applyOutputs_fresh [OF cb(2), of True ?h UNIV] unfolding live_disconnectOutputs createdOutputs_enumerate v(2) applyTx_def
    by (simp add: cb(1) restrict_map_def)
  moreover have "disconnectTx e fetchDB ?h 0 cb v [] = Inr (?w, [])" by (simp add: disconnectTx_def)
  ultimately show ?thesis
    using v(1) CountSpentOutputs_plain(1) [OF cb(3), of cb] assms(1,4) by (simp add: DisconnectTransactions_def disconnectAll_append)
qed

section \<open>Connecting succeeds\<close>

text \<open>A block without registrations of exchange agents: no transaction of it carries one on the beacon chain, and no
  output it spends is one.\<close>

definition noAgents :: "netlib \<Rightarrow> UtxoViewpoint \<Rightarrow> MsgTx list \<Rightarrow> SpentTxOut list \<Rightarrow> bool" where
  "noAgents N view txns stxos \<longleftrightarrow> (v_beacon view \<longrightarrow> list_all (\<lambda>t. Version t \<noteq> 3) txns) \<and>
     list_all (\<lambda>s. GetScriptClass N (st_PkScript s) \<noteq> EADAddressTy) stxos"

lemma removeEADs_none:
  "list_all (\<lambda>s. GetScriptClass N (st_PkScript s) \<noteq> EADAddressTy) stxos \<Longrightarrow> removeEADs N eSet stxos = Inr eSet"
  by (induction stxos) simp_all

lemma addTxOut_fields [simp]:
  "v_eadAddresses (addTxOut view p out coinbase height) = v_eadAddresses view" "v_beacon (addTxOut view p out coinbase height) = v_beacon view"
  by (simp_all add: addTxOut_def setEntry_def)

lemma AddTxOuts_fields [simp]:
  "v_eadAddresses (AddTxOuts e view t height) = v_eadAddresses view" "v_beacon (AddTxOuts e view t height) = v_beacon view"
proof -
  have "v_eadAddresses (foldl (\<lambda>view (i, out). addTxOut view (p i) out cb height) view outs) = v_eadAddresses view \<and>
      v_beacon (foldl (\<lambda>view (i, out). addTxOut view (p i) out cb height) view outs) = v_beacon view" for outs cb and p :: "nat \<Rightarrow> OutPoint"
    by (induction outs arbitrary: view) (simp_all add: case_prod_beta)
  then show "v_eadAddresses (AddTxOuts e view t height) = v_eadAddresses view" "v_beacon (AddTxOuts e view t height) = v_beacon view"
    by (simp_all add: AddTxOuts_def)
qed

lemma ConnectTransaction_succeeds:
  assumes "applicable e (live view) t" "noAgents N view [t] (ss @ spentBy (live view) t)"
  shows "\<exists>view'. ConnectTransaction e N rid view t height (Some ss) = Inr (view', Some (ss @ spentBy (live view) t)) \<and> v_beacon view' = v_beacon view"
proof -
  obtain v where v: "spendInputs view (TxIns t) (Some ss) = Inr (v, Some (ss @ spentBy (live view) t))" "v_beacon v = v_beacon view"
    using spendInputs_live [of "TxIns t" view ss] assms(1) by (auto simp: applicable_def inputsOf_def spentBy_def comp_def)
  have "(if Version t = 3 then connectEADTransaction e N rid view t else Inr view) = Inr view"
    using assms(2) by (auto simp: noAgents_def connectEADTransaction_def)
  then show ?thesis using v assms removeEADs_none [of N "ss @ spentBy (live view) t" "v_eadAddresses v"]
    by (simp add: ConnectTransaction_def applicable_def disconnectEADAddresses_def noAgents_def)
qed

lemma connectAll_succeeds:
  assumes "applicableAll e height (live view) ts" "noAgents N view ts (ss @ spentAll e height (live view) ts)"
  shows "\<exists>r. connectAll e N rid height ts view (Some ss) = Inr r"
  using assms
proof (induction ts arbitrary: view ss)
  case (Cons t ts)
  have "applicable e (live view) t" "noAgents N view [t] (ss @ spentBy (live view) t)" using Cons.prems by (auto simp: noAgents_def)
  then obtain v where v: "ConnectTransaction e N rid view t height (Some ss) = Inr (v, Some (ss @ spentBy (live view) t))" "v_beacon v = v_beacon view"
    using ConnectTransaction_succeeds by blast
  have l: "live v = applyTx e height t (live view)" using ConnectTransaction_refines(1) [OF v(1)] Cons.prems(1) by simp
  have "\<exists>r. connectAll e N rid height ts v (Some (ss @ spentBy (live view) t)) = Inr r"
    using Cons.IH [of v "ss @ spentBy (live view) t"] Cons.prems by (simp add: l v(2) noAgents_def)
  then show ?case using v(1) by simp
qed simp

lemma ConnectTransactions_succeeds:
  assumes "bl_txs b = cb # ts" "blockApplicable e (live view) b"
    and "noAgents N view ts (spentAll e (bl_height b) (applyTx e (bl_height b) cb (live view)) ts)"
  shows "\<exists>r. ConnectTransactions e N rid view b (Some []) = Inr r"
proof -
  let ?v = "AddTxOuts e view cb (bl_height b)"
  have cb: "IsCoinBaseTx cb" "applicableAll e (bl_height b) (applyTx e (bl_height b) cb (live view)) ts"
    using assms(1,2) by (simp_all add: blockApplicable_def)
  then have "live ?v = applyTx e (bl_height b) cb (live view)" by (simp add: live_AddTxOuts applyTx_def)
  then have "\<exists>r. connectAll e N rid (bl_height b) ts ?v (Some []) = Inr r"
    using connectAll_succeeds [of e "bl_height b" ?v ts N "[]"] cb(2) assms(3) by (simp add: noAgents_def)
  then show ?thesis using cb(1) assms(1) by (fastforce simp: ConnectTransactions_def ConnectTransaction_def)
qed

definition blockSpends :: "env \<Rightarrow> Block \<Rightarrow> (OutPoint \<rightharpoonup> SpentTxOut) \<Rightarrow> SpentTxOut list" where
  "blockSpends e b m = spentAll e (bl_height b) (applyTx e (bl_height b) (hd (bl_txs b)) m) (tl (bl_txs b))"

lemma ConnectTransactions_live:
  assumes "blockApplicable e (live view) b" "noAgents N view (tl (bl_txs b)) (blockSpends e b (live view))"
  shows "\<exists>view'. ConnectTransactions e N rid view b (Some []) = Inr (view', Some (blockSpends e b (live view))) \<and>
    live view' = applyBlock e b (live view) \<and> v_bestHash view' = bl_hash b"
proof -
  obtain cb ts where b: "bl_txs b = cb # ts" using assms(1) by (cases "bl_txs b") (simp_all add: blockApplicable_def)
  then obtain r where "ConnectTransactions e N rid view b (Some []) = Inr r"
    using ConnectTransactions_succeeds [OF b assms(1), of N rid] assms(2) unfolding blockSpends_def b list.sel by blast
  then show ?thesis using ConnectTransactions_refines [of e N rid view b "fst r" "snd r" cb ts] b assms(1)
    by (cases r) (simp add: blockSpends_def)
qed

section \<open>Swaps\<close>

lemma restoreInputs_consumes:
  "restoreInputs fetchDB h view ins stxos = Inr (view', rest) \<Longrightarrow> length stxos = length ins + length rest"
  by (induction fetchDB h view ins stxos rule: restoreInputs.induct) (auto simp: bindE_cases)

lemma disconnectAll_consumes:
  "disconnectAll e fetchDB height its view stxos = Inr (view', rest) \<Longrightarrow>
   length stxos = sum_list (map (\<lambda>(i, t). if i = 0 then 0 else length (TxIns t)) its) + length rest"
proof (induction e fetchDB height its view stxos rule: disconnectAll.induct)
  case (2 e fetchDB height i t ts view stxos)
  then obtain v s where "disconnectTx e fetchDB height i t view stxos = Inr (v, s)" "disconnectAll e fetchDB height ts v s = Inr (view', rest)"
    by (auto simp: bindE_cases)
  then show ?case using 2 by (auto simp: disconnectTx_def dest: restoreInputs_consumes split: if_splits)
qed simp

lemma CountSpentOutputs_swap:
  assumes "CountSpentOutputs (cb # ts) = Inr n" "t \<in> set ts" "SwapTx t" "TxIns t \<noteq> []"
  shows "n < sum_list (map (\<lambda>t. length (TxIns t)) ts)"
proof -
  let ?c = "\<lambda>t. if SwapTx t then length (TxIns t) div 2 else length (TxIns t)"
  have f: "foldl (\<lambda>n t. n + ?c t) k us = k + sum_list (map ?c us)" for k us by (induction us arbitrary: k) simp_all
  have le: "sum_list (map ?c us) \<le> sum_list (map (\<lambda>t. length (TxIns t)) us)" for us by (intro sum_list_mono) simp
  obtain us vs where "ts = us @ t # vs" using assms(2) by (auto dest: split_list)
  moreover have "?c t < length (TxIns t)" using assms(3,4) by (cases "TxIns t") auto
  ultimately have "sum_list (map ?c ts) < sum_list (map (\<lambda>t. length (TxIns t)) ts)" using le [of us] le [of vs] by simp
  then show ?thesis using assms(1) by (simp add: CountSpentOutputs_def f)
qed

section \<open>Well-formed views\<close>

definition hash_sized :: "env \<Rightarrow> bool" where
  "hash_sized e \<longleftrightarrow> (\<forall>b. length (sha256 e b) = 32)"

definition outs_ok :: "int \<Rightarrow> MsgTx \<Rightarrow> bool" where
  "outs_ok height t \<longleftrightarrow> list_all (\<lambda>out. txout_ok (Value out) (PkScript out) height) (TxOuts t)"

definition stxos_ok :: "SpentTxOut list option \<Rightarrow> bool" where
  "stxos_ok stxos \<longleftrightarrow> list_all stxo_ok (case stxos of Some ss \<Rightarrow> ss | None \<Rightarrow> [])"

definition fetch_ok :: "(bytes \<Rightarrow> UtxoEntry option store_result) \<Rightarrow> bool" where
  "fetch_ok fetchDB \<longleftrightarrow> (\<forall>h u. fetchDB h = Inr (Some u) \<longrightarrow> entry_ok u)"

abbreviation wf_view :: "UtxoViewpoint \<Rightarrow> bool" where
  "wf_view view \<equiv> view_ok (v_entries view)"

lemma txHash_length: "hash_sized e \<Longrightarrow> length (txHash e t) = 32"
  by (simp add: hash_sized_def txHash_def TxHash_def DoubleHashB_def)

lemma entry_ok_Spend [simp]: "entry_ok (Spend u) = entry_ok u"
  by (simp add: entry_ok_def Spend_def)

lemma stxo_ok_stxoOf [simp]: "stxo_ok (stxoOf u) = entry_ok u"
  by (simp add: stxo_ok_def stxoOf_def entry_ok_def)

lemma wf_setEntry: "wf_view view \<Longrightarrow> length (Hash p) = 32 \<Longrightarrow> entry_ok u \<Longrightarrow> wf_view (setEntry view p u)"
  by (simp add: view_ok_def setEntry_def)

lemma wf_LookupEntry:
  assumes "wf_view view" "LookupEntry view p = Some u"
  shows "length (Hash p) = 32" "entry_ok u"
  using assms by (auto simp: view_ok_def LookupEntry_def bind_eq_Some_conv)

lemma stxos_ok_record: "stxos_ok stxos \<Longrightarrow> entry_ok u \<Longrightarrow> stxos_ok (record_stxo stxos u)"
  by (cases stxos) (simp_all add: stxos_ok_def record_stxo_def)

lemma wf_addTxOut:
  "wf_view view \<Longrightarrow> length (Hash p) = 32 \<Longrightarrow> txout_ok (Value out) (PkScript out) height \<Longrightarrow> wf_view (addTxOut view p out coinbase height)"
  by (simp add: addTxOut_def wf_setEntry entry_ok_def)

lemma wf_foldl:
  "wf_view view \<Longrightarrow> (\<And>view a. wf_view view \<Longrightarrow> a \<in> set as \<Longrightarrow> wf_view (f view a)) \<Longrightarrow> wf_view (foldl f view as)"
  by (induction as arbitrary: view) auto

lemma outs_ok_enumerate: "outs_ok height t \<Longrightarrow> (i, out) \<in> set (enumerate 0 (TxOuts t)) \<Longrightarrow> txout_ok (Value out) (PkScript out) height"
  by (auto simp: outs_ok_def list_all_iff in_set_enumerate_eq)

lemma wf_AddTxOuts: "hash_sized e \<Longrightarrow> wf_view view \<Longrightarrow> outs_ok height t \<Longrightarrow> wf_view (AddTxOuts e view t height)"
  unfolding AddTxOuts_def by (rule wf_foldl) (auto intro: wf_addTxOut outs_ok_enumerate simp: txHash_length)

lemma wf_spendInputs:
  "spendInputs view ins stxos = Inr (view', stxos') \<Longrightarrow> wf_view view \<Longrightarrow> stxos_ok stxos \<Longrightarrow> wf_view view' \<and> stxos_ok stxos'"
  by (induction view ins stxos rule: spendInputs.induct)
    (auto simp: wf_setEntry wf_LookupEntry stxos_ok_record split: option.splits)

lemma wf_swapInputs:
  "swapInputs h height view i ins outs stxos = Inr (view', stxos') \<Longrightarrow> wf_view view \<Longrightarrow> stxos_ok stxos \<Longrightarrow> length h = 32 \<Longrightarrow>
   list_all (\<lambda>out. txout_ok (Value out) (PkScript out) height) outs \<Longrightarrow> wf_view view' \<and> stxos_ok stxos'"
  by (induction h height view i ins outs stxos rule: swapInputs.induct)
    (auto simp: wf_addTxOut wf_setEntry wf_LookupEntry stxos_ok_record list_all_length split: option.splits if_splits)

lemma connectEAD_entries: "connectEADTransaction e N rid view t = Inr view' \<Longrightarrow> v_entries view' = v_entries view"
  by (auto simp: connectEADTransaction_def bindE_cases split: if_splits)

lemma disconnectEAD_entries: "disconnectEADAddresses N view stxos = Inr view' \<Longrightarrow> v_entries view' = v_entries view"
  by (auto simp: disconnectEADAddresses_def bindE_cases split: option.splits)

lemma wf_ConnectTransaction:
  assumes "ConnectTransaction e N rid view t height stxos = Inr (view', stxos')" "hash_sized e" "wf_view view" "stxos_ok stxos" "outs_ok height t"
  shows "wf_view view' \<and> stxos_ok stxos'"
proof -
  consider "IsCoinBaseTx t" | "\<not> IsCoinBaseTx t" "SwapTx t" | "\<not> IsCoinBaseTx t" "\<not> SwapTx t" by blast
  then show ?thesis
  proof cases
    case 1
    then show ?thesis using assms wf_AddTxOuts by (auto simp: ConnectTransaction_def)
  next
    case 2
    then show ?thesis using assms wf_swapInputs txHash_length
      by (fastforce simp: ConnectTransaction_def connectSwapTransaction_def bindE_cases outs_ok_def)
  next
    case 3
    then obtain v v1 where "v_entries v = v_entries view" "spendInputs v (TxIns t) stxos = Inr (v1, stxos')"
      "v_entries view' = v_entries (AddTxOuts e v1 t height)"
      using assms(1) by (auto simp: ConnectTransaction_def bindE_cases dest!: disconnectEAD_entries connectEAD_entries split: if_splits)
    then show ?thesis using assms(2-5) wf_spendInputs wf_AddTxOuts by metis
  qed
qed

lemma wf_connectAll:
  "connectAll e N rid height ts view stxos = Inr (view', stxos') \<Longrightarrow> hash_sized e \<Longrightarrow> wf_view view \<Longrightarrow> stxos_ok stxos \<Longrightarrow>
   list_all (outs_ok height) ts \<Longrightarrow> wf_view view' \<and> stxos_ok stxos'"
  by (induction ts arbitrary: view stxos) (auto simp: bindE_cases dest: wf_ConnectTransaction)

lemma wf_disconnectOutput:
  assumes "wf_view view" "length h = 32" "txout_ok (Value out) (PkScript out) height"
  shows "wf_view (disconnectOutput h height packed view (i, out))"
proof (cases "LookupEntry view \<lparr>Hash = h, Index = of_nat i\<rparr>")
  case None
  have "entry_ok \<lparr>u_amount = Value out, u_pkScript = PkScript out, u_blockHeight = height, u_packedFlags = packed\<rparr>"
    using assms(3) by (simp add: entry_ok_def)
  then show ?thesis using None assms(1,2) by (simp add: disconnectOutput_def wf_setEntry)
next
  case (Some u)
  then show ?thesis using assms wf_LookupEntry(2) [OF assms(1) Some] by (simp add: disconnectOutput_def wf_setEntry)
qed

lemma fetchEntryByHash_ok:
  "fetchEntryByHash fetchDB view h = Inr (Some u) \<Longrightarrow> wf_view view \<Longrightarrow> fetch_ok fetchDB \<Longrightarrow> entry_ok u"
  by (cases "fetchDB h") (auto simp: fetchEntryByHash_def fetch_ok_def mapErr_def dest: wf_LookupEntry split: option.splits failure.splits)

lemma legacyStxo_ok:
  assumes "legacyStxo fetchDB h view stxo = Inr s" "wf_view view" "fetch_ok fetchDB" "stxo_ok stxo"
  shows "stxo_ok s"
proof (cases "st_Height stxo = 0")
  case True
  then obtain u where u: "fetchEntryByHash fetchDB view h = Inr (Some u)" "s = stxo\<lparr>st_Height := u_blockHeight u, st_IsCoinBase := IsCoinBaseEntry u\<rparr>"
    using assms(1) by (auto simp: legacyStxo_def bindE_cases split: option.splits)
  from fetchEntryByHash_ok [OF u(1) assms(2,3)] assms(4) show ?thesis by (simp add: u(2) stxo_ok_def entry_ok_def txout_ok_def)
qed (use assms in \<open>simp add: legacyStxo_def\<close>)

lemma wf_restoreInput:
  assumes "restoreInput fetchDB h view txIn stxo = Inr view'" "wf_view view" "fetch_ok fetchDB" "stxo_ok stxo"
    and "length (Hash (PreviousOutPoint txIn)) = 32"
  shows "wf_view view'"
proof -
  let ?v = "if LookupEntry view (PreviousOutPoint txIn) = None then setEntry view (PreviousOutPoint txIn) zeroEntry else view"
  have v: "wf_view ?v" using assms(2,5) by (simp add: wf_setEntry zeroEntry_def entry_ok_def txout_ok_def)
  obtain s u where "legacyStxo fetchDB h ?v stxo = Inr s" "view' = setEntry ?v (PreviousOutPoint txIn) u"
      "u_amount u = st_Amount s" "u_pkScript u = st_PkScript s" "u_blockHeight u = st_Height s"
    using assms(1) unfolding restoreInput_def Let_def bindE_cases by auto
  then show ?thesis using legacyStxo_ok [OF _ v assms(3,4)] v assms(5) wf_setEntry by (simp add: stxo_ok_def entry_ok_def)
qed

lemma wf_restoreInputs:
  "restoreInputs fetchDB h view ins stxos = Inr (view', stxos') \<Longrightarrow> wf_view view \<Longrightarrow> fetch_ok fetchDB \<Longrightarrow> list_all stxo_ok stxos \<Longrightarrow>
   list_all (\<lambda>i. length (Hash (PreviousOutPoint i)) = 32) ins \<Longrightarrow> wf_view view' \<and> list_all stxo_ok stxos'"
  by (induction fetchDB h view ins stxos rule: restoreInputs.induct) (auto simp: bindE_cases dest: wf_restoreInput)

definition ins_ok :: "MsgTx \<Rightarrow> bool" where
  "ins_ok t \<longleftrightarrow> list_all (\<lambda>i. length (Hash (PreviousOutPoint i)) = 32) (TxIns t)"

lemma wf_disconnectTx:
  assumes "disconnectTx e fetchDB height i t view stxos = Inr (view', stxos')" "hash_sized e" "fetch_ok fetchDB"
    and "wf_view view" "list_all stxo_ok stxos" "outs_ok height t" "ins_ok t"
  shows "wf_view view' \<and> list_all stxo_ok stxos'"
proof -
  have "wf_view (foldl (disconnectOutput (txHash e t) height packed) view (enumerate 0 (TxOuts t)))" for packed
    using assms(4) by (rule wf_foldl) (auto intro: wf_disconnectOutput outs_ok_enumerate [OF assms(6)] simp: txHash_length [OF assms(2)])
  then show ?thesis using assms(1,3,5,7) wf_restoreInputs
    by (fastforce simp: disconnectTx_def Let_def ins_ok_def list_all_iff split: if_splits)
qed

lemma wf_disconnectAll:
  "disconnectAll e fetchDB height its view stxos = Inr (view', stxos') \<Longrightarrow> hash_sized e \<Longrightarrow> fetch_ok fetchDB \<Longrightarrow> wf_view view \<Longrightarrow>
   list_all stxo_ok stxos \<Longrightarrow> \<forall>(i, t) \<in> set its. outs_ok height t \<and> ins_ok t \<Longrightarrow> wf_view view'"
proof (induction e fetchDB height its view stxos rule: disconnectAll.induct)
  case (2 e fetchDB height i t ts view stxos)
  then obtain v s where "disconnectTx e fetchDB height i t view stxos = Inr (v, s)" "disconnectAll e fetchDB height ts v s = Inr (view', stxos')"
    by (auto simp: bindE_cases)
  then show ?case using 2 wf_disconnectTx [of e fetchDB height i t view stxos v s] by auto
qed simp

definition blockTyped :: "Block \<Rightarrow> bool" where
  "blockTyped b \<longleftrightarrow> list_all (\<lambda>t. outs_ok (bl_height b) t \<and> ins_ok t) (bl_txs b)"

section \<open>Properties\<close>

text \<open>A block that spends one output of an earlier block and creates one beside an unspendable output.\<close>

definition sampleBlock :: Block where
  "sampleBlock = \<lparr>bl_hash = replicate 32 9, bl_height = 8, bl_txs =
     [\<lparr>Version = 1, TxIns = [NewTxIn \<lparr>Hash = replicate 32 0, Index = 0xffffffff\<rparr> [] []], TxOuts = [\<lparr>Value = 50, PkScript = [OP_1]\<rparr>], LockTime = 0\<rparr>,
      \<lparr>Version = 1, TxIns = [NewTxIn \<lparr>Hash = replicate 32 1, Index = 0\<rparr> [] []],
        TxOuts = [\<lparr>Value = 0, PkScript = [OP_RETURN]\<rparr>, \<lparr>Value = 40, PkScript = [OP_1]\<rparr>], LockTime = 0\<rparr>]\<rparr>"

definition sampleViewpoint :: UtxoViewpoint where
  "sampleViewpoint = (NewUtxoViewpoint False)\<lparr>v_entries := sampleView\<rparr>"


lemma sample_hash [simp]: "txHash zeroKeyEnv t = replicate 32 0"
  by (simp add: txHash_def TxHash_def DoubleHashB_def zeroKeyEnv_def)

lemma sample_scripts [simp]: "\<not> IsUnspendable [OP_1]" "IsUnspendable [OP_RETURN]"
  by code_simp+

lemma sample_live: "live sampleViewpoint = [\<lparr>Hash = replicate 32 1, Index = 0\<rparr> \<mapsto>
    \<lparr>st_Amount = 50, st_PkScript = [OP_1], st_Height = 7, st_IsCoinBase = True\<rparr>]"
  by (rule ext) (simp add: live_def LookupEntry_def sampleViewpoint_def sampleView_def IsSpent_def stxoOf_def IsCoinBaseEntry_def)

lemma createdOutputs_code:
  "createdOutputs e t = set (map (\<lambda>(i, out). \<lparr>Hash = txHash e t, Index = of_nat i\<rparr>) (filter (\<lambda>(i, out). \<not> IsUnspendable (PkScript out)) (enumerate 0 (TxOuts t))))"
  unfolding createdOutputs_enumerate [symmetric] by force

lemma sample_applicable: "blockApplicable zeroKeyEnv (live sampleViewpoint) sampleBlock"
  by (simp add: sample_live sampleBlock_def blockApplicable_def createdOutputs_code applicable_def inputsOf_def applyTx_def
      applyOutputs_def NewTxIn_def IsCoinBaseTx_def SwapTx_def)

lemma sample_spends:
  "blockSpends zeroKeyEnv sampleBlock (live sampleViewpoint) = [\<lparr>st_Amount = 50, st_PkScript = [OP_1], st_Height = 7, st_IsCoinBase = True\<rparr>]"
  by (simp add: sample_live sampleBlock_def blockSpends_def spentBy_def inputsOf_def applyTx_def applyOutputs_def NewTxIn_def IsCoinBaseTx_def)

lemma sample_noAgents: "noAgents noNet sampleViewpoint (tl (bl_txs sampleBlock)) (blockSpends zeroKeyEnv sampleBlock (live sampleViewpoint))"
proof -
  have "GetScriptClass noNet [OP_1] \<noteq> EADAddressTy" by code_simp
  moreover have "\<not> v_beacon sampleViewpoint" by (simp add: sampleViewpoint_def NewUtxoViewpoint_def)
  ultimately show ?thesis by (simp add: noAgents_def sample_spends)
qed






text \<open>C9. A block with a cross-shard swap cannot be disconnected: \<^verbatim>\<open>CountSpentOutputs\<close> counts half of the inputs of a swap
  while the loop of \<^verbatim>\<open>DisconnectTransactions\<close> consumes a stxo for every input, so for every view and
  every list of stxos it fails.\<close>

theorem swap_block_irreversible:
  assumes "bl_txs b = cb # ts" "t \<in> set ts" "SwapTx t" "TxIns t \<noteq> []"
  shows "\<exists>err. DisconnectTransactions e fetchDB view b prevHash stxos = Inl err"
proof (rule ccontr)
  assume "\<not> ?thesis"
  then obtain r where r: "DisconnectTransactions e fetchDB view b prevHash stxos = Inr r"
    by (cases "DisconnectTransactions e fetchDB view b prevHash stxos") auto
  then obtain v rest where v: "CountSpentOutputs (cb # ts) = Inr (length stxos)"
      "disconnectAll e fetchDB (bl_height b) (rev (enumerate 0 (cb # ts))) view (rev stxos) = Inr (v, rest)"
    using assms(1) by (auto simp: DisconnectTransactions_def bindE_cases split: if_splits)
  have "map (\<lambda>(i, t). if i = 0 then 0 else length (TxIns t)) (enumerate (Suc n) ts) = map (\<lambda>t. length (TxIns t)) ts" for n
    by (induction ts arbitrary: n) simp_all
  then have "sum_list (map (\<lambda>t. length (TxIns t)) ts) \<le> length stxos"
    using disconnectAll_consumes [OF v(2)] by (simp add: rev_map [symmetric] sum_list_rev)
  then show False using CountSpentOutputs_swap [OF v(1) assms(2-4)] by simp
qed

definition swapBlock :: Block where
  "swapBlock = sampleBlock\<lparr>bl_txs := map (\<lambda>t. t\<lparr>Version := 4\<rparr>) (bl_txs sampleBlock)\<rparr>"

theorem swap_block_irreversible_witness:
  "\<exists>err. DisconnectTransactions zeroKeyEnv (\<lambda>h. Inr None) sampleViewpoint swapBlock (replicate 32 0) [] = Inl err"
  by (rule swap_block_irreversible [where cb = "hd (bl_txs swapBlock)" and ts = "tl (bl_txs swapBlock)" and t = "bl_txs swapBlock ! 1"])
    (simp_all add: swapBlock_def sampleBlock_def SwapTx_def)

end
