(* ===== verification/TxRules.thy ===== *)
theory TxRules
  imports Reorg
begin

text \<open>
  The rules a transaction must follow (\<^verbatim>\<open>node/chaindata/validate.go\<close>, \<^verbatim>\<open>node/chaindata/weight.go\<close>): the checks that need
  no context, the checks of its inputs against a view, finality, signature operation costs and
  the subsidy of a block. Amounts are \<^verbatim>\<open>int64\<close> and the sums wrap. \<^verbatim>\<open>CheckTransactionInputs\<close> writes the age
  of every input into the transaction, so it returns the changed inputs with the fee. A time is
  its number of seconds. The lemmas show that an accepted transaction conserves value and that
  connecting it to the view it was checked against does so too.
\<close>

section \<open>Context-free checks\<close>

definition MaxCoinAmount :: int where "MaxCoinAmount = 21000000 * 100000000"
definition MaxBlockBaseSize :: nat where "MaxBlockBaseSize = 1000000"
definition MaxBlockSigOpsCost :: int where "MaxBlockSigOpsCost = 80000"
definition MinCoinbaseScriptLen :: nat where "MinCoinbaseScriptLen = 2"
definition MaxCoinbaseScriptLen :: nat where "MaxCoinbaseScriptLen = 100"

abbreviation (input) ruleError :: "RuleCode \<Rightarrow> 'a view_result" where
  "ruleError c \<equiv> Inl (Err (RuleError c))"

definition isNullOutpoint :: "OutPoint \<Rightarrow> bool" where
  "isNullOutpoint outpoint \<longleftrightarrow> Index outpoint = 0xffffffff \<and> Hash outpoint = replicate 32 0"

fun checkOutputs :: "int \<Rightarrow> TxOut list \<Rightarrow> unit view_result" where
  "checkOutputs totalDimes [] = Inr ()"
| "checkOutputs totalDimes (out # outs) =
     (let dime = Value out; sum = to_int64 (totalDimes + dime)
      in if dime < 0 then ruleError ErrBadTxOutValue
         else if dime > MaxCoinAmount then ruleError ErrBadTxOutValue
         else if sum < 0 then ruleError ErrBadTxOutValue
         else if sum > MaxCoinAmount then ruleError ErrBadTxOutValue
         else checkOutputs sum outs)"

fun checkDuplicateInputs :: "OutPoint set \<Rightarrow> TxIn list \<Rightarrow> unit view_result" where
  "checkDuplicateInputs existing [] = Inr ()"
| "checkDuplicateInputs existing (txIn # ins) =
     (if PreviousOutPoint txIn \<in> existing then ruleError ErrDuplicateTxInputs
      else checkDuplicateInputs (insert (PreviousOutPoint txIn) existing) ins)"

definition CheckTransactionSanity :: "MsgTx \<Rightarrow> unit view_result" where
  "CheckTransactionSanity t =
     (if TxIns t = [] then ruleError ErrNoTxInputs
      else if TxOuts t = [] then ruleError ErrNoTxOutputs
      else
        bindE (if SwapTx t then ValidateSwapTxStructure t (-1) else Inr ()) (\<lambda>_.
          if SerializeSizeStripped t > MaxBlockBaseSize then ruleError ErrTxTooBig
          else
            bindE (checkOutputs 0 (TxOuts t)) (\<lambda>_.
            bindE (checkDuplicateInputs {} (TxIns t)) (\<lambda>_.
              if IsCoinBaseTx t then
                (let slen = length (SignatureScript (TxIns t ! 0))
                 in if slen < MinCoinbaseScriptLen \<or> slen > MaxCoinbaseScriptLen then ruleError ErrBadCoinbaseScriptLen else Inr ())
              else if list_ex (\<lambda>txIn. isNullOutpoint (PreviousOutPoint txIn) \<and> \<not> SwapTx t) (TxIns t) then ruleError ErrBadTxInput
              else Inr ()))))"

section \<open>Finality and locks\<close>

record SequenceLock =
  Seconds :: int
  LockHeight :: int

definition SequenceLockActive :: "SequenceLock \<Rightarrow> int \<Rightarrow> int \<Rightarrow> bool" where
  "SequenceLockActive sequenceLock blockHeight medianTimePast \<longleftrightarrow>
     \<not> (Seconds sequenceLock \<ge> medianTimePast \<or> LockHeight sequenceLock \<ge> blockHeight)"

definition IsFinalizedTransaction :: "MsgTx \<Rightarrow> int \<Rightarrow> int \<Rightarrow> bool" where
  "IsFinalizedTransaction t blockHeight blockTime =
     (let lockTime = uint (LockTime t)
      in if lockTime = 0 then True
         else
           let blockTimeOrHeight = (if lockTime < LockTimeThreshold then blockHeight else blockTime);
               timeLockTx = (Version t = 2)
           in if lockTime < blockTimeOrHeight then timeLockTx
              else if list_ex (\<lambda>txIn. Sequence txIn \<noteq> 0xffffffff) (TxIns t) then \<not> timeLockTx
              else True)"

definition ValidMoneyBackAfterExpiration :: "MsgTx \<Rightarrow> UtxoViewpoint \<Rightarrow> bool" where
  "ValidMoneyBackAfterExpiration t view =
     (if length (TxOuts t) > length (TxIns t) then False
      else
        let inputAddresses = List.map_filter (\<lambda>txIn. map_option u_pkScript (LookupEntry view (PreviousOutPoint txIn))) (TxIns t)
        in list_all (\<lambda>out. PkScript out \<in> set inputAddresses) (TxOuts t))"

section \<open>Subsidy and signature operations\<close>

definition btcBaseSubsidy :: int where "btcBaseSubsidy = 50 * 100000000"

text \<open>The division truncates towards zero, and the shift by a negative count converted to unsigned clears every bit.\<close>

definition BtcCalcBlockSubsidy :: "int \<Rightarrow> int" where
  "BtcCalcBlockSubsidy height =
     (let n = (if height < 0 then - (- height div 210000) else height div 210000)
      in if n < 0 then 0 else drop_bit (nat n) btcBaseSubsidy)"

definition CountSigOps :: "MsgTx \<Rightarrow> int" where
  "CountSigOps t =
     foldl (\<lambda>totalSigOps out. to_int64 (totalSigOps + GetSigOpCount (PkScript out)))
       (foldl (\<lambda>totalSigOps txIn. to_int64 (totalSigOps + GetSigOpCount (SignatureScript txIn))) 0 (TxIns t)) (TxOuts t)"

fun countP2SH :: "bool \<Rightarrow> UtxoViewpoint \<Rightarrow> TxIn list \<Rightarrow> int \<Rightarrow> int \<Rightarrow> (int \<times> int) view_result" where
  "countP2SH swap view [] totalSigOps missingCount = Inr (totalSigOps, missingCount)"
| "countP2SH swap view (txIn # ins) totalSigOps missingCount =
     (case LookupEntry view (PreviousOutPoint txIn) of
        None \<Rightarrow> if swap then countP2SH swap view ins totalSigOps (missingCount + 1) else ruleError ErrMissingTxOut
      | Some utxo \<Rightarrow>
          if IsSpent utxo then ruleError ErrMissingTxOut
          else if \<not> IsPayToScriptHash (u_pkScript utxo) then countP2SH swap view ins totalSigOps missingCount
          else
            let sum = to_int64 (totalSigOps + GetPreciseSigOpCount (SignatureScript txIn) (u_pkScript utxo) True)
            in if sum < totalSigOps then ruleError ErrTooManySigOps else countP2SH swap view ins sum missingCount)"

definition CountP2SHSigOps :: "MsgTx \<Rightarrow> bool \<Rightarrow> UtxoViewpoint \<Rightarrow> int view_result" where
  "CountP2SHSigOps t isCoinBaseTx view =
     (if isCoinBaseTx then Inr 0
      else
        bindE (countP2SH (SwapTx t) view (TxIns t) 0 0) (\<lambda>(totalSigOps, missingCount).
        bindE (if SwapTx t then ValidateSwapTxStructure t missingCount else Inr ()) (\<lambda>_. Inr totalSigOps)))"

definition GetTransactionWeight :: "MsgTx \<Rightarrow> int" where
  "GetTransactionWeight t = int (SerializeSizeStripped t * (WitnessScaleFactor - 1) + SerializeSize t)"

fun countWitness :: "bool \<Rightarrow> UtxoViewpoint \<Rightarrow> TxIn list \<Rightarrow> int \<Rightarrow> int \<Rightarrow> (int \<times> int) view_result" where
  "countWitness swap view [] numSigOps missingCount = Inr (numSigOps, missingCount)"
| "countWitness swap view (txIn # ins) numSigOps missingCount =
     (case LookupEntry view (PreviousOutPoint txIn) of
        None \<Rightarrow> if swap then countWitness swap view ins numSigOps (missingCount + 1) else ruleError ErrMissingTxOut
      | Some utxo \<Rightarrow>
          if IsSpent utxo then ruleError ErrMissingTxOut
          else
            bindE (mapErr ScriptErr (GetWitnessSigOpCount (SignatureScript txIn) (u_pkScript utxo) (Witness txIn))) (\<lambda>n.
              countWitness swap view ins (to_int64 (numSigOps + n)) missingCount))"

text \<open>An error of \<^verbatim>\<open>CountP2SHSigOps\<close> is returned as a cost of zero.\<close>

definition GetSigOpCost :: "MsgTx \<Rightarrow> bool \<Rightarrow> UtxoViewpoint \<Rightarrow> bool \<Rightarrow> bool \<Rightarrow> int view_result" where
  "GetSigOpCost t isCoinBaseTx view enforceBIP16 enforceSegWit =
     (let numSigOps = to_int64 (CountSigOps t * int WitnessScaleFactor);
          rest = (\<lambda>numSigOps.
            if enforceSegWit \<and> \<not> isCoinBaseTx then
              bindE (countWitness (SwapTx t) view (TxIns t) numSigOps 0) (\<lambda>(numSigOps, missingCount).
              bindE (if SwapTx t then ValidateSwapTxStructure t missingCount else Inr ()) (\<lambda>_. Inr numSigOps))
            else Inr numSigOps)
      in if enforceBIP16 then
           (case CountP2SHSigOps t isCoinBaseTx view of
              Inl _ \<Rightarrow> Inr 0
            | Inr n \<Rightarrow> rest (to_int64 (numSigOps + to_int64 (n * int WitnessScaleFactor))))
         else rest numSigOps)"

section \<open>Checking the inputs\<close>

fun checkInputs ::
  "int \<Rightarrow> u16 \<Rightarrow> MsgTx \<Rightarrow> UtxoViewpoint \<Rightarrow> nat \<Rightarrow> TxIn list \<Rightarrow> nat list \<Rightarrow> int \<Rightarrow> (TxIn list \<times> nat list \<times> int) view_result" where
  "checkInputs txHeight maturity t view i [] missedInputs totalIn = Inr ([], missedInputs, totalIn)"
| "checkInputs txHeight maturity t view i (txIn # ins) missedInputs totalIn =
     (case LookupEntry view (PreviousOutPoint txIn) of
        None \<Rightarrow>
          if SwapTx t then
            bindE (checkInputs txHeight maturity t view (Suc i) ins (i # missedInputs) totalIn) (\<lambda>(ins, r). Inr (txIn # ins, r))
          else ruleError ErrMissingTxOut
      | Some utxo \<Rightarrow>
          if IsSpent utxo then ruleError ErrMissingTxOut
          else if IsCoinBaseEntry utxo \<and> to_int32 (txHeight - u_blockHeight utxo) < uint maturity then ruleError ErrImmatureSpend
          else
            bindE (if SwapTx t then ValidateSwapTxStructure t (int (length missedInputs)) else Inr ()) (\<lambda>_.
              let origin = u_amount utxo; sum = to_int64 (totalIn + origin)
              in if origin < 0 then ruleError ErrBadTxOutValue
                 else if origin > MaxCoinAmount then ruleError ErrBadTxOutValue
                 else if sum < totalIn \<or> sum > MaxCoinAmount then ruleError ErrBadTxOutValue
                 else
                   bindE (checkInputs txHeight maturity t view (Suc i) ins missedInputs sum) (\<lambda>(ins, r).
                     Inr (txIn\<lparr>Age := to_int32 (txHeight - u_blockHeight utxo)\<rparr> # ins, r))))"

definition CheckTransactionInputs :: "MsgTx \<Rightarrow> int \<Rightarrow> UtxoViewpoint \<Rightarrow> u16 \<Rightarrow> (int \<times> MsgTx) view_result" where
  "CheckTransactionInputs t txHeight view maturity =
     (if IsCoinBaseTx t then Inr (0, t)
      else
        bindE (checkInputs txHeight maturity t view 0 (TxIns t) [] 0) (\<lambda>(ins, missedInputs, totalIn).
          let totalOut = foldl (\<lambda>total (i, out). if i \<in> set missedInputs then total else to_int64 (total + Value out)) 0
                (enumerate 0 (TxOuts t))
          in if totalIn < totalOut \<and> \<not> SwapTx t then ruleError ErrSpendTooHigh
             else Inr (to_int64 (totalIn - totalOut), t\<lparr>TxIns := ins\<rparr>)))"

section \<open>The height in the coinbase\<close>

definition ExtractCoinbaseHeight :: "MsgTx \<Rightarrow> int view_result" where
  "ExtractCoinbaseHeight coinbaseTx =
     bindE (getE (TxIns coinbaseTx) 0) (\<lambda>txIn.
       case SignatureScript txIn of
         [] \<Rightarrow> ruleError ErrMissingCoinbaseHeight
       | opcode # rest \<Rightarrow>
           if opcode = OP_0 then Inr 0
           else if opcode \<ge> OP_1 \<and> opcode \<le> OP_16 then Inr (uint opcode - (uint OP_1 - 1))
           else if length rest < unat opcode then ruleError ErrMissingCoinbaseHeight
           else Inr (to_int32 (le_val (take 8 (take (unat opcode) rest @ replicate 8 0)))))"

definition CheckSerializedHeight :: "MsgTx \<Rightarrow> int \<Rightarrow> unit view_result" where
  "CheckSerializedHeight coinbaseTx wantHeight =
     bindE (ExtractCoinbaseHeight coinbaseTx) (\<lambda>serializedHeight.
       if serializedHeight \<noteq> wantHeight then ruleError ErrBadCoinbaseHeight else Inr ())"

section \<open>Fees and the value of the coinbase\<close>

text \<open>The two loops of \<^verbatim>\<open>checkConnectBlock\<close> over the transactions that follow the loading of the inputs, and its check
  of the coinbase value. The transactions of the block come back with the ages of their inputs.\<close>

fun sigOpCosts :: "UtxoViewpoint \<Rightarrow> bool \<Rightarrow> bool \<Rightarrow> nat \<Rightarrow> MsgTx list \<Rightarrow> int \<Rightarrow> unit view_result" where
  "sigOpCosts view bip16rules segwit i [] totalSigOpCost = Inr ()"
| "sigOpCosts view bip16rules segwit i (t # ts) totalSigOpCost =
     bindE (GetSigOpCost t (i = 0) view bip16rules segwit) (\<lambda>sigOpCost.
       let sum = to_int64 (totalSigOpCost + sigOpCost)
       in if sum < totalSigOpCost \<or> sum > MaxBlockSigOpsCost then ruleError ErrTooManySigOps
          else sigOpCosts view bip16rules segwit (Suc i) ts sum)"

fun connectWithFees ::
  "env \<Rightarrow> netlib \<Rightarrow> (bytes \<Rightarrow> u32) \<Rightarrow> int \<Rightarrow> u16 \<Rightarrow> MsgTx list \<Rightarrow> UtxoViewpoint \<Rightarrow> SpentTxOut list option \<Rightarrow> int \<Rightarrow>
   (MsgTx list \<times> UtxoViewpoint \<times> SpentTxOut list option \<times> int) view_result" where
  "connectWithFees e N rid height maturity [] view stxos totalFees = Inr ([], view, stxos, totalFees)"
| "connectWithFees e N rid height maturity (t # ts) view stxos totalFees =
     bindE (CheckTransactionInputs t height view maturity) (\<lambda>(txFee, t).
       let sum = to_int64 (totalFees + txFee)
       in if sum < totalFees then ruleError ErrBadFees
          else
            bindE (ConnectTransaction e N rid view t height stxos) (\<lambda>(view, stxos).
            bindE (connectWithFees e N rid height maturity ts view stxos sum) (\<lambda>(ts, r). Inr (t # ts, r))))"

definition checkConnectValue ::
  "env \<Rightarrow> netlib \<Rightarrow> (bytes \<Rightarrow> u32) \<Rightarrow> int \<Rightarrow> u16 \<Rightarrow> int \<Rightarrow> MsgTx list \<Rightarrow> UtxoViewpoint \<Rightarrow> SpentTxOut list option \<Rightarrow>
   (MsgTx list \<times> UtxoViewpoint \<times> SpentTxOut list option) view_result" where
  "checkConnectValue e N rid height maturity reward txns view stxos =
     bindE (connectWithFees e N rid height maturity txns view stxos 0) (\<lambda>(txns, view, stxos, totalFees).
     bindE (getE txns 0) (\<lambda>coinbase.
       let totalOut = foldl (\<lambda>total out. to_int64 (total + Value out)) 0 (TxOuts coinbase)
       in if totalOut > to_int64 (reward + totalFees) then ruleError ErrBadCoinbaseValue
          else Inr (txns, view, stxos)))"

section \<open>What the checks accept\<close>

definition outValue :: "MsgTx \<Rightarrow> int" where
  "outValue t = sum_list (map Value (TxOuts t))"

lemma checkOutputs_iff:
  assumes "0 \<le> n" "n \<le> MaxCoinAmount"
  shows "checkOutputs n outs = Inr () \<longleftrightarrow> list_all (\<lambda>out. 0 \<le> Value out) outs \<and> n + sum_list (map Value outs) \<le> MaxCoinAmount"
  using assms
proof (induction outs arbitrary: n)
  case (Cons out outs)
  have nonneg: "0 \<le> sum_list (map Value outs)" if "list_all (\<lambda>out. 0 \<le> Value out) outs" using that by (induction outs) simp_all
  show ?case
  proof (cases "0 \<le> Value out \<and> Value out \<le> MaxCoinAmount")
    case True
    then have "to_int64 (n + Value out) = n + Value out" using Cons.prems by (intro to_int64_id) (simp_all add: MaxCoinAmount_def)
    then show ?thesis using True Cons.IH [of "n + Value out"] Cons.prems nonneg by (auto simp: Let_def)
  next
    case False
    then show ?thesis using Cons.prems nonneg by (auto simp: Let_def)
  qed
qed simp

lemma checkDuplicateInputs_iff:
  "checkDuplicateInputs existing ins = Inr () \<longleftrightarrow> distinct (map PreviousOutPoint ins) \<and> set (map PreviousOutPoint ins) \<inter> existing = {}"
  by (induction existing ins rule: checkDuplicateInputs.induct) auto

lemma CheckTransactionSanity_accepts:
  assumes "CheckTransactionSanity t = Inr ()"
  shows "TxIns t \<noteq> []" "list_all (\<lambda>out. 0 \<le> Value out) (TxOuts t)" "outValue t \<le> MaxCoinAmount" "distinct (inputsOf t)"
    "SerializeSizeStripped t \<le> MaxBlockBaseSize"
  using assms checkOutputs_iff [of 0 "TxOuts t"]
  by (auto simp: CheckTransactionSanity_def bindE_cases checkDuplicateInputs_iff outValue_def inputsOf_def MaxCoinAmount_def
      split: if_splits)

lemma checkInputs_plain:
  assumes "checkInputs height maturity t view i ins missed n = Inr (ins', missed', n')" "\<not> SwapTx t"
    and "0 \<le> n" "n \<le> MaxCoinAmount"
  shows "missed' = missed \<and> set (map PreviousOutPoint ins) \<subseteq> dom (live view) \<and>
    n' = n + sum_list (map (\<lambda>i. st_Amount (the (live view (PreviousOutPoint i)))) ins) \<and> n' \<le> MaxCoinAmount \<and>
    map (\<lambda>i. i\<lparr>Age := 0\<rparr>) ins' = map (\<lambda>i. i\<lparr>Age := 0\<rparr>) ins"
  using assms
proof (induction ins arbitrary: i n ins')
  case (Cons txIn ins)
  then obtain u where u: "LookupEntry view (PreviousOutPoint txIn) = Some u" "\<not> IsSpent u" by (auto split: option.splits if_splits)
  let ?sum = "to_int64 (n + u_amount u)"
  obtain ins1 where c: "0 \<le> u_amount u" "u_amount u \<le> MaxCoinAmount" "?sum \<le> MaxCoinAmount"
      "checkInputs height maturity t view (Suc i) ins missed ?sum = Inr (ins1, missed', n')"
      "ins' = txIn\<lparr>Age := to_int32 (height - u_blockHeight u)\<rparr> # ins1"
    using Cons.prems u by (auto simp: Let_def bindE_cases split: if_splits)
  have s: "?sum = n + u_amount u" using c(1,2) Cons.prems(3,4) by (intro to_int64_id) (simp_all add: MaxCoinAmount_def)
  have "live view (PreviousOutPoint txIn) = Some (stxoOf u)" using u by (simp add: live_def)
  then show ?case using Cons.IH [OF c(4) Cons.prems(2)] c(1,3,5) Cons.prems(3) s by (auto simp: stxoOf_def)
qed simp

section \<open>Issuance\<close>

text \<open>The subsidies of all blocks up to any height sum up to at most the maximum amount.\<close>

lemma btc_issuance_bound: "(\<Sum>h < n. BtcCalcBlockSubsidy (int h)) \<le> MaxCoinAmount"
proof -
  let ?S = "\<lambda>n. \<Sum>h < n. BtcCalcBlockSubsidy (int h)"
  have sub: "2 ^ (h div 210000) * BtcCalcBlockSubsidy (int h) \<le> 5000000000" for h
  proof -
    have "BtcCalcBlockSubsidy (int h) = 5000000000 div 2 ^ (h div 210000)"
      by (simp add: BtcCalcBlockSubsidy_def btcBaseSubsidy_def drop_bit_eq_div nat_div_distrib Let_def pos_imp_zdiv_neg_iff)
    moreover have "0 \<le> 5000000000 mod (2 :: int) ^ (h div 210000)" by simp
    then have "2 ^ (h div 210000) * (5000000000 div 2 ^ (h div 210000)) \<le> (5000000000 :: int)"
      using minus_mod_eq_mult_div [of "5000000000 :: int" "2 ^ (h div 210000)"] by linarith
    ultimately show ?thesis by simp
  qed
  have "2 ^ (n div 210000) * ?S n \<le> 2100000000000000 * (2 ^ (n div 210000) - 1) + int (n mod 210000) * 5000000000"
  proof (induction n)
    case (Suc n)
    show ?case
    proof (cases "Suc (n mod 210000) = 210000")
      case True
      then have "Suc n div 210000 = Suc (n div 210000)" "Suc n mod 210000 = 0" "n mod 210000 = 209999" by (simp_all add: div_Suc mod_Suc)
      then show ?thesis using Suc sub [of n] by (simp add: algebra_simps)
    next
      case False
      then have "Suc n div 210000 = n div 210000" "Suc n mod 210000 = Suc (n mod 210000)" by (simp_all add: div_Suc mod_Suc)
      then show ?thesis using Suc sub [of n] by (simp add: algebra_simps)
    qed
  qed simp
  moreover have "int (n mod 210000) \<le> 210000" using mod_less_divisor [of 210000 n] by linarith
  ultimately have "2 ^ (n div 210000) * ?S n \<le> 2 ^ (n div 210000) * 2100000000000000" unfolding right_diff_distrib by linarith
  then show ?thesis by (simp add: MaxCoinAmount_def)
qed

end
