(* ===== verification/Supply.thy ===== *)
theory Supply
  imports TxRules
begin

text \<open>
  The total value of the unspent outputs. A transaction that the rules accept conserves value,
  and a block without swaps adds at most its reward. An output of the block that is in the view
  before the transaction that creates it is connected, as \<^verbatim>\<open>FetchInputUtxos\<close> leaves them, is not
  counted before. With swaps the bound fails: \<^verbatim>\<open>FetchInputUtxos\<close> also adds the outputs of a swap that
  belong to another shard.
\<close>

section \<open>Supply\<close>

definition coinSupply :: "(OutPoint \<rightharpoonup> SpentTxOut) \<Rightarrow> int" where
  "coinSupply m = (\<Sum>p \<in> dom m. st_Amount (the (m p)))"

definition nonneg :: "(OutPoint \<rightharpoonup> SpentTxOut) \<Rightarrow> bool" where
  "nonneg m \<longleftrightarrow> (\<forall>p s. m p = Some s \<longrightarrow> 0 \<le> st_Amount s)"

lemma supply_upd: "finite (dom m) \<Longrightarrow> coinSupply (m(p \<mapsto> s)) = coinSupply (m(p := None)) + st_Amount s"
proof -
  assume f: "finite (dom m)"
  have "(\<Sum>q \<in> dom m - {p}. st_Amount (the ((m(p \<mapsto> s)) q))) = (\<Sum>q \<in> dom m - {p}. st_Amount (the ((m(p := None)) q)))"
    by (rule sum.cong) auto
  with f show ?thesis by (simp add: coinSupply_def sum.insert_remove)
qed

lemma supply_clear:
  assumes "finite (dom m)"
  shows "coinSupply (m(p := None)) = coinSupply m - (case m p of Some s \<Rightarrow> st_Amount s | None \<Rightarrow> 0)"
proof (cases "m p")
  case None
  then show ?thesis by (simp add: fun_upd_idem)
next
  case (Some s)
  then have "m = m(p \<mapsto> s)" by (simp add: fun_upd_idem)
  then show ?thesis using supply_upd [OF assms, of p s] Some by simp
qed

lemma supply_clear_le: "finite (dom m) \<Longrightarrow> nonneg m \<Longrightarrow> coinSupply (m(p := None)) \<le> coinSupply m"
  by (auto simp: supply_clear nonneg_def split: option.splits)

lemma supply_spend:
  assumes "finite (dom m)" "distinct ps" "set ps \<subseteq> dom m"
  shows "coinSupply (m |` (- set ps)) = coinSupply m - sum_list (map (\<lambda>p. st_Amount (the (m p))) ps)"
  using assms(2,3)
proof (induction ps)
  case (Cons p ps)
  have "m |` (- set (p # ps)) = (m |` (- set ps))(p := None)" by (auto simp: restrict_map_def fun_eq_iff)
  moreover have "(m |` (- set ps)) p = m p" using Cons.prems by (simp add: restrict_map_def)
  ultimately show ?case using Cons assms(1) supply_clear [of "m |` (- set ps)" p] by (auto simp: finite_subset)
qed (simp add: restrict_map_def)

lemma nonneg_restrict [simp]: "nonneg m \<Longrightarrow> nonneg (m |` A)"
  by (auto simp: nonneg_def restrict_map_def split: if_splits)

lemma applyOutputs_Cons:
  "applyOutputs h coinbase height ((i, out) # outs) m = applyOutputs h coinbase height outs
    (if IsUnspendable (PkScript out) then m else m(\<lparr>Hash = h, Index = of_nat i\<rparr> \<mapsto> outputOf coinbase height out))"
  by (simp add: applyOutputs_def)

lemma applyOutputs_Nil [simp]: "applyOutputs h coinbase height [] m = m"
  by (simp add: applyOutputs_def)

lemma supply_applyOutputs:
  assumes "finite (dom m)" "nonneg m" "\<forall>(i, out) \<in> set outs. 0 \<le> Value out"
  shows "coinSupply (applyOutputs h coinbase height outs m) \<le> coinSupply m + sum_list (map (\<lambda>(i, out). Value out) outs) \<and>
    finite (dom (applyOutputs h coinbase height outs m)) \<and> nonneg (applyOutputs h coinbase height outs m)"
  using assms
proof (induction outs arbitrary: m)
  case (Cons a outs)
  obtain i out where a: "a = (i, out)" by fastforce
  let ?p = "\<lparr>Hash = h, Index = of_nat i\<rparr>" and ?s = "outputOf coinbase height out"
  have v: "st_Amount ?s = Value out" "0 \<le> Value out" using Cons.prems(3) a by (auto simp: outputOf_def)
  have m: "finite (dom (m(?p \<mapsto> ?s)))" "nonneg (m(?p \<mapsto> ?s))" "coinSupply (m(?p \<mapsto> ?s)) \<le> coinSupply m + Value out"
    using Cons.prems(1,2) v supply_upd [of m ?p ?s] supply_clear_le [of m ?p] by (auto simp: nonneg_def)
  have o: "\<forall>(i, out) \<in> set outs. 0 \<le> Value out" using Cons.prems(3) by simp
  show ?case
  proof (cases "IsUnspendable (PkScript out)")
    case True
    then show ?thesis using Cons.IH [OF Cons.prems(1,2) o] v(2) unfolding a applyOutputs_Cons by simp
  next
    case False
    show ?thesis using Cons.IH [OF m(1,2) o] m(3) False unfolding a applyOutputs_Cons if_not_P [OF False] by (simp del: fun_upd_apply)
  qed
qed simp

lemma applyOutputs_inside:
  assumes "p \<in> {\<lparr>Hash = h, Index = of_nat i\<rparr> | i out. (i, out) \<in> set outs \<and> \<not> IsUnspendable (PkScript out)}"
  shows "applyOutputs h coinbase height outs m p = applyOutputs h coinbase height outs m' p"
  using assms
proof (induction outs arbitrary: m m')
  case (Cons a outs)
  obtain i out where a: "a = (i, out)" by fastforce
  let ?C = "{\<lparr>Hash = h, Index = of_nat i\<rparr> | i out. (i, out) \<in> set outs \<and> \<not> IsUnspendable (PkScript out)}"
  show ?case
  proof (cases "p \<in> ?C")
    case True
    then show ?thesis unfolding a applyOutputs_Cons by (rule Cons.IH)
  next
    case False
    then have "\<not> IsUnspendable (PkScript out)" "p = \<lparr>Hash = h, Index = of_nat i\<rparr>" using Cons.prems a by auto
    then show ?thesis using False unfolding a applyOutputs_Cons by (simp add: applyOutputs_outside)
  qed
qed simp

lemma applyOutputs_overwrites:
  "applyOutputs (txHash e t) coinbase height (enumerate 0 (TxOuts t)) m =
   applyOutputs (txHash e t) coinbase height (enumerate 0 (TxOuts t)) (m |` (- createdOutputs e t))"
proof
  fix p
  show "applyOutputs (txHash e t) coinbase height (enumerate 0 (TxOuts t)) m p =
    applyOutputs (txHash e t) coinbase height (enumerate 0 (TxOuts t)) (m |` (- createdOutputs e t)) p"
  proof (cases "p \<in> createdOutputs e t")
    case True
    then show ?thesis unfolding createdOutputs_enumerate [symmetric] by (rule applyOutputs_inside)
  next
    case False
    then show ?thesis
      using applyOutputs_outside [of p "txHash e t" "enumerate 0 (TxOuts t)" coinbase height] unfolding createdOutputs_enumerate by simp
  qed
qed

definition outputsOf :: "env \<Rightarrow> MsgTx list \<Rightarrow> OutPoint set" where
  "outputsOf e ts = {p. Hash p \<in> txHash e ` set ts}"

lemma createdOutputs_hash: "p \<in> createdOutputs e t \<Longrightarrow> Hash p = txHash e t"
  by (auto simp: createdOutputs_def)

lemma applyOutputs_restrict:
  assumes "createdOutputs e t \<subseteq> A"
  shows "applyOutputs (txHash e t) coinbase height (enumerate 0 (TxOuts t)) m |` A =
    applyOutputs (txHash e t) coinbase height (enumerate 0 (TxOuts t)) (m |` A)"
proof
  fix p
  let ?outs = "enumerate 0 (TxOuts t)"
  show "(applyOutputs (txHash e t) coinbase height ?outs m |` A) p = applyOutputs (txHash e t) coinbase height ?outs (m |` A) p"
  proof (cases "p \<in> createdOutputs e t")
    case True
    then have "p \<in> A" using assms by blast
    with True show ?thesis using applyOutputs_inside [of p "txHash e t" ?outs coinbase height m "m |` A"]
      unfolding createdOutputs_enumerate by simp
  next
    case False
    then show ?thesis using applyOutputs_outside [of p "txHash e t" ?outs coinbase height] unfolding createdOutputs_enumerate
      by (simp add: restrict_map_def)
  qed
qed

lemma sum_enumerate: "sum_list (map (\<lambda>(i, out). Value out) (enumerate n outs)) = sum_list (map Value outs)"
  by (induction outs arbitrary: n) simp_all

section \<open>Transactions\<close>

lemma txHash_age:
  assumes "map (\<lambda>i. i\<lparr>Age := 0\<rparr>) ins = map (\<lambda>i. i\<lparr>Age := 0\<rparr>) (TxIns t)"
  shows "txHash e (t\<lparr>TxIns := ins\<rparr>) = txHash e t"
proof -
  have w: "writeTxIn (i\<lparr>Age := 0\<rparr>) = writeTxIn i" for i by (simp add: writeTxIn_def)
  have "map writeTxIn (map (\<lambda>i. i\<lparr>Age := 0\<rparr>) ins) = map writeTxIn (map (\<lambda>i. i\<lparr>Age := 0\<rparr>) (TxIns t))" by (simp only: assms)
  then have "map writeTxIn ins = map writeTxIn (TxIns t)" by (simp add: comp_def w)
  moreover have "length ins = length (TxIns t)" using assms by (metis length_map)
  ultimately show ?thesis by (simp add: txHash_def TxHash_def SerializeNoWitness_def BtcEncode_def)
qed

lemma aged_tx:
  assumes "map (\<lambda>i. i\<lparr>Age := 0\<rparr>) ins = map (\<lambda>i. i\<lparr>Age := 0\<rparr>) (TxIns t)"
  shows "inputsOf (t\<lparr>TxIns := ins\<rparr>) = inputsOf t" "IsCoinBaseTx (t\<lparr>TxIns := ins\<rparr>) = IsCoinBaseTx t" "SwapTx (t\<lparr>TxIns := ins\<rparr>) = SwapTx t"
    "createdOutputs e (t\<lparr>TxIns := ins\<rparr>) = createdOutputs e t"
    "applyTx e height (t\<lparr>TxIns := ins\<rparr>) m = applyTx e height t m"
proof -
  have "map PreviousOutPoint (map (\<lambda>i. i\<lparr>Age := 0\<rparr>) ins) = map PreviousOutPoint (map (\<lambda>i. i\<lparr>Age := 0\<rparr>) (TxIns t))" by (simp only: assms)
  then have p: "map PreviousOutPoint ins = map PreviousOutPoint (TxIns t)" by (simp add: comp_def)
  have l: "length ins = length (TxIns t)" using assms by (metis length_map)
  then show i: "inputsOf (t\<lparr>TxIns := ins\<rparr>) = inputsOf t" using p by (simp add: inputsOf_def)
  show c: "IsCoinBaseTx (t\<lparr>TxIns := ins\<rparr>) = IsCoinBaseTx t"
    using p l unfolding IsCoinBaseTx_def by (cases ins; cases "TxIns t") (simp_all add: Let_def)
  show "SwapTx (t\<lparr>TxIns := ins\<rparr>) = SwapTx t" by (simp add: SwapTx_def)
  show "createdOutputs e (t\<lparr>TxIns := ins\<rparr>) = createdOutputs e t" by (simp add: createdOutputs_def txHash_age [OF assms])
  show "applyTx e height (t\<lparr>TxIns := ins\<rparr>) m = applyTx e height t m"
    unfolding applyTx_def i c txHash_age [OF assms] by simp
qed

definition inValue :: "(OutPoint \<rightharpoonup> SpentTxOut) \<Rightarrow> MsgTx \<Rightarrow> int" where
  "inValue m t = sum_list (map (\<lambda>p. st_Amount (the (m p))) (inputsOf t))"

lemma foldl_values:
  assumes "list_all (\<lambda>out. 0 \<le> Value out) outs" "0 \<le> n" "n + sum_list (map Value outs) \<le> MaxCoinAmount"
  shows "foldl (\<lambda>k out. to_int64 (k + Value out)) n outs = n + sum_list (map Value outs)"
    "foldl (\<lambda>k (i, out). if i \<in> set [] then k else to_int64 (k + Value out)) n (enumerate j outs) = n + sum_list (map Value outs)"
proof -
  have s: "0 \<le> sum_list (map Value outs)" if "list_all (\<lambda>out. 0 \<le> Value out) outs" for outs using that by (induction outs) simp_all
  show "foldl (\<lambda>k out. to_int64 (k + Value out)) n outs = n + sum_list (map Value outs)"
    using assms
  proof (induction outs arbitrary: n)
    case (Cons out outs)
    then have "to_int64 (n + Value out) = n + Value out" using s [of outs] by (intro to_int64_id) (simp_all add: MaxCoinAmount_def)
    then show ?case using Cons by simp
  qed simp
  show "foldl (\<lambda>k (i, out). if i \<in> set [] then k else to_int64 (k + Value out)) n (enumerate j outs) = n + sum_list (map Value outs)"
    using assms
  proof (induction outs arbitrary: n j)
    case (Cons out outs)
    then have "to_int64 (n + Value out) = n + Value out" using s [of outs] by (intro to_int64_id) (simp_all add: MaxCoinAmount_def)
    then show ?case using Cons by simp
  qed simp
qed

lemma CheckTransactionInputs_accepts:
  assumes "CheckTransactionInputs t height view maturity = Inr (fee, t')" "CheckTransactionSanity t = Inr ()" "\<not> IsCoinBaseTx t" "\<not> SwapTx t"
  shows "set (inputsOf t) \<subseteq> dom (live view)" "fee = inValue (live view) t - outValue t" "0 \<le> fee" "fee \<le> MaxCoinAmount"
    "\<exists>ins. t' = t\<lparr>TxIns := ins\<rparr> \<and> map (\<lambda>i. i\<lparr>Age := 0\<rparr>) ins = map (\<lambda>i. i\<lparr>Age := 0\<rparr>) (TxIns t)"
proof -
  note san = CheckTransactionSanity_accepts [OF assms(2)]
  obtain ins missed n where c: "checkInputs height maturity t view 0 (TxIns t) [] 0 = Inr (ins, missed, n)"
    using assms(1,3) by (auto simp: CheckTransactionInputs_def bindE_cases)
  have i: "missed = []" "set (inputsOf t) \<subseteq> dom (live view)" "n = inValue (live view) t" "n \<le> MaxCoinAmount"
      "map (\<lambda>i. i\<lparr>Age := 0\<rparr>) ins = map (\<lambda>i. i\<lparr>Age := 0\<rparr>) (TxIns t)"
    using checkInputs_plain [OF c assms(4)] by (simp_all add: MaxCoinAmount_def inputsOf_def inValue_def comp_def)
  have nn: "0 \<le> outValue t" using san(2) unfolding outValue_def by (intro sum_list_nonneg) (auto simp: list_all_iff)
  have o: "foldl (\<lambda>k (i, out). if i \<in> set missed then k else to_int64 (k + Value out)) 0 (enumerate 0 (TxOuts t)) = outValue t"
    using foldl_values(2) [of "TxOuts t" 0 0] san(2,3) unfolding i(1) by (simp add: outValue_def)
  have f: "outValue t \<le> n" "fee = to_int64 (n - outValue t)" "t' = t\<lparr>TxIns := ins\<rparr>"
    using assms(1,3,4) c unfolding CheckTransactionInputs_def by (simp_all add: o Let_def split: if_splits)
  have "to_int64 (n - outValue t) = n - outValue t" using f(1) i(4) nn by (intro to_int64_id) (simp_all add: MaxCoinAmount_def)
  with f i nn show "set (inputsOf t) \<subseteq> dom (live view)" "fee = inValue (live view) t - outValue t" "0 \<le> fee" "fee \<le> MaxCoinAmount"
    "\<exists>ins. t' = t\<lparr>TxIns := ins\<rparr> \<and> map (\<lambda>i. i\<lparr>Age := 0\<rparr>) ins = map (\<lambda>i. i\<lparr>Age := 0\<rparr>) (TxIns t)"
    by auto
qed

lemma supply_applyTx:
  assumes "finite (dom m)" "nonneg m" "list_all (\<lambda>out. 0 \<le> Value out) (TxOuts t)"
    and "IsCoinBaseTx t \<or> distinct (inputsOf t) \<and> set (inputsOf t) \<subseteq> dom m"
    and "set (inputsOf t) \<inter> outputsOf e (t # ts) = {} \<or> IsCoinBaseTx t"
    and "\<forall>p \<in> dom m. Hash p = txHash e t \<longrightarrow> p \<in> createdOutputs e t" "txHash e t \<notin> txHash e ` set ts"
  shows "coinSupply (applyTx e height t m |` (- outputsOf e ts)) \<le>
      coinSupply (m |` (- outputsOf e (t # ts))) + outValue t - (if IsCoinBaseTx t then 0 else inValue m t)"
    "finite (dom (applyTx e height t m))" "nonneg (applyTx e height t m)"
proof -
  let ?R = "outputsOf e ts" and ?T = "outputsOf e (t # ts)" and ?outs = "enumerate 0 (TxOuts t)"
  let ?ins = "if IsCoinBaseTx t then [] else inputsOf t"
  have o: "\<forall>(i, out) \<in> set ?outs. 0 \<le> Value out" using assms(3) by (auto simp: list_all_iff in_set_enumerate_eq)
  have C: "createdOutputs e t \<subseteq> - ?R" using assms(7) by (auto simp: outputsOf_def dest: createdOutputs_hash)
  have a: "applyTx e height t m = applyOutputs (txHash e t) (IsCoinBaseTx t) height ?outs (m |` (- set ?ins))"
    by (simp add: applyTx_def restrict_map_def)
  have "m |` (- set ?ins) |` (- ?R) |` (- createdOutputs e t) = m |` (- ?T) |` (- set ?ins)"
    using assms(6) by (auto simp: restrict_map_def fun_eq_iff outputsOf_def dest: createdOutputs_hash)
  then have e: "applyTx e height t m |` (- ?R) = applyOutputs (txHash e t) (IsCoinBaseTx t) height ?outs (m |` (- ?T) |` (- set ?ins))"
    unfolding a applyOutputs_restrict [OF C] using applyOutputs_overwrites by metis
  have s: "coinSupply (m |` (- ?T) |` (- set ?ins)) = coinSupply (m |` (- ?T)) - (if IsCoinBaseTx t then 0 else inValue m t)"
  proof (cases "IsCoinBaseTx t")
    case False
    then have "set (inputsOf t) \<subseteq> dom (m |` (- ?T))" "distinct (inputsOf t)" using assms(4,5) by auto
    then have "coinSupply (m |` (- ?T) |` (- set (inputsOf t))) = coinSupply (m |` (- ?T)) - sum_list (map (\<lambda>p. st_Amount (the ((m |` (- ?T)) p))) (inputsOf t))"
      using supply_spend [of "m |` (- ?T)" "inputsOf t"] assms(1) by simp
    moreover have "map (\<lambda>p. st_Amount (the ((m |` (- ?T)) p))) (inputsOf t) = map (\<lambda>p. st_Amount (the (m p))) (inputsOf t)"
      using assms(5) False by (intro map_cong) (auto simp: restrict_map_def)
    ultimately show ?thesis using False by (simp add: inValue_def)
  qed (simp add: restrict_map_def)
  show "coinSupply (applyTx e height t m |` (- ?R)) \<le> coinSupply (m |` (- ?T)) + outValue t - (if IsCoinBaseTx t then 0 else inValue m t)"
  proof -
    have "finite (dom (m |` (- ?T) |` (- set ?ins)))" "nonneg (m |` (- ?T) |` (- set ?ins))" using assms(1,2) by simp_all
    from supply_applyOutputs [OF this o, of "txHash e t" "IsCoinBaseTx t" height] show ?thesis
      unfolding e s sum_enumerate outValue_def by linarith
  qed
  show "finite (dom (applyTx e height t m))" "nonneg (applyTx e height t m)"
    using supply_applyOutputs [of "m |` (- set ?ins)", OF _ _ o] assms(1,2) unfolding a by auto
qed

section \<open>Blocks\<close>

text \<open>No transaction spends an output of itself or of a later one, and an output of a transaction of
  the block that is already in the view is one that the transaction creates.\<close>

fun ordered :: "env \<Rightarrow> MsgTx list \<Rightarrow> bool" where
  "ordered e [] = True"
| "ordered e (t # ts) \<longleftrightarrow> set (inputsOf t) \<inter> outputsOf e (t # ts) = {} \<and> ordered e ts"

definition known :: "env \<Rightarrow> (OutPoint \<rightharpoonup> SpentTxOut) \<Rightarrow> MsgTx list \<Rightarrow> bool" where
  "known e m ts \<longleftrightarrow> (\<forall>t \<in> set ts. \<forall>p \<in> dom m. Hash p = txHash e t \<longrightarrow> p \<in> createdOutputs e t)"

lemma known_applyTx:
  assumes "known e m (t # ts)" "txHash e t \<notin> txHash e ` set ts"
  shows "known e (applyTx e height t m) ts"
proof -
  have "p \<in> dom m" if "p \<in> dom (applyTx e height t m)" "Hash p \<noteq> txHash e t" for p
  proof -
    have "p \<notin> createdOutputs e t" using that(2) createdOutputs_hash by blast
    note applyOutputs_outside [of p "txHash e t" "enumerate 0 (TxOuts t)", unfolded createdOutputs_enumerate, OF this]
    then show ?thesis using that(1) by (auto simp: applyTx_def restrict_map_def split: if_splits)
  qed
  then show ?thesis using assms unfolding known_def by (metis image_eqI list.set_intros(2))
qed

lemma spendInputs_view:
  "spendInputs view ins stxos = Inr (view', stxos') \<Longrightarrow> \<exists>ss'. spendInputs view ins (Some ss) = Inr (view', Some ss')"
proof (induction ins arbitrary: view stxos ss)
  case (Cons i ins)
  then show ?case by (cases "LookupEntry view (PreviousOutPoint i)") (auto simp: record_stxo_def)
qed simp

lemma live_ConnectTransaction:
  assumes "ConnectTransaction e N rid view t height stxos = Inr (view', stxos')" "\<not> SwapTx t"
    and "IsCoinBaseTx t \<or> distinct (inputsOf t) \<and> set (inputsOf t) \<subseteq> dom (live view)"
  shows "live view' = applyTx e height t (live view)"
proof (cases "IsCoinBaseTx t")
  case True
  then show ?thesis using assms(1) by (auto simp: ConnectTransaction_def live_AddTxOuts applyTx_def)
next
  case False
  then obtain v v1 where c: "live v = live view" "spendInputs v (TxIns t) stxos = Inr (v1, stxos')"
      "disconnectEADAddresses N (AddTxOuts e v1 t height) stxos' = Inr view'"
    using assms(1,2) by (auto simp: ConnectTransaction_def bindE_cases dest: connectEAD_live split: if_splits)
  have "live v1 = live view |` (- set (inputsOf t))"
    using spendInputs_live [of "TxIns t" v "[]"] spendInputs_view [OF c(2), of "[]"] c(1) assms(3) False by (auto simp: inputsOf_def)
  then show ?thesis using disconnectEAD_live [OF c(3)] False by (simp add: live_AddTxOuts applyTx_def)
qed

lemma to_int64_overflow: "2 ^ 63 \<le> x \<Longrightarrow> x < 2 ^ 64 \<Longrightarrow> to_int64 x = x - 2 ^ 64"
proof -
  assume x: "2 ^ 63 \<le> x" "x < 2 ^ 64"
  then have "(x + 2 ^ 63 - 2 ^ 64) mod 2 ^ 64 = x + 2 ^ 63 - 2 ^ 64" by (intro mod_pos_pos_trivial) simp_all
  then have "(x + 2 ^ 63) mod 2 ^ 64 = x + 2 ^ 63 - 2 ^ 64" by (simp only: minus_mod_self2)
  then show ?thesis unfolding to_int64_def signed_take_bit_eq_take_bit_shift take_bit_eq_mod by simp
qed

lemma to_int64_sum:
  assumes "0 \<le> fees" "fees < 2 ^ 63" "0 \<le> fee" "fee \<le> MaxCoinAmount" "fees \<le> to_int64 (fees + fee)"
  shows "to_int64 (fees + fee) = fees + fee" "fees + fee < 2 ^ 63"
proof -
  show "fees + fee < 2 ^ 63"
  proof (rule ccontr)
    assume "\<not> ?thesis"
    then have "to_int64 (fees + fee) = fees + fee - 2 ^ 64" using assms by (intro to_int64_overflow) (simp_all add: MaxCoinAmount_def)
    then show False using assms by (simp add: MaxCoinAmount_def)
  qed
  then show "to_int64 (fees + fee) = fees + fee" using assms by (intro to_int64_id) simp_all
qed

lemma connectWithFees_supply:
  assumes "connectWithFees e N rid height maturity ts view stxos fees = Inr (ts', view', stxos', fees')"
    and "list_all (\<lambda>t. CheckTransactionSanity t = Inr () \<and> \<not> IsCoinBaseTx t \<and> \<not> SwapTx t) ts"
    and "ordered e ts" "known e (live view) ts" "distinct (map (txHash e) ts)" "finite (dom (live view))" "nonneg (live view)"
    and "0 \<le> fees" "fees < 2 ^ 63"
  shows "coinSupply (live view') + fees' \<le> coinSupply (live view |` (- outputsOf e ts)) + fees \<and> 0 \<le> fees' \<and> fees' < 2 ^ 63"
  using assms
proof (induction ts arbitrary: view stxos fees ts')
  case Nil
  then show ?case by (simp add: outputsOf_def restrict_map_def)
next
  case (Cons t ts)
  let ?m = "live view" and ?m' = "applyTx e height t (live view)"
  obtain fee t1 v s ts1 where c: "CheckTransactionInputs t height view maturity = Inr (fee, t1)" "fees \<le> to_int64 (fees + fee)"
      "ConnectTransaction e N rid view t1 height stxos = Inr (v, s)"
      "connectWithFees e N rid height maturity ts v s (to_int64 (fees + fee)) = Inr (ts1, view', stxos', fees')"
    using Cons.prems(1) by (auto simp: bindE_cases Let_def split: if_splits)
  have t: "CheckTransactionSanity t = Inr ()" "\<not> IsCoinBaseTx t" "\<not> SwapTx t" using Cons.prems(2) by simp_all
  note acc = CheckTransactionInputs_accepts [OF c(1) t] and san = CheckTransactionSanity_accepts [OF t(1)]
  obtain ins where t1: "t1 = t\<lparr>TxIns := ins\<rparr>" "map (\<lambda>i. i\<lparr>Age := 0\<rparr>) ins = map (\<lambda>i. i\<lparr>Age := 0\<rparr>) (TxIns t)" using acc(5) by blast
  note aged = aged_tx [OF t1(2), folded t1(1)]
  have m: "live v = ?m'" using live_ConnectTransaction [OF c(3)] acc(1) san(4) t(3) unfolding aged by simp
  note f = to_int64_sum [OF Cons.prems(8,9) acc(3,4) c(2)]
  have h: "txHash e t \<notin> txHash e ` set ts" using Cons.prems(5) by simp
  have st: "coinSupply (?m' |` (- outputsOf e ts)) \<le> coinSupply (?m |` (- outputsOf e (t # ts))) + outValue t - inValue ?m t"
      "finite (dom ?m')" "nonneg ?m'"
    using supply_applyTx [of ?m t e ts height, OF Cons.prems(6,7) san(2) _ _ _ h] Cons.prems(3,4) acc(1) san(4) t(2) by (simp_all add: known_def)
  have "coinSupply (live view') + fees' \<le> coinSupply (live v |` (- outputsOf e ts)) + (fees + fee) \<and> 0 \<le> fees' \<and> fees' < 2 ^ 63"
    using Cons.IH [OF c(4)] Cons.prems known_applyTx [OF Cons.prems(4) h] st(2,3) f acc(3) unfolding m f(1) by simp
  then show ?case using st(1) acc(2) unfolding m by linarith
qed

lemma reward_bound:
  assumes "- (2 ^ 63) \<le> reward" "reward < 2 ^ 63" "0 \<le> fees" "fees < 2 ^ 63" "0 \<le> v" "v \<le> to_int64 (reward + fees)"
  shows "v \<le> reward + fees"
proof (cases "reward + fees < 2 ^ 63")
  case True
  then show ?thesis using assms by simp
next
  case False
  then have "to_int64 (reward + fees) = reward + fees - 2 ^ 64" using assms by (intro to_int64_overflow) simp_all
  then show ?thesis using assms by simp
qed

text \<open>C4. Blocks do not inflate the supply: when the fee and coinbase checks of \<^verbatim>\<open>checkConnectBlock\<close> accept a block of sane
  transactions without swaps, the unspent outputs after it are worth at most those before it and
  the reward of the block, in spite of the \<^verbatim>\<open>int64\<close> sums. Outputs of the block's own transactions that
  were loaded into the view beforehand do not count as unspent before it.\<close>

theorem block_supply:
  assumes "checkConnectValue e N rid height maturity reward (cb # ts) view stxos = Inr (txns', view', stxos')"
    and "IsCoinBaseTx cb" "CheckTransactionSanity cb = Inr ()"
    and "list_all (\<lambda>t. CheckTransactionSanity t = Inr () \<and> \<not> IsCoinBaseTx t \<and> \<not> SwapTx t) ts"
    and "distinct (map (txHash e) (cb # ts))" "ordered e ts" "known e (live view) (cb # ts)"
    and "finite (dom (live view))" "nonneg (live view)" "- (2 ^ 63) \<le> reward" "reward < 2 ^ 63"
  shows "coinSupply (live view') \<le> coinSupply (live view |` (- outputsOf e (cb # ts))) + reward"
proof -
  let ?m = "applyTx e height cb (live view)"
  obtain v s ts' fees where c: "ConnectTransaction e N rid view cb height stxos = Inr (v, s)"
      "connectWithFees e N rid height maturity ts v s 0 = Inr (ts', view', stxos', fees)"
      "foldl (\<lambda>k out. to_int64 (k + Value out)) 0 (TxOuts cb) \<le> to_int64 (reward + fees)"
    using assms(1,2) by (auto simp: checkConnectValue_def CheckTransactionInputs_def bindE_cases Let_def getE_def split: if_splits)
  note san = CheckTransactionSanity_accepts [OF assms(3)]
  have nn: "0 \<le> outValue cb" using san(2) unfolding outValue_def by (intro sum_list_nonneg) (auto simp: list_all_iff)
  have out: "outValue cb \<le> to_int64 (reward + fees)" using c(3) foldl_values(1) [of "TxOuts cb" 0] san(2,3) by (simp add: outValue_def)
  have h: "txHash e cb \<notin> txHash e ` set ts" using assms(5) by simp
  have m: "live v = ?m" using c(1) assms(2) by (auto simp: ConnectTransaction_def live_AddTxOuts applyTx_def)
  have st: "coinSupply (?m |` (- outputsOf e ts)) \<le> coinSupply (live view |` (- outputsOf e (cb # ts))) + outValue cb"
      "finite (dom ?m)" "nonneg ?m"
    using supply_applyTx [of "live view" cb e ts height, OF assms(8,9) san(2) _ _ _ h] assms(2,7) by (simp_all add: known_def)
  have "coinSupply (live view') + fees \<le> coinSupply (live v |` (- outputsOf e ts)) + 0 \<and> 0 \<le> fees \<and> fees < 2 ^ 63"
    using c(2) assms(4,6) by (rule connectWithFees_supply)
      (use known_applyTx [OF assms(7) h] assms(5) st(2,3) in \<open>simp_all add: m\<close>)
  then show ?thesis using st(1) reward_bound [OF assms(10,11) _ _ nn out] unfolding m by linarith
qed

text \<open>An environment whose transaction hashes depend on the length of the serialised transaction.\<close>

definition lengthEnv :: env where
  "lengthEnv = zeroKeyEnv\<lparr>sha256 := (\<lambda>b. if length b = 32 then b else replicate 31 0 @ [of_nat (length b)])\<rparr>"

definition coinbaseOf :: "int \<Rightarrow> MsgTx" where
  "coinbaseOf v = \<lparr>Version = 1, TxIns = [NewTxIn \<lparr>Hash = replicate 32 0, Index = 0xffffffff\<rparr> [1, 7] []], TxOuts = [\<lparr>Value = v, PkScript = [OP_1]\<rparr>], LockTime = 0\<rparr>"

definition spendOf :: MsgTx where
  "spendOf = \<lparr>Version = 1, TxIns = [NewTxIn \<lparr>Hash = replicate 32 1, Index = 0\<rparr> [] []],
     TxOuts = [\<lparr>Value = 0, PkScript = [OP_RETURN]\<rparr>, \<lparr>Value = 40, PkScript = [OP_1]\<rparr>], LockTime = 0\<rparr>"

lemma block_supply_sample:
  "case checkConnectValue lengthEnv noNet (\<lambda>k. 0) 107 100 30 [coinbaseOf 40, spendOf] sampleViewpoint None of
     Inr (ts, view, stxos) \<Rightarrow> stxos = None \<and> LookupEntry view \<lparr>Hash = replicate 31 0 @ [63], Index = 0\<rparr> \<noteq> None | Inl err \<Rightarrow> False"
  by code_simp

lemma sample_sanity: "CheckTransactionSanity (coinbaseOf 40) = Inr ()" "CheckTransactionSanity spendOf = Inr ()"
  by (simp_all add: CheckTransactionSanity_def coinbaseOf_def spendOf_def SwapTx_def SerializeSizeStripped_def baseSize_def
      TxIn_SerializeSize_def TxOut_SerializeSize_def VarIntSerializeSize_def NewTxIn_def MaxBlockBaseSize_def MaxCoinAmount_def Let_def
      IsCoinBaseTx_def MinCoinbaseScriptLen_def MaxCoinbaseScriptLen_def isNullOutpoint_def)

lemma sample_hashes: "txHash lengthEnv (coinbaseOf 40) = replicate 31 0 @ [63]" "txHash lengthEnv spendOf = replicate 31 0 @ [71]"
  by code_simp+

theorem block_supply_witness:
  "\<exists>ts view stxos. checkConnectValue lengthEnv noNet (\<lambda>k. 0) 107 100 30 [coinbaseOf 40, spendOf] sampleViewpoint None = Inr (ts, view, stxos) \<and>
    coinSupply (live view) \<le> 50 + 30"
proof -
  obtain ts view stxos where c: "checkConnectValue lengthEnv noNet (\<lambda>k. 0) 107 100 30 [coinbaseOf 40, spendOf] sampleViewpoint None = Inr (ts, view, stxos)"
    using block_supply_sample by (auto split: sum.splits)
  have cb: "IsCoinBaseTx (coinbaseOf 40)" by (simp add: IsCoinBaseTx_def coinbaseOf_def NewTxIn_def)
  have t: "\<not> IsCoinBaseTx spendOf" "\<not> SwapTx spendOf" "inputsOf spendOf = [\<lparr>Hash = replicate 32 1, Index = 0\<rparr>]"
    by (simp_all add: IsCoinBaseTx_def spendOf_def NewTxIn_def SwapTx_def inputsOf_def)
  have n: "replicate 32 1 \<noteq> replicate 31 0 @ [63 :: u8]" "replicate 32 1 \<noteq> replicate 31 0 @ [71 :: u8]" by (simp_all add: eval_nat_numeral)
  have k: "known lengthEnv (live sampleViewpoint) [coinbaseOf 40, spendOf]" "ordered lengthEnv [spendOf]"
      "live sampleViewpoint |` (- outputsOf lengthEnv [coinbaseOf 40, spendOf]) = live sampleViewpoint"
      "distinct (map (txHash lengthEnv) [coinbaseOf 40, spendOf])"
    using n by (simp_all add: known_def sample_live sample_hashes t(3) outputsOf_def restrict_map_def fun_eq_iff)
  have l: "finite (dom (live sampleViewpoint))" "nonneg (live sampleViewpoint)" "coinSupply (live sampleViewpoint) = 50"
    by (simp_all add: sample_live nonneg_def coinSupply_def)
  from block_supply [OF c cb sample_sanity(1) _ k(4,2,1) l(1,2)] c l(3) sample_sanity(2) t(1,2) show ?thesis unfolding k(3) by auto
qed

text \<open>A swap of an output of this chain, worth 10, against one of another shard, worth 1000, and a transaction that spends the
  second output of the swap.\<close>

definition swapOf :: MsgTx where
  "swapOf = \<lparr>Version = 4, TxIns = [NewTxIn \<lparr>Hash = replicate 32 1, Index = 0\<rparr> [] [], NewTxIn \<lparr>Hash = replicate 32 2, Index = 0\<rparr> [] []],
     TxOuts = [\<lparr>Value = 10, PkScript = [OP_1]\<rparr>, \<lparr>Value = 1000, PkScript = [OP_1]\<rparr>], LockTime = 0\<rparr>"

definition spendForeign :: MsgTx where
  "spendForeign = \<lparr>Version = 1, TxIns = [NewTxIn \<lparr>Hash = replicate 31 0 @ [112], Index = 1\<rparr> [] []],
     TxOuts = [\<lparr>Value = 1000, PkScript = [OP_1]\<rparr>], LockTime = 0\<rparr>"

definition swapMintBlock :: Block where
  "swapMintBlock = \<lparr>bl_hash = replicate 32 9, bl_height = 107, bl_txs = [coinbaseOf 30, swapOf, spendForeign]\<rparr>"

definition oneOutput :: "OutPoint \<Rightarrow> UtxoEntry option store_result" where
  "oneOutput p = Inr (if p = \<lparr>Hash = replicate 32 1, Index = 0\<rparr> then
     Some \<lparr>u_amount = 10, u_pkScript = [OP_1], u_blockHeight = 7, u_packedFlags = 0\<rparr> else None)"

lemma swap_mint_sanity: "CheckTransactionSanity (coinbaseOf 30) = Inr ()" "CheckTransactionSanity swapOf = Inr ()" "CheckTransactionSanity spendForeign = Inr ()"
  by (simp_all add: CheckTransactionSanity_def coinbaseOf_def swapOf_def spendForeign_def SwapTx_def ValidateSwapTxStructure_def SerializeSizeStripped_def
      baseSize_def TxIn_SerializeSize_def TxOut_SerializeSize_def VarIntSerializeSize_def NewTxIn_def MaxBlockBaseSize_def MaxCoinAmount_def Let_def
      IsCoinBaseTx_def MinCoinbaseScriptLen_def MaxCoinbaseScriptLen_def isNullOutpoint_def)

lemma swap_mint_connects:
  "case FetchInputUtxos lengthEnv oneOutput (Inr Map.empty) swapMintBlock (NewUtxoViewpoint False) of
     Inr view \<Rightarrow> sigOpCosts view True True 0 (bl_txs swapMintBlock) 0 = Inr () \<and>
       (case checkConnectValue lengthEnv noNet (\<lambda>k. 0) 107 100 30 (bl_txs swapMintBlock) view None of
          Inr (ts, view', stxos) \<Rightarrow> LookupEntry view' \<lparr>Hash = txHash lengthEnv spendForeign, Index = 0\<rparr> =
            Some \<lparr>u_amount = 1000, u_pkScript = [OP_1], u_blockHeight = 107, u_packedFlags = 4\<rparr>
        | Inl err \<Rightarrow> False)
   | Inl err \<Rightarrow> False"
  by code_simp


end
