(* ===== verification/Merkle.thy ===== *)
theory Merkle
  imports TxRules
begin

text \<open>
  Merkle trees of transactions (\<^verbatim>\<open>types/chainhash/merkle_tree.go\<close>, \<^verbatim>\<open>node/chaindata/merkle.go\<close>) and the commitment to the
  witnesses of a block. A tree is stored in one array whose missing nodes are nil, \<open>None\<close> here; the
  loop that fills it is a fold over the positions of the parents. \<^verbatim>\<open>NextPowerOfTwo\<close> computes a logarithm in
  floating point, which is exact for the lengths of slices below 2^47. The lemmas relate the array,
  the proof for the coinbase and the validation of the proof to the levels of the tree.
\<close>

section \<open>Trees\<close>

definition HashMerkleBranches :: "env \<Rightarrow> bytes \<Rightarrow> bytes \<Rightarrow> bytes" where
  "HashMerkleBranches e left right = DoubleHashB e (left @ right)"

fun floorLog2 :: "nat \<Rightarrow> nat" where
  "floorLog2 n = (if n \<le> 1 then 0 else Suc (floorLog2 (n div 2)))"

declare floorLog2.simps [simp del]

definition NextPowerOfTwo :: "nat \<Rightarrow> nat" where
  "NextPowerOfTwo n = (if n = 0 \<or> n AND (n - 1) = 0 then n else 2 ^ (floorLog2 n + 1))"

definition parentNode :: "env \<Rightarrow> bytes option \<Rightarrow> bytes option \<Rightarrow> bytes option" where
  "parentNode e left right =
     (case (left, right) of
        (None, _) \<Rightarrow> None
      | (Some l, None) \<Rightarrow> Some (HashMerkleBranches e l l)
      | (Some l, Some r) \<Rightarrow> Some (HashMerkleBranches e l r))"

definition fillTree :: "env \<Rightarrow> nat \<Rightarrow> nat \<Rightarrow> bytes option list \<Rightarrow> bytes option list" where
  "fillTree e nextPoT n merkles =
     foldl (\<lambda>merkles k. merkles[nextPoT + k := parentNode e (merkles ! (2 * k)) (merkles ! (2 * k + 1))]) merkles [0..<n]"

text \<open>The array of an empty tree would have length -1.\<close>

definition BuildMerkleTreeStore :: "env \<Rightarrow> bytes list \<Rightarrow> bytes option list view_result" where
  "BuildMerkleTreeStore e txHashes =
     (let nextPoT = NextPowerOfTwo (length txHashes)
      in if nextPoT = 0 then Inl Panic
         else Inr (fillTree e nextPoT (nextPoT - 1) (map Some txHashes @ replicate (nextPoT * 2 - 1 - length txHashes) None)))"

definition MerkleTreeRoot :: "env \<Rightarrow> bytes list \<Rightarrow> bytes view_result" where
  "MerkleTreeRoot e txHashes =
     bindE (BuildMerkleTreeStore e txHashes) (\<lambda>tree. case last tree of Some root \<Rightarrow> Inr root | None \<Rightarrow> Inl Panic)"

definition ValidateMerkleTreeRoot :: "env \<Rightarrow> bytes list \<Rightarrow> bytes \<Rightarrow> bool view_result" where
  "ValidateMerkleTreeRoot e txHashes expectedRoot =
     bindE (BuildMerkleTreeStore e txHashes) (\<lambda>tree. Inr (last tree = Some expectedRoot))"

text \<open>One round of \<^verbatim>\<open>BuildCoinbaseMerkleTreeProof\<close>: the pairs from position 2 on, after a zero hash.\<close>

definition proofRound :: "env \<Rightarrow> bytes list \<Rightarrow> bytes list" where
  "proofRound e hashes =
     (let n = length hashes;
          hashes = (if n mod 2 \<noteq> 0 then hashes @ [last hashes] else hashes)
      in replicate 32 0 # map (\<lambda>i. HashMerkleBranches e (hashes ! (2 + 2 * i)) (hashes ! (2 + 2 * i + 1))) [0..<(n - 1) div 2])"

lemma length_proofRound: "length (proofRound e hashes) = Suc ((length hashes - 1) div 2)"
  by (simp add: proofRound_def Let_def)

function BuildCoinbaseMerkleTreeProof :: "env \<Rightarrow> bytes list \<Rightarrow> bytes list" where
  "BuildCoinbaseMerkleTreeProof e hashes =
     (if length hashes > 1 then (hashes ! 1) # BuildCoinbaseMerkleTreeProof e (proofRound e hashes) else [])"
  by pat_completeness auto
termination by (relation "measure (\<lambda>(e, hashes). length hashes)") (auto simp: length_proofRound)

declare BuildCoinbaseMerkleTreeProof.simps [simp del]

definition CoinbaseMerkleTreeProofRoot :: "env \<Rightarrow> bytes \<Rightarrow> bytes list \<Rightarrow> bytes" where
  "CoinbaseMerkleTreeProofRoot e h proof = foldl (HashMerkleBranches e) h proof"

definition ValidateCoinbaseMerkleTreeProof :: "env \<Rightarrow> bytes \<Rightarrow> bytes list \<Rightarrow> bytes \<Rightarrow> bool" where
  "ValidateCoinbaseMerkleTreeProof e h proof expectedRoot \<longleftrightarrow> foldl (HashMerkleBranches e) h proof = expectedRoot"

section \<open>Transactions of a block\<close>

definition CollectTxHashes :: "env \<Rightarrow> MsgTx list \<Rightarrow> bool \<Rightarrow> bytes list" where
  "CollectTxHashes e transactions witness =
     map (\<lambda>(i, t). if witness \<and> i = 0 then replicate 32 0
                   else if witness then WitnessHash (DoubleHashB e) t else txHash e t) (enumerate 0 transactions)"

definition BuildTxMerkleTree :: "env \<Rightarrow> MsgTx list \<Rightarrow> bool \<Rightarrow> bytes option list view_result" where
  "BuildTxMerkleTree e transactions witness = BuildMerkleTreeStore e (CollectTxHashes e transactions witness)"

definition WitnessMagicBytes :: bytes where
  "WitnessMagicBytes = [OP_RETURN, 0x24, 0xaa, 0x21, 0xa9, 0xed]"

definition CoinbaseWitnessDataLen :: nat where "CoinbaseWitnessDataLen = 32"
definition CoinbaseWitnessPkScriptLength :: nat where "CoinbaseWitnessPkScriptLength = 38"

definition ExtractWitnessCommitment :: "MsgTx \<Rightarrow> bytes option" where
  "ExtractWitnessCommitment t =
     (if \<not> IsCoinBaseTx t then None
      else
        map_option (\<lambda>out. take (CoinbaseWitnessPkScriptLength - length WitnessMagicBytes) (drop (length WitnessMagicBytes) (PkScript out)))
          (List.find (\<lambda>out. length (PkScript out) \<ge> CoinbaseWitnessPkScriptLength \<and>
              take (length WitnessMagicBytes) (PkScript out) = WitnessMagicBytes) (rev (TxOuts t))))"

definition ValidateWitnessCommitment :: "env \<Rightarrow> MsgTx list \<Rightarrow> unit view_result" where
  "ValidateWitnessCommitment e transactions =
     (case transactions of
        [] \<Rightarrow> ruleError ErrNoTransactions
      | coinbaseTx # _ \<Rightarrow>
          (case TxIns coinbaseTx of
             [] \<Rightarrow> ruleError ErrNoTxInputs
           | txIn # _ \<Rightarrow>
               (case ExtractWitnessCommitment coinbaseTx of
                  None \<Rightarrow> if list_ex HasWitness transactions then ruleError ErrUnexpectedWitness else Inr ()
                | Some witnessCommitment \<Rightarrow>
                    if length (Witness txIn) \<noteq> 1 then ruleError ErrInvalidWitnessCommitment
                    else if length (Witness txIn ! 0) \<noteq> CoinbaseWitnessDataLen then ruleError ErrInvalidWitnessCommitment
                    else
                      bindE (BuildTxMerkleTree e transactions True) (\<lambda>tree.
                        case last tree of
                          None \<Rightarrow> Inl Panic
                        | Some root \<Rightarrow>
                            if DoubleHashB e (root @ Witness txIn ! 0) \<noteq> witnessCommitment then ruleError ErrWitnessCommitmentMismatch
                            else Inr ()))))"

section \<open>Levels\<close>

text \<open>The level above a level of hashes, the last hash of an odd level paired with itself.\<close>

fun levelUp :: "env \<Rightarrow> bytes list \<Rightarrow> bytes list" where
  "levelUp e (l # r # hs) = HashMerkleBranches e l r # levelUp e hs"
| "levelUp e [l] = [HashMerkleBranches e l l]"
| "levelUp e [] = []"

lemma length_levelUp [simp]: "length (levelUp e hs) = (length hs + 1) div 2"
  by (induction e hs rule: levelUp.induct) simp_all

function merkleRoot :: "env \<Rightarrow> bytes list \<Rightarrow> bytes" where
  "merkleRoot e hs = (if length hs > 1 then merkleRoot e (levelUp e hs) else hd hs)"
  by pat_completeness auto
termination by (relation "measure (\<lambda>(e, hs). length hs)") auto

declare merkleRoot.simps [simp del]

lemma levelUp_nth:
  "j < (length hs + 1) div 2 \<Longrightarrow>
   levelUp e hs ! j = HashMerkleBranches e ((hs @ [last hs]) ! (2 * j)) ((hs @ [last hs]) ! (2 * j + 1))"
proof (induction e hs arbitrary: j rule: levelUp.induct)
  case (1 e l r hs)
  show ?case
  proof (cases j)
    case (Suc i)
    then have "i < (length hs + 1) div 2" using 1(2) by simp
    moreover from this have "hs \<noteq> []" by auto
    ultimately show ?thesis using 1(1) [of i] Suc by simp
  qed simp
qed simp_all

lemma levelUp_nonempty [simp]: "levelUp e hs = [] \<longleftrightarrow> hs = []"
  by (cases "(e, hs)" rule: levelUp.cases) simp_all

lemma hd_levelUp: "length hs > 1 \<Longrightarrow> hd (levelUp e hs) = HashMerkleBranches e (hd hs) (hs ! 1)"
  by (cases "(e, hs)" rule: levelUp.cases) simp_all

lemma proofRound_levelUp:
  assumes "length hs > 1"
  shows "proofRound e (x # tl hs) = replicate 32 0 # tl (levelUp e hs)"
proof -
  let ?h = "x # tl hs"
  have t: "tl hs \<noteq> []" "length ?h = length hs" using assms by (cases hs; auto)+
  define g where "g = (if length ?h mod 2 \<noteq> 0 then ?h @ [last ?h] else ?h)"
  have nth: "g ! j = (hs @ [last hs]) ! j" if "0 < j" "j < length g" for j
    using that t assms unfolding g_def by (cases hs; cases j) (auto simp: nth_append)
  have "tl (levelUp e hs) = map (\<lambda>i. HashMerkleBranches e (g ! (2 + 2 * i)) (g ! (2 + 2 * i + 1))) [0..<(length hs - 1) div 2]"
  proof (rule nth_equalityI)
    fix i assume "i < length (tl (levelUp e hs))"
    then have i: "Suc i < (length hs + 1) div 2" by simp
    then have n: "i < (length hs - 1) div 2" by linarith
    have "2 + 2 * i + 1 < length hs + length hs mod 2" using i by presburger
    then have "2 + 2 * i + 1 < length g" using t(2) by (cases "length hs mod 2 = 0") (auto simp: g_def)
    then show "tl (levelUp e hs) ! i = map (\<lambda>i. HashMerkleBranches e (g ! (2 + 2 * i)) (g ! (2 + 2 * i + 1))) [0..<(length hs - 1) div 2] ! i"
      using i nth [of "2 + 2 * i"] nth [of "2 + 2 * i + 1"] levelUp_nth [OF i, of e] n by (simp add: nth_tl)
  qed simp
  then show ?thesis using t(2) unfolding proofRound_def Let_def g_def by simp
qed

lemma proof_root: "hs \<noteq> [] \<Longrightarrow> foldl (HashMerkleBranches e) (hd hs) (BuildCoinbaseMerkleTreeProof e (x # tl hs)) = merkleRoot e hs"
proof (induction e hs arbitrary: x rule: merkleRoot.induct)
  case (1 e hs)
  show ?case
  proof (cases "length hs > 1")
    case True
    then have l: "length (x # tl hs) > 1" "(x # tl hs) ! 1 = hs ! 1" by (cases hs; auto simp: nth_tl)+
    have "BuildCoinbaseMerkleTreeProof e (x # tl hs) = hs ! 1 # BuildCoinbaseMerkleTreeProof e (replicate 32 0 # tl (levelUp e hs))"
      using l proofRound_levelUp [OF True, of e x] by (subst BuildCoinbaseMerkleTreeProof.simps) simp
    then show ?thesis using 1(1) [OF True, of "replicate 32 0"] 1(2) hd_levelUp [OF True, of e] True
      by (simp add: merkleRoot.simps [of e hs])
  next
    case False
    then have "hs = [hd hs]" using 1(2) by (cases hs) auto
    then show ?thesis using False by (metis BuildCoinbaseMerkleTreeProof.simps foldl_Nil length_Cons length_tl list.sel(3) merkleRoot.simps list.size(3))
  qed
qed

section \<open>The array\<close>

lemma and_pred_power: "0 < n \<Longrightarrow> n AND (n - 1) = 0 \<Longrightarrow> \<exists>k. n = (2 :: nat) ^ k"
proof (induction n rule: less_induct)
  case (less n)
  show ?case
  proof (cases "even n")
    case True
    then obtain m where m: "n = 2 * m" by (rule evenE)
    then have "(n - 1) div 2 = m - 1" "n div 2 = m" using less.prems(1) by auto
    then have "m AND (m - 1) = 0" using less.prems and_nat_unfold [of n "n - 1"] m by (auto split: if_splits)
    then obtain k where "m = 2 ^ k" using less.IH [of m] less.prems m by auto
    then show ?thesis using m by (intro exI [of _ "Suc k"]) simp
  next
    case False
    then obtain m where m: "n = Suc (2 * m)" by (metis oddE Suc_eq_plus1)
    have "n AND (n - 1) = 2 * (m AND m)" by (simp add: m and_nat_unfold [of "Suc (2 * m)"])
    then have "m = 0" using less.prems by simp
    then show ?thesis using m by (intro exI [of _ 0]) simp
  qed
qed

lemma floorLog2_bounds: "0 < n \<Longrightarrow> 2 ^ floorLog2 n \<le> n \<and> n < 2 ^ Suc (floorLog2 n)"
proof (induction n rule: floorLog2.induct)
  case (1 n)
  then show ?case by (cases "n \<le> 1") (auto simp: floorLog2.simps [of n])
qed

lemma NextPowerOfTwo_power:
  assumes "0 < n"
  obtains k where "NextPowerOfTwo n = 2 ^ k" "n \<le> 2 ^ k" "2 ^ k < 2 * n"
proof (cases "n AND (n - 1) = 0")
  case True
  then obtain k where "n = 2 ^ k" using and_pred_power assms by blast
  then show ?thesis using that [of k] True assms by (simp add: NextPowerOfTwo_def)
next
  case False
  then have "NextPowerOfTwo n = 2 ^ Suc (floorLog2 n)" "2 ^ Suc (floorLog2 n) \<noteq> 2 * n \<or> n = 2 ^ floorLog2 n" using assms by (simp_all add: NextPowerOfTwo_def)
  moreover have "n \<noteq> 2 ^ floorLog2 n"
  proof
    assume n: "n = 2 ^ floorLog2 n"
    have "2 ^ k AND (2 ^ k - 1) = (0 :: nat)" for k
      using take_bit_eq_mask [of k "2 ^ k :: nat"] by (simp only: mask_eq_exp_minus_1) (simp add: take_bit_eq_mod)
    then show False using False n by metis
  qed
  ultimately show ?thesis using that [of "Suc (floorLog2 n)"] floorLog2_bounds [OF assms] by simp
qed

lemma fillTree_nodes:
  assumes "length merkles = 2 * P - 1" "n \<le> P - 1"
  shows "length (fillTree e P n merkles) = 2 * P - 1" "i < P \<Longrightarrow> fillTree e P n merkles ! i = merkles ! i"
    "k < n \<Longrightarrow> fillTree e P n merkles ! (P + k) = parentNode e (fillTree e P n merkles ! (2 * k)) (fillTree e P n merkles ! (2 * k + 1))"
proof -
  have "length (fillTree e P n merkles) = 2 * P - 1 \<and> (\<forall>i < P. fillTree e P n merkles ! i = merkles ! i) \<and>
    (\<forall>k < n. fillTree e P n merkles ! (P + k) = parentNode e (fillTree e P n merkles ! (2 * k)) (fillTree e P n merkles ! (2 * k + 1)))"
    using assms
  proof (induction n)
    case (Suc n)
    let ?A = "fillTree e P n merkles"
    have s: "fillTree e P (Suc n) merkles = ?A[P + n := parentNode e (?A ! (2 * n)) (?A ! (2 * n + 1))]" by (simp add: fillTree_def)
    show ?case unfolding s using Suc by (auto simp: nth_list_update less_Suc_eq)
  qed (simp add: fillTree_def)
  then show "length (fillTree e P n merkles) = 2 * P - 1" "i < P \<Longrightarrow> fillTree e P n merkles ! i = merkles ! i"
    "k < n \<Longrightarrow> fillTree e P n merkles ! (P + k) = parentNode e (fillTree e P n merkles ! (2 * k)) (fillTree e P n merkles ! (2 * k + 1))"
    by blast+
qed

fun nodesUp :: "env \<Rightarrow> bytes option list \<Rightarrow> bytes option list" where
  "nodesUp e (l # r # ns) = parentNode e l r # nodesUp e ns"
| "nodesUp e ns = []"

lemma length_nodesUp [simp]: "length (nodesUp e ns) = length ns div 2"
  by (induction e ns rule: nodesUp.induct) simp_all

lemma nodesUp_nth: "j < length ns div 2 \<Longrightarrow> nodesUp e ns ! j = parentNode e (ns ! (2 * j)) (ns ! (2 * j + 1))"
proof (induction e ns arbitrary: j rule: nodesUp.induct)
  case (1 e l r ns)
  then show ?case by (cases j) simp_all
qed simp_all

lemma nodesUp_levelUp:
  assumes "even (length hs + m)"
  shows "nodesUp e (map Some hs @ replicate m None) = map Some (levelUp e hs) @ replicate ((length hs + m) div 2 - (length hs + 1) div 2) None"
proof -
  have none: "nodesUp e (replicate m None) = replicate (m div 2) None" for e m
  proof (induction m rule: less_induct)
    case (less m)
    show ?case
    proof (cases "m < 2")
      case False
      then obtain k where "m = Suc (Suc k)" by (metis add_2_eq_Suc le_Suc_ex not_less)
      then show ?thesis using less.IH [of k] by (simp add: parentNode_def)
    qed (auto simp: less_2_cases_iff)
  qed
  show ?thesis using assms
  proof (induction e hs rule: levelUp.induct)
    case (2 e l)
    then obtain k where "m = Suc k" by (cases m) auto
    then show ?case using none [of e k] 2 by (simp add: parentNode_def)
  qed (simp_all add: parentNode_def none)
qed

lemma tree_levels:
  assumes "length A = 2 * 2 ^ k - 1" "\<forall>j < 2 ^ k - 1. A ! (2 ^ k + j) = parentNode e (A ! (2 * j)) (A ! (2 * j + 1))" "d \<le> k"
  shows "take (2 ^ (k - d)) (drop (2 * 2 ^ k - 2 * 2 ^ (k - d)) A) = (nodesUp e ^^ d) (take (2 ^ k) A)"
  using assms(3)
proof (induction d)
  case (Suc d)
  let ?w = "2 ^ (k - Suc d) :: nat" and ?S = "2 * 2 ^ k - 2 * 2 ^ (k - d) :: nat" and ?S' = "2 * 2 ^ k - 2 * 2 ^ (k - Suc d) :: nat"
  have w: "2 ^ (k - d) = 2 * ?w" using Suc.prems by (simp add: Suc_diff_Suc [symmetric])
  have le: "2 * ?w \<le> 2 ^ k" using w by (metis diff_le_self one_le_numeral power_increasing)
  let ?L = "take (2 * ?w) (drop ?S A)"
  have L: "?L = (nodesUp e ^^ d) (take (2 ^ k) A)" using Suc w by simp
  have pos: "1 \<le> ?w" by simp
  have len: "length ?L = 2 * ?w" "length (take ?w (drop ?S' A)) = ?w" using le pos assms(1) by (simp_all only: w length_take length_drop min_def) auto
  have "take ?w (drop ?S' A) = nodesUp e ?L"
  proof (rule nth_equalityI)
    show "length (take ?w (drop ?S' A)) = length (nodesUp e ?L)" using len by simp
    fix j assume "j < length (take ?w (drop ?S' A))"
    then have j: "j < ?w" using len by simp
    have i: "?S' + j = 2 ^ k + (2 ^ k - 2 * ?w + j)" "2 * (2 ^ k - 2 * ?w + j) = ?S + 2 * j" "2 ^ k - 2 * ?w + j < 2 ^ k - 1"
      using le j by (simp_all add: w)
    have "A ! (?S' + j) = parentNode e (A ! (?S + 2 * j)) (A ! (?S + 2 * j + 1))" using assms(2) i by metis
    moreover have "?S' + j < length A" "?S + 2 * j + 1 < length A" using assms(1) le j by (simp_all add: w)
    moreover from this have "take ?w (drop ?S' A) ! j = A ! (?S' + j)" "?L ! (2 * j) = A ! (?S + 2 * j)" "?L ! (2 * j + 1) = A ! (?S + 2 * j + 1)"
      using j by (simp_all add: add.assoc)
    ultimately show "take ?w (drop ?S' A) ! j = nodesUp e ?L ! j" using j nodesUp_nth [of j ?L e] len by simp
  qed
  then show ?case using L by simp
qed simp

lemma nodesUp_iter:
  assumes "hs \<noteq> []" "length hs \<le> 2 ^ k"
  shows "(nodesUp e ^^ k) (map Some hs @ replicate (2 ^ k - length hs) None) = [Some (hd ((levelUp e ^^ k) hs))]"
  using assms
proof (induction k arbitrary: hs)
  case 0
  then show ?case by (cases hs) auto
next
  case (Suc k)
  then have le: "length (levelUp e hs) \<le> 2 ^ k" by simp
  have "nodesUp e (map Some hs @ replicate (2 ^ Suc k - length hs) None) = map Some (levelUp e hs) @ replicate (2 ^ k - length (levelUp e hs)) None"
    using nodesUp_levelUp [of hs "2 ^ Suc k - length hs" e] Suc.prems by simp
  then show ?case using Suc.IH [of "levelUp e hs"] Suc.prems le by (simp add: funpow_Suc_right del: funpow.simps)
qed

lemma merkleRoot_step: "length hs > 1 \<Longrightarrow> merkleRoot e hs = merkleRoot e (levelUp e hs)"
  by (subst merkleRoot.simps) simp

lemma merkleRoot_single: "length hs \<le> 1 \<Longrightarrow> merkleRoot e hs = hd hs"
  by (subst merkleRoot.simps) simp

lemma merkleRoot_iter: "length hs \<le> 2 ^ k \<Longrightarrow> 2 ^ k < 2 * length hs \<Longrightarrow> hd ((levelUp e ^^ k) hs) = merkleRoot e hs"
proof (induction k arbitrary: hs)
  case 0
  then show ?case by (simp add: merkleRoot_single)
next
  case (Suc k)
  have "1 \<le> (2 :: nat) ^ k" by simp
  then have "length hs > 1" using Suc.prems(2) unfolding power_Suc by linarith
  moreover have "length (levelUp e hs) \<le> 2 ^ k" "2 ^ k < 2 * length (levelUp e hs)" using Suc.prems by simp_all
  then have "hd ((levelUp e ^^ k) (levelUp e hs)) = merkleRoot e (levelUp e hs)" by (rule Suc.IH)
  ultimately show ?case by (simp only: merkleRoot_step funpow_Suc_right o_apply)
qed

lemma last_tree:
  assumes "hs \<noteq> []"
  obtains A where "BuildMerkleTreeStore e hs = Inr A" "last A = Some (merkleRoot e hs)"
proof -
  obtain k where k: "NextPowerOfTwo (length hs) = 2 ^ k" "length hs \<le> 2 ^ k" "2 ^ k < 2 * length hs"
    using NextPowerOfTwo_power [of "length hs"] assms by auto
  define P :: nat where "P = 2 ^ k"
  define I where "I = map Some hs @ replicate (2 * P - 1 - length hs) (None :: bytes option)"
  define A where "A = fillTree e P (P - 1) I"
  have P: "1 \<le> P" "length hs \<le> P" using k(2) by (simp_all add: P_def)
  have I: "length I = 2 * P - 1" using P by (simp add: I_def)
  have A: "length A = 2 * P - 1" unfolding A_def by (rule fillTree_nodes(1) [OF I order_refl])
  have "take P A = take P I"
  proof (rule nth_equalityI)
    fix i assume "i < length (take P A)"
    then show "take P A ! i = take P I ! i" using fillTree_nodes(2) [OF I order_refl, of i e] by (simp add: A_def)
  qed (simp add: A I)
  also have "\<dots> = map Some hs @ replicate (min (P - length hs) (2 * P - 1 - length hs)) None"
    using P(2) by (simp add: I_def)
  also have "min (P - length hs) (2 * P - 1 - length hs) = P - length hs" using P(1) by linarith
  finally have leaves: "take P A = map Some hs @ replicate (P - length hs) None" .
  have "A ! (P + j) = parentNode e (A ! (2 * j)) (A ! (2 * j + 1))" if "j < P - 1" for j
    unfolding A_def by (rule fillTree_nodes(3) [OF I order_refl that])
  then have nodes: "\<forall>j < 2 ^ k - 1. A ! (2 ^ k + j) = parentNode e (A ! (2 * j)) (A ! (2 * j + 1))" unfolding P_def by blast
  have "take 1 (drop (2 * P - 2) A) = (nodesUp e ^^ k) (take P A)"
    using tree_levels [OF A [unfolded P_def] nodes order_refl] by (simp only: P_def diff_self_eq_0 power_0 mult_1_right)
  also have "\<dots> = [Some (merkleRoot e hs)]"
    unfolding leaves unfolding P_def nodesUp_iter [OF assms k(2)] merkleRoot_iter [OF k(2,3)] by (rule refl)
  finally have "take 1 (drop (2 * P - 2) A) = [Some (merkleRoot e hs)]" .
  moreover have "drop (2 * P - 2) A = [last A]"
  proof -
    have "A \<noteq> []" "2 * P - 2 = length (butlast A)" using A P by auto
    then show ?thesis by (metis append_butlast_last_id append_eq_conv_conj)
  qed
  ultimately have "last A = Some (merkleRoot e hs)" by simp
  moreover have "BuildMerkleTreeStore e hs = Inr A" using k(1) P by (simp add: BuildMerkleTreeStore_def Let_def A_def I_def P_def mult.commute)
  ultimately show ?thesis by (rule that [rotated])
qed

section \<open>Binding\<close>

definition collision :: "env \<Rightarrow> bool" where
  "collision e \<longleftrightarrow> (\<exists>x y. x \<noteq> y \<and> DoubleHashB e x = DoubleHashB e y)"

lemma HashMerkleBranches_inj:
  assumes "\<not> collision e" "HashMerkleBranches e l r = HashMerkleBranches e l' r'" "length l = 32" "length l' = 32"
  shows "l = l' \<and> r = r'"
proof -
  have "l @ r = l' @ r'" using assms(1,2) by (auto simp: HashMerkleBranches_def collision_def)
  then show ?thesis using assms(3,4) by simp
qed

abbreviation hashes32 :: "bytes list \<Rightarrow> bool" where
  "hashes32 hs \<equiv> list_all (\<lambda>h. length h = 32) hs"

lemma hashes32_levelUp: "hash_sized e \<Longrightarrow> hashes32 (levelUp e hs)"
  by (induction e hs rule: levelUp.induct) (simp_all add: HashMerkleBranches_def DoubleHashB_def hash_sized_def)

lemma levelUp_inj:
  assumes "\<not> collision e"
  shows "levelUp e hs = levelUp e hs' \<Longrightarrow> length hs = length hs' \<Longrightarrow> hashes32 hs \<Longrightarrow> hashes32 hs' \<Longrightarrow> hs = hs'"
proof (induction "length hs" arbitrary: hs hs' rule: less_induct)
  case less
  note inj = HashMerkleBranches_inj [OF assms]
  consider "hs = []" | l where "hs = [l]" | l r ks where "hs = l # r # ks" by (cases hs; cases "tl hs") auto
  then show ?case
  proof cases
    case 1
    then show ?thesis using less.prems(2) by simp
  next
    case (2 l)
    then obtain l' where l: "hs' = [l']" using less.prems(2) by (cases hs') auto
    then have "HashMerkleBranches e l l = HashMerkleBranches e l' l'" using less.prems(1) 2 by simp
    from inj [OF this] show ?thesis using 2 l less.prems(3,4) by simp
  next
    case (3 l r ks)
    then obtain l' r' ks' where l: "hs' = l' # r' # ks'" using less.prems(2) by (cases hs'; cases "tl hs'") auto
    then have e: "HashMerkleBranches e l r = HashMerkleBranches e l' r'" "levelUp e ks = levelUp e ks'" using less.prems(1) 3 by simp_all
    from inj [OF e(1)] less.hyps [OF _ e(2)] show ?thesis using 3 l less.prems(2-4) by simp
  qed
qed

lemma merkleRoot_inj:
  assumes "\<not> collision e" "hash_sized e"
  shows "merkleRoot e hs = merkleRoot e hs' \<Longrightarrow> length hs = length hs' \<Longrightarrow> hashes32 hs \<Longrightarrow> hashes32 hs' \<Longrightarrow> hs = hs'"
proof (induction "length hs" arbitrary: hs hs' rule: less_induct)
  case less
  show ?case
  proof (cases "length hs > 1")
    case True
    then have "merkleRoot e (levelUp e hs) = merkleRoot e (levelUp e hs')"
      using less.prems(1,2) by (simp only: merkleRoot_step)
    then have "levelUp e hs = levelUp e hs'" using less.hyps [of "levelUp e hs" "levelUp e hs'"] True less.prems(2) hashes32_levelUp [OF assms(2)] by simp
    then show ?thesis using levelUp_inj [OF assms(1)] less.prems(2-4) by blast
  next
    case False
    then show ?thesis using less.prems(1,2) by (cases hs; cases hs') (simp_all add: merkleRoot_single)
  qed
qed

lemma merkleRoot_duplicate:
  assumes "odd (length hs)" "length hs > 1"
  shows "merkleRoot e (hs @ [last hs]) = merkleRoot e hs"
proof -
  have "levelUp e (hs @ [last hs]) = levelUp e hs"
    using assms(1) by (induction e hs rule: levelUp.induct) auto
  then show ?thesis using merkleRoot_step [of "hs @ [last hs]" e] merkleRoot_step [OF assms(2), of e] assms(2) by (cases hs) simp_all
qed

section \<open>Properties\<close>

text \<open>C10. The tree in an array, the proof for the coinbase and its validation agree: for every non-empty list of hashes
  the last node of \<^verbatim>\<open>BuildMerkleTreeStore\<close> is the root obtained by hashing level by level, and
  \<^verbatim>\<open>ValidateCoinbaseMerkleTreeProof\<close> accepts the proof of \<^verbatim>\<open>BuildCoinbaseMerkleTreeProof\<close> for the first hash and this
  root.\<close>

theorem merkle_proof_valid:
  assumes "hs \<noteq> []"
  shows "MerkleTreeRoot e hs = Inr (merkleRoot e hs) \<and> ValidateMerkleTreeRoot e hs (merkleRoot e hs) = Inr True \<and>
    ValidateCoinbaseMerkleTreeProof e (hd hs) (BuildCoinbaseMerkleTreeProof e hs) (merkleRoot e hs)"
proof -
  obtain A where "BuildMerkleTreeStore e hs = Inr A" "last A = Some (merkleRoot e hs)" using last_tree [OF assms] by blast
  then show ?thesis using proof_root [OF assms, of e "hd hs"] assms
    by (simp add: MerkleTreeRoot_def ValidateMerkleTreeRoot_def ValidateCoinbaseMerkleTreeProof_def)
qed

theorem merkle_proof_valid_witness:
  "ValidateCoinbaseMerkleTreeProof zeroKeyEnv (replicate 32 1)
     (BuildCoinbaseMerkleTreeProof zeroKeyEnv [replicate 32 1, replicate 32 2, replicate 32 3]) (replicate 32 0)"
proof -
  have "merkleRoot zeroKeyEnv [replicate 32 1, replicate 32 2, replicate 32 3] = replicate 32 0"
    by (simp add: merkleRoot.simps HashMerkleBranches_def DoubleHashB_def zeroKeyEnv_def)
  with merkle_proof_valid [of "[replicate 32 1, replicate 32 2, replicate 32 3]" zeroKeyEnv] show ?thesis by simp
qed



end
