(* ===== verification/Spec2Isabelle.thy ===== *)
theory Spec2Isabelle
  imports CacheTransparency StandardScripts Supply Merkle
begin

text \<open>
  Verification development of jaxnetd.
\<close>

section \<open>Time-locked outputs\<close>

text \<open>C3. An output that \<^verbatim>\<open>HTLCScript\<close> makes for an address and a lock period below 2^31 stays locked for
  that period: while the age of the spent output does not exceed the period, the engine accepts no
  signature script, witness, flags or cache.\<close>

theorem built_htlc_output_locked:
  assumes "env_ok e" "\<forall>ti \<in> set (TxIns t). - (2 ^ 31) \<le> Age ti \<and> Age ti < 2 ^ 31"
    and "length (Witness (TxIns t ! nat i)) \<le> 2 ^ 29"
    and "net_address e net a" "0 \<le> lock" "lock < 2 ^ 31" "Age (TxIns t ! nat i) \<le> lock"
  shows "\<exists>pk. HTLCScript a lock = Inr pk \<and> bindE (NewEngine pk t i fl sc hc amount) (Execute e) \<noteq> Inr r"
proof -
  obtain pk where pk: "HTLCScript a lock = Inr pk" "parseE pk = Inr (htlcPops a lock)" by (rule HTLCScript_pops [OF assms(4-6)])
  have "fst (isHTLC (htlcPops a lock))" using isHTLC_htlcPops [OF assms(4-6)] by simp
  from htlc_locked [OF assms(1-3) pk(2) this ExtractHTLCLockTime_htlcPops [OF pk(2) assms(5,6)] assms(7)] pk(1)
  show ?thesis by blast
qed

theorem built_htlc_output_locked_witness:
  "env_ok sampleEnv \<and> Age (TxIns sample_tx ! nat 0) \<le> 144 \<and>
   (\<exists>pk. HTLCScript (AddressPubKeyHash (replicate 20 9) 0) 144 = Inr pk \<and>
      bindE (NewEngine pk sample_tx 0 0 None None 0) (Execute sampleEnv) \<noteq> Inr sampleEngine)"
proof -
  have t: "\<forall>ti \<in> set (TxIns sample_tx). - (2 ^ 31) \<le> Age ti \<and> Age ti < 2 ^ 31"
    "length (Witness (TxIns sample_tx ! nat 0)) \<le> 2 ^ 29" "Age (TxIns sample_tx ! nat 0) \<le> 144"
    by (simp_all add: sample_tx_def)
  have "net_address sampleEnv MainNetParams (AddressPubKeyHash (replicate 20 9) 0)"
    by (simp add: net_address_def MainNetParams_def)
  from built_htlc_output_locked [OF sampleEnv_ok t(1,2) this _ _ t(3)] t(3) sampleEnv_ok show ?thesis by simp
qed

end
